(* ===== verification/Coin_Prelude.thy ===== *)
theory Coin_Prelude
  imports Main "HOL-Library.Word" "HOL-Library.Monad_Syntax" "HOL-Library.Sublist"
begin

text \<open>
  Shared vocabulary of the development: the machine types of the C code, C strings as
  character lists, and the generic facts about lists and words the components use.

  Conventions used everywhere. A byte that is computed with is an \<^typ>\<open>8 word\<close>; text that
  is only scanned and copied is a \<^typ>\<open>string\<close>, whose characters are exactly the 256 byte
  values. A pointer into a NUL-terminated buffer is the rest of the buffer from that pointer
  on, so \<open>[]\<close> stands for a pointer at the terminating NUL. An access the C standard gives
  no meaning to (past the end of an array, an uninitialised variable) makes the result
  \<^const>\<open>None\<close>.
\<close>

unbundle bit_operations_syntax

section \<open>Collections of facts\<close>

named_theorems bit_lemmas \<open>facts that reduce word equalities to bits\<close>
named_theorems scan_simps \<open>equations of the text scanners\<close>
named_theorems inv_intros \<open>preservation lemmas for the invariants\<close>

section \<open>Machine types\<close>

type_synonym byte = "8 word"
type_synonym u16 = "16 word"
type_synonym u32 = "32 word"
type_synonym u64 = "64 word"

abbreviation NUL :: char where "NUL \<equiv> CHR 0x00"
abbreviation SOH :: char where "SOH \<equiv> CHR 0x01"
abbreviation TAB :: char where "TAB \<equiv> CHR 0x09"
abbreviation LF :: char where "LF \<equiv> CHR 0x0A"
abbreviation CR :: char where "CR \<equiv> CHR 0x0D"
abbreviation DQUOTE :: char where "DQUOTE \<equiv> CHR 0x22"

section \<open>Characters and bytes\<close>

definition byte_of_char :: "char \<Rightarrow> byte" where
  "byte_of_char c = of_char c"

definition bytes_of :: "string \<Rightarrow> byte list" where
  "bytes_of s = map byte_of_char s"

lemma length_bytes_of [simp]: "length (bytes_of s) = length s"
  by (simp add: bytes_of_def)

lemma byte_of_char_eq_iff [simp]: "byte_of_char c = byte_of_char d \<longleftrightarrow> c = d"
proof
  assume "byte_of_char c = byte_of_char d"
  then have "unat (of_char c :: byte) = unat (of_char d :: byte)"
    by (simp add: byte_of_char_def)
  moreover have "unat (of_char e :: byte) = of_char e" for e
  proof -
    have "(of_char e :: nat) < 256" by simp
    moreover have "(of_char e :: byte) = word_of_nat (of_char e)"
      by (simp add: of_char_def)
    ultimately show ?thesis
      by (simp only: unat_of_nat) (simp add: take_bit_nat_eq_self)
  qed
  ultimately show "c = d" by simp
qed simp

lemma bytes_of_eq_iff [simp]: "bytes_of s = bytes_of t \<longleftrightarrow> s = t"
  by (simp add: bytes_of_def inj_map_eq_map inj_def)

section \<open>Pointers into NUL-terminated text\<close>

text \<open>\<open>*p\<close>: the character under the pointer, NUL at the end of the text.\<close>

fun deref :: "string \<Rightarrow> char" where
  "deref [] = NUL"
| "deref (c # cs) = c"

lemma deref_append [simp]: "xs \<noteq> [] \<Longrightarrow> deref (xs @ ys) = deref xs"
  by (cases xs) auto

text \<open>\<open>memchr(p, c, n)\<close> where \<open>p + n\<close> is the end of the text.\<close>

fun memchr :: "'a \<Rightarrow> 'a list \<Rightarrow> 'a list option" where
  "memchr c [] = None"
| "memchr c (x # xs) = (if x = c then Some (x # xs) else memchr c xs)"

lemma memchr_None_iff: "memchr c xs = None \<longleftrightarrow> c \<notin> set xs"
  by (induction xs) auto

lemma memchr_append_notin [simp]: "c \<notin> set xs \<Longrightarrow> memchr c (xs @ c # ys) = Some (c # ys)"
  by (induction xs) auto

lemma memchr_SomeD:
  "memchr c xs = Some r \<Longrightarrow> \<exists>pre suf. xs = pre @ c # suf \<and> r = c # suf \<and> c \<notin> set pre"
proof (induction xs)
  case (Cons x xs)
  show ?case
  proof (cases "x = c")
    case True
    with Cons.prems show ?thesis by (intro exI [of _ "[]"] exI [of _ xs]) auto
  next
    case False
    with Cons.prems have "memchr c xs = Some r" by simp
    then obtain pre suf where "xs = pre @ c # suf" "r = c # suf" "c \<notin> set pre"
      using Cons.IH by blast
    with False show ?thesis by (intro exI [of _ "x # pre"] exI [of _ suf]) auto
  qed
qed simp

lemma memchr_length: "memchr c xs = Some r \<Longrightarrow> length r \<le> length xs"
  by (auto dest!: memchr_SomeD)

section \<open>Definedness\<close>

text \<open>
  A checked array read and a checked condition, for accesses out of range and failing
  asserts; and the elimination rules that take a successful sequence of steps apart.
\<close>

definition at :: "'a list \<Rightarrow> nat \<Rightarrow> 'a option" where
  "at xs i = (if i < length xs then Some (xs ! i) else None)"

lemma at_simps [simp]: "i < length xs \<Longrightarrow> at xs i = Some (xs ! i)"
  by (simp add: at_def)

lemma at_Some_iff: "at xs i = Some x \<longleftrightarrow> i < length xs \<and> x = xs ! i"
  by (auto simp: at_def)

definition check :: "bool \<Rightarrow> unit option" where
  "check b = (if b then Some () else None)"

lemma check_simps [simp]: "check True = Some ()" "check False = None"
  by (simp_all add: check_def)

lemma check_Some_iff [simp]: "check b = Some u \<longleftrightarrow> b"
  by (simp add: check_def)

lemma bindE:
  "Option.bind m f = Some y \<Longrightarrow> (\<And>x. m = Some x \<Longrightarrow> f x = Some y \<Longrightarrow> P) \<Longrightarrow> P"
  by (cases m) auto

lemma bind_pairE:
  "Option.bind m (\<lambda>(a, b). f a b) = Some y \<Longrightarrow>
    (\<And>a b. m = Some (a, b) \<Longrightarrow> f a b = Some y \<Longrightarrow> P) \<Longrightarrow> P"
  by (cases m) auto

lemma bind_tripleE:
  "Option.bind m (\<lambda>(a, b, c). f a b c) = Some y \<Longrightarrow>
    (\<And>a b c. m = Some (a, b, c) \<Longrightarrow> f a b c = Some y \<Longrightarrow> P) \<Longrightarrow> P"
  by (cases m) auto

lemma bind_checkE:
  "Option.bind (check b) f = Some y \<Longrightarrow> (b \<Longrightarrow> f () = Some y \<Longrightarrow> P) \<Longrightarrow> P"
  by (cases b) auto

lemma if_SomeE:
  "(if c then Some a else m) = Some b \<Longrightarrow> (c \<Longrightarrow> a = b \<Longrightarrow> P) \<Longrightarrow> (\<not> c \<Longrightarrow> m = Some b \<Longrightarrow> P) \<Longrightarrow> P"
  by (cases c) auto

lemmas bind_elims = bind_checkE bind_tripleE bind_pairE bindE

section \<open>Words\<close>

lemma bit_word_beyond: "LENGTH('a) \<le> n \<Longrightarrow> \<not> bit (w :: 'a::len word) n"
  by (metis bit_imp_le_length not_le)

lemma bit_ucast_byte: "bit (ucast (b :: byte) :: u32) n \<longleftrightarrow> n < 8 \<and> bit b n"
  by (auto simp: bit_simps dest: bit_imp_le_length)

lemma bit_byte_beyond: "8 \<le> n \<Longrightarrow> \<not> bit (b :: byte) n"
  by (simp add: bit_word_beyond)

text \<open>A bit position of a 32-bit word is a position inside one of its four bytes.\<close>

lemma byte_position32:
  assumes "n < LENGTH(32)"
  obtains m where "m < 8" "n = m \<or> n = m + 8 \<or> n = m + 16 \<or> n = m + 24"
proof -
  have "n div 8 < 4" using assms by simp
  then have "n div 8 = 0 \<or> n div 8 = 1 \<or> n div 8 = 2 \<or> n div 8 = 3" by linarith
  then have "n = n mod 8 \<or> n = n mod 8 + 8 \<or> n = n mod 8 + 16 \<or> n = n mod 8 + 24"
    using div_mult_mod_eq [of n 8] by linarith
  moreover have "n mod 8 < 8" by simp
  ultimately show thesis using that by blast
qed

lemmas word_bit_simps [bit_lemmas] =
  bit_or_iff bit_and_iff bit_xor_iff bit_push_bit_iff bit_drop_bit_eq bit_mask_iff
  bit_ucast_byte bit_byte_beyond o_def

lemma odd_mult_inj:
  fixes a b p q :: "'a::len word"
  assumes "p * q = 1" and "a * p = b * p"
  shows "a = b"
proof -
  have "a = a * p * q" using assms(1) by (simp add: mult.assoc)
  also have "\<dots> = b * p * q" using assms(2) by simp
  also have "\<dots> = b" using assms(1) by (simp add: mult.assoc)
  finally show ?thesis .
qed

lemma xorshift_inj:
  fixes a b :: "'a::len word"
  assumes "0 < k" and "a XOR drop_bit k a = b XOR drop_bit k b"
  shows "a = b"
proof (rule bit_word_eqI)
  have step: "bit a n = bit b n" if "bit a (n + k) = bit b (n + k)" "n < LENGTH('a)" for n
  proof -
    have "bit (a XOR drop_bit k a) n = bit (b XOR drop_bit k b) n" using assms(2) by simp
    with that show ?thesis by (auto simp: bit_simps add.commute)
  qed
  fix n assume "n < LENGTH('a)"
  then show "bit a n = bit b n"
  proof (induction "LENGTH('a) - n" arbitrary: n rule: less_induct)
    case less
    have "bit a (n + k) = bit b (n + k)"
    proof (cases "n + k < LENGTH('a)")
      case True
      with less assms(1) show ?thesis by simp
    qed (simp add: bit_word_beyond)
    then show ?case using less.prems by (rule step)
  qed
qed

end
