(* ===== verification/XXHash.thy ===== *)
theory XXHash
  imports Coin_Prelude
begin

text \<open>
  \<open>src/hash.c\<close>: the 32-bit xxHash the converters use to recognise JSON keys. The loads,
  the four-lane stripe loop, the two tail loops and the avalanche are those of the source;
  the host's byte order and the alignment of the input are arguments, as they are there.
  Proved: the result depends on neither; the published test values; the hash of a key of
  exactly four bytes is injective, which is what makes the converters' comparison of hashes
  of four-byte prefixes an exact comparison of the prefixes.
\<close>

section \<open>Loads\<close>

datatype XXH_endianess = XXH_bigEndian | XXH_littleEndian
datatype XXH_alignment = XXH_aligned | XXH_unaligned

text \<open>A four-byte load on a host of the given byte order.\<close>

fun XXH_read32 :: "XXH_endianess \<Rightarrow> byte list \<Rightarrow> u32" where
  "XXH_read32 XXH_littleEndian (b0 # b1 # b2 # b3 # _) =
     ucast b0 OR push_bit 8 (ucast b1) OR push_bit 16 (ucast b2) OR push_bit 24 (ucast b3)"
| "XXH_read32 XXH_bigEndian (b0 # b1 # b2 # b3 # _) =
     push_bit 24 (ucast b0) OR push_bit 16 (ucast b1) OR push_bit 8 (ucast b2) OR ucast b3"
| "XXH_read32 _ _ = 0"

definition XXH_rotl32 :: "u32 \<Rightarrow> nat \<Rightarrow> u32" where
  "XXH_rotl32 x r = push_bit r x OR drop_bit (32 - r) x"

definition XXH_swap32 :: "u32 \<Rightarrow> u32" where
  "XXH_swap32 x =
     (push_bit 24 x AND 0xff000000) OR
     (push_bit 8 x AND 0x00ff0000) OR
     (drop_bit 8 x AND 0x0000ff00) OR
     (drop_bit 24 x AND 0x000000ff)"

definition XXH_readLE32_align :: "byte list \<Rightarrow> XXH_endianess \<Rightarrow> XXH_alignment \<Rightarrow> u32" where
  "XXH_readLE32_align ptr endian align =
     (if align = XXH_unaligned
      then (if endian = XXH_littleEndian then XXH_read32 endian ptr
            else XXH_swap32 (XXH_read32 endian ptr))
      else (if endian = XXH_littleEndian then XXH_read32 endian ptr
            else XXH_swap32 (XXH_read32 endian ptr)))"

section \<open>Constants\<close>

definition PRIME32_1 :: u32 where "PRIME32_1 = 2654435761"
definition PRIME32_2 :: u32 where "PRIME32_2 = 2246822519"
definition PRIME32_3 :: u32 where "PRIME32_3 = 3266489917"
definition PRIME32_4 :: u32 where "PRIME32_4 = 668265263"
definition PRIME32_5 :: u32 where "PRIME32_5 = 374761393"

lemmas prime32_defs = PRIME32_1_def PRIME32_2_def PRIME32_3_def PRIME32_4_def PRIME32_5_def

section \<open>The hash\<close>

text \<open>One lane of the stripe loop: add the load, rotate, multiply.\<close>

definition XXH32_round :: "u32 \<Rightarrow> u32 \<Rightarrow> u32" where
  "XXH32_round v x = XXH_rotl32 (v + x * PRIME32_2) 13 * PRIME32_1"

text \<open>
  The stripe loop \<open>do { ... } while (p <= limit)\<close> with \<open>limit = bEnd - 16\<close>: the pointer
  is the rest of the input, so the loop goes on while 16 bytes are left.
\<close>

function XXH32_stripes ::
  "XXH_endianess \<Rightarrow> XXH_alignment \<Rightarrow> byte list \<Rightarrow> u32 \<Rightarrow> u32 \<Rightarrow> u32 \<Rightarrow> u32
    \<Rightarrow> byte list \<times> u32 \<times> u32 \<times> u32 \<times> u32" where
  "XXH32_stripes endian align p v1 v2 v3 v4 =
     (let w1 = XXH32_round v1 (XXH_readLE32_align p endian align);
          w2 = XXH32_round v2 (XXH_readLE32_align (drop 4 p) endian align);
          w3 = XXH32_round v3 (XXH_readLE32_align (drop 8 p) endian align);
          w4 = XXH32_round v4 (XXH_readLE32_align (drop 12 p) endian align);
          q = drop 16 p
      in if 16 \<le> length q then XXH32_stripes endian align q w1 w2 w3 w4
         else (q, w1, w2, w3, w4))"
  by pat_completeness auto
termination
  by (relation "measure (\<lambda>(_, _, p, _). length p)") auto

declare XXH32_stripes.simps [simp del]

text \<open>\<open>while (p+4<=bEnd)\<close> and \<open>while (p<bEnd)\<close>.\<close>

function XXH32_tail4 ::
  "XXH_endianess \<Rightarrow> XXH_alignment \<Rightarrow> byte list \<Rightarrow> u32 \<Rightarrow> byte list \<times> u32" where
  "XXH32_tail4 endian align p h32 =
     (if 4 \<le> length p
      then XXH32_tail4 endian align (drop 4 p)
             (XXH_rotl32 (h32 + XXH_readLE32_align p endian align * PRIME32_3) 17 * PRIME32_4)
      else (p, h32))"
  by pat_completeness auto
termination
  by (relation "measure (\<lambda>(_, _, p, _). length p)") auto

declare XXH32_tail4.simps [simp del]

fun XXH32_tail1 :: "byte list \<Rightarrow> u32 \<Rightarrow> u32" where
  "XXH32_tail1 [] h32 = h32"
| "XXH32_tail1 (b # p) h32 =
     XXH32_tail1 p (XXH_rotl32 (h32 + ucast b * PRIME32_5) 11 * PRIME32_1)"

definition XXH32_avalanche :: "u32 \<Rightarrow> u32" where
  "XXH32_avalanche h0 =
     (let h1 = h0 XOR drop_bit 15 h0;
          h2 = h1 * PRIME32_2;
          h3 = h2 XOR drop_bit 13 h2;
          h4 = h3 * PRIME32_3
      in h4 XOR drop_bit 16 h4)"

definition XXH32_endian_align ::
  "byte list \<Rightarrow> XXH_endianess \<Rightarrow> XXH_alignment \<Rightarrow> u32" where
  "XXH32_endian_align input endian align =
     (let len = length input;
          (p, h32) =
            (if 16 \<le> len
             then case XXH32_stripes endian align input
                         (PRIME32_1 + PRIME32_2) PRIME32_2 0 (- PRIME32_1) of
                    (q, v1, v2, v3, v4) \<Rightarrow>
                      (q, XXH_rotl32 v1 1 + XXH_rotl32 v2 7 + XXH_rotl32 v3 12
                            + XXH_rotl32 v4 18)
             else (input, PRIME32_5));
          (q, h4) = XXH32_tail4 endian align p (h32 + of_nat len)
      in XXH32_avalanche (XXH32_tail1 q h4))"

text \<open>
  The entry point. \<open>endian_detected\<close> is the host's byte order; \<open>addr_mod4\<close> is the input
  address modulo 4; \<open>useless_align_branch\<close> says whether the build skips the alignment test
  (it does on x86).
\<close>

definition hash_on ::
  "XXH_endianess \<Rightarrow> bool \<Rightarrow> nat \<Rightarrow> byte list \<Rightarrow> u32" where
  "hash_on endian_detected useless_align_branch addr_mod4 input =
     (if \<not> useless_align_branch \<and> addr_mod4 = 0
      then (if endian_detected = XXH_littleEndian
            then XXH32_endian_align input XXH_littleEndian XXH_aligned
            else XXH32_endian_align input XXH_bigEndian XXH_aligned)
      else (if endian_detected = XXH_littleEndian
            then XXH32_endian_align input XXH_littleEndian XXH_unaligned
            else XXH32_endian_align input XXH_bigEndian XXH_unaligned))"

text \<open>The hash as the converters call it, on the platform they are built for.\<close>

definition hash :: "string \<Rightarrow> u32" where
  "hash s = hash_on XXH_littleEndian True 0 (bytes_of s)"

section \<open>Independence of the host\<close>

lemma swap32_masks:
  "(0xff000000 :: u32) = push_bit 24 (mask 8)" "(0x00ff0000 :: u32) = push_bit 16 (mask 8)"
  "(0x0000ff00 :: u32) = push_bit 8 (mask 8)" "(0x000000ff :: u32) = mask 8"
  by (simp_all add: mask_eq_exp_minus_1)

lemma XXH_swap32_bytes:
  fixes b0 b1 b2 b3 :: byte
  shows "XXH_swap32 (push_bit 24 (ucast b0) OR push_bit 16 (ucast b1) OR push_bit 8 (ucast b2)
           OR ucast b3)
    = ucast b0 OR push_bit 8 (ucast b1) OR push_bit 16 (ucast b2) OR push_bit 24 (ucast b3)"
    (is "XXH_swap32 ?x = ?y")
proof (rule bit_word_eqI)
  fix n assume "n < LENGTH(32)"
  then obtain m where "m < 8" and "n = m \<or> n = m + 8 \<or> n = m + 16 \<or> n = m + 24"
    by (rule byte_position32)
  then show "bit (XXH_swap32 ?x) n = bit ?y n"
    unfolding XXH_swap32_def
    by (elim disjE) (simp_all add: swap32_masks bit_lemmas)
qed

lemma XXH_swap32_read32:
  "XXH_swap32 (XXH_read32 XXH_bigEndian p) = XXH_read32 XXH_littleEndian p"
  by (cases "(XXH_bigEndian, p)" rule: XXH_read32.cases)
    (auto simp: XXH_swap32_bytes, auto simp: XXH_swap32_def)

lemma readLE32_host [simp]:
  "XXH_readLE32_align p endian align = XXH_read32 XXH_littleEndian p"
  by (cases endian; cases align) (auto simp: XXH_readLE32_align_def XXH_swap32_read32)

lemma XXH32_stripes_host:
  "XXH32_stripes endian align p v1 v2 v3 v4
     = XXH32_stripes XXH_littleEndian XXH_unaligned p v1 v2 v3 v4"
proof (induction endian align p v1 v2 v3 v4 rule: XXH32_stripes.induct)
  case (1 endian align p v1 v2 v3 v4)
  then show ?case
    by (subst (1 2) XXH32_stripes.simps) (simp add: Let_def)
qed

lemma XXH32_tail4_host:
  "XXH32_tail4 endian align p h = XXH32_tail4 XXH_littleEndian XXH_unaligned p h"
proof (induction endian align p h rule: XXH32_tail4.induct)
  case (1 endian align p h)
  then show ?case
    by (subst (1 2) XXH32_tail4.simps) simp
qed

lemma XXH32_host:
  "XXH32_endian_align input endian align
     = XXH32_endian_align input XXH_littleEndian XXH_unaligned"
  unfolding XXH32_endian_align_def
  by (subst XXH32_stripes_host, subst XXH32_tail4_host) (rule refl)


section \<open>Injectivity on four-byte keys\<close>

lemma byte_of_word_inj:
  fixes a0 a1 a2 a3 b0 b1 b2 b3 :: byte
  assumes "ucast a0 OR push_bit 8 (ucast a1) OR push_bit 16 (ucast a2) OR push_bit 24 (ucast a3)
    = (ucast b0 OR push_bit 8 (ucast b1) OR push_bit 16 (ucast b2) OR push_bit 24 (ucast b3) :: u32)"
    (is "?a = ?b")
  shows "a0 = b0 \<and> a1 = b1 \<and> a2 = b2 \<and> a3 = b3"
proof -
  have eq: "bit ?a n = bit ?b n" for n using assms by simp
  have "bit a0 n = bit b0 n" "bit a1 n = bit b1 n" "bit a2 n = bit b2 n" "bit a3 n = bit b3 n"
    if "n < 8" for n
    using that eq [of n] eq [of "n + 8"] eq [of "n + 16"] eq [of "n + 24"]
    by (simp_all add: bit_lemmas)
  then show ?thesis by (auto intro: bit_word_eqI)
qed

lemma XXH_read32_inj:
  assumes "length p = 4" "length q = 4"
    and "XXH_read32 XXH_littleEndian p = XXH_read32 XXH_littleEndian q"
  shows "p = q"
proof -
  obtain a0 a1 a2 a3 where p: "p = [a0, a1, a2, a3]"
    using assms(1) by (auto simp: numeral_eq_Suc length_Suc_conv)
  obtain b0 b1 b2 b3 where q: "q = [b0, b1, b2, b3]"
    using assms(2) by (auto simp: numeral_eq_Suc length_Suc_conv)
  show ?thesis using assms(3) byte_of_word_inj unfolding p q by simp
qed

text \<open>Every step of the tail and of the avalanche can be undone.\<close>

lemma XXH_rotl32_inj:
  assumes "XXH_rotl32 a r = XXH_rotl32 b r" "0 < r" "r < 32"
  shows "a = b"
proof (rule bit_word_eqI)
  fix n assume "n < LENGTH(32)"
  then have n: "n < 32" by simp
  have eq: "bit (XXH_rotl32 a r) m = bit (XXH_rotl32 b r) m" for m using assms(1) by simp
  show "bit a n = bit b n"
  proof (cases "n + r < 32")
    case True
    have "\<not> bit w (n + r + (32 - r))" for w :: u32 using n assms by (simp add: bit_word_beyond)
    with True eq [of "n + r"] show ?thesis
      by (simp add: XXH_rotl32_def bit_lemmas add.commute)
  next
    case False
    then have "n + r - 32 < r" "n + r - 32 + (32 - r) = n" using n assms by auto
    with eq [of "n + r - 32"] n show ?thesis
      by (simp add: XXH_rotl32_def bit_lemmas add.commute)
  qed
qed

lemma prime32_inverses:
  "PRIME32_1 * 244002641 = 1" "PRIME32_2 * 3066638151 = 1" "PRIME32_3 * 2828982549 = 1"
  "PRIME32_4 * 2701016015 = 1" 
  by (simp_all add: prime32_defs)

lemma XXH32_avalanche_inj: "XXH32_avalanche a = XXH32_avalanche b \<Longrightarrow> a = b"
  unfolding XXH32_avalanche_def Let_def
  by (drule xorshift_inj [rotated], simp, drule odd_mult_inj [OF prime32_inverses(3)],
      drule xorshift_inj [rotated], simp, drule odd_mult_inj [OF prime32_inverses(2)],
      drule xorshift_inj [rotated], simp, assumption)

lemma XXH32_four_bytes:
  assumes "length p = 4"
  shows "XXH32_endian_align p XXH_littleEndian XXH_unaligned
    = XXH32_avalanche
        (XXH_rotl32 (PRIME32_5 + 4 + XXH_read32 XXH_littleEndian p * PRIME32_3) 17 * PRIME32_4)"
  using assms by (simp add: XXH32_endian_align_def XXH32_tail4.simps)

lemma XXH32_inj4:
  assumes "length p = 4" "length q = 4"
    and "XXH32_endian_align p XXH_littleEndian XXH_unaligned
      = XXH32_endian_align q XXH_littleEndian XXH_unaligned"
  shows "p = q"
proof -
  have "XXH_rotl32 (PRIME32_5 + 4 + XXH_read32 XXH_littleEndian p * PRIME32_3) 17
      = XXH_rotl32 (PRIME32_5 + 4 + XXH_read32 XXH_littleEndian q * PRIME32_3) 17"
    using assms(3) unfolding XXH32_four_bytes [OF assms(1)] XXH32_four_bytes [OF assms(2)]
    by (rule XXH32_avalanche_inj [THEN odd_mult_inj [OF prime32_inverses(4)]])
  then have "XXH_read32 XXH_littleEndian p * PRIME32_3 = XXH_read32 XXH_littleEndian q * PRIME32_3"
    by (auto dest!: XXH_rotl32_inj)
  then show ?thesis
    using assms(1,2) by (blast intro: XXH_read32_inj odd_mult_inj [OF prime32_inverses(3)])
qed


section \<open>Hashed keys as exact keys\<close>

text \<open>
  The converters never compare keys: they hash the known keys once in \<open>init\<close> and compare
  hashes. What they rely on is stated as an interface: on the keys of a class, equal hashes
  mean equal keys.
\<close>

locale exact_key =
  fixes h :: "'k \<Rightarrow> 'h" and dom :: "'k \<Rightarrow> bool"
  assumes exact: "dom a \<Longrightarrow> dom b \<Longrightarrow> h a = h b \<Longrightarrow> a = b"
begin

lemma key_eq_iff: "dom a \<Longrightarrow> dom b \<Longrightarrow> h a = h b \<longleftrightarrow> a = b"
  using exact by blast

text \<open>A dispatch table keyed by hashes selects what the table keyed by the keys selects.\<close>

lemma dispatch:
  assumes "dom x" "\<forall>(k, v) \<in> set tab. dom k"
  shows "map_of (map (\<lambda>(k, v). (h k, v)) tab) (h x) = map_of tab x"
  using assms(2) by (induction tab) (auto dest: exact [OF assms(1)])

end

lemma hash_eq: "hash s = XXH32_endian_align (bytes_of s) XXH_littleEndian XXH_unaligned"
  by (simp add: hash_def hash_on_def)

interpretation hash4: exact_key hash "\<lambda>s. length s = 4"
  by unfold_locales (auto simp: hash_eq dest: XXH32_inj4 [rotated 2])

lemmas hash_unfold = hash_eq bytes_of_def byte_of_char_def XXH32_endian_align_def
  XXH32_stripes.simps XXH32_tail4.simps

lemmas hash_arith = XXH32_round_def XXH32_avalanche_def XXH_rotl32_def prime32_defs

section \<open>Properties\<close>

text \<open>
  C1. The hash of an input is the same on little- and big-endian hosts, for aligned and
  unaligned inputs, whether or not the build tests the alignment.
\<close>

theorem hash_host_independent:
  "hash_on endian skip addr input = hash_on XXH_littleEndian True 0 input"
  by (simp add: hash_on_def XXH32_host [of input endian] XXH32_host [of input XXH_bigEndian]
        XXH32_host [of input XXH_littleEndian XXH_aligned])

text \<open>
  C2. On keys of exactly four characters the hash is exact: comparing the hash of a
  four-byte key prefix with the hash of a four-byte constant, as the converters do, decides
  equality of the prefix and the constant.
\<close>

theorem hash_four_exact: "length s = 4 \<Longrightarrow> length t = 4 \<Longrightarrow> hash s = hash t \<longleftrightarrow> s = t"
  by (rule hash4.key_eq_iff)

theorem hash_four_exact_witness: "hash ''bids'' \<noteq> hash ''asks''"
  using hash_four_exact [of "''bids''" "''asks''"] by simp

text \<open>
  The published xxHash test values with seed 0: the empty input, an input that takes
  only the byte loop, and one that takes the stripe loop and both tail loops.
\<close>

theorem hash_test_values:
  "hash [] = 0x02CC5D05 \<and> hash ''abc'' = 0x32D153FF
     \<and> hash ''Nobody inspects the spammish repetition'' = 0xE2293B2F"
  by (intro conjI,
      simp add: hash_unfold, simp add: hash_arith,
      simp add: hash_unfold, simp add: hash_arith,
      simp add: hash_unfold, simp add: hash_arith)

end
