(* ===== verification/Inflate.thy ===== *)
theory Inflate
  imports Coin_Prelude
begin

text \<open>
  \<open>src/tinflate.c\<close>: the inflater \<open>ws_cb\<close> runs on compressed feeds. The decompressor state
  \<open>struct tinf_data\<close> is a record; the output already written is a list, so
  \<open>dest - dest_start\<close> is its length. A failed \<open>assert\<close> and an array access out of range
  are \<^const>\<open>None\<close>; the C status codes are values. Proved: no input makes an assert fail or
  an access go out of range; the inflater always returns; the output never exceeds the
  buffer; canonical trees decode within their 15 levels; stored blocks round-trip; the bit
  reader hands out the bits of the input in order and never holds back a whole byte.
\<close>

section \<open>Data\<close>

datatype tinf_error_code = TINF_OK | TINF_DATA_ERROR | TINF_BUF_ERROR

record tinf_tree =
  counts :: "nat list"
  symbols :: "nat list"
  max_sym :: int

record tinf_data =
  source :: "byte list"
  tag :: u32
  bitcount :: nat
  overflow :: bool
  dest :: "byte list"
  dest_size :: nat
  ltree :: tinf_tree
  dtree :: tinf_tree

section \<open>Trees\<close>

definition read_le16 :: "byte list \<Rightarrow> u32 option" where
  "read_le16 p = do { p0 \<leftarrow> at p 0; p1 \<leftarrow> at p 1; Some (ucast p0 OR push_bit 8 (ucast p1)) }"

text \<open>
  The fixed trees. The loops of the source fill consecutive runs of \<open>symbols\<close>; the
  distance tree leaves the cells from 32 on as they were.
\<close>

definition tinf_build_fixed_trees :: "tinf_tree \<Rightarrow> tinf_tree \<Rightarrow> tinf_tree \<times> tinf_tree" where
  "tinf_build_fixed_trees lt dt =
     (\<lparr>counts = (replicate 16 0)[7 := 24, 8 := 152, 9 := 112],
       symbols = map (\<lambda>i. 256 + i) [0..<24] @ [0..<144] @ map (\<lambda>i. 280 + i) [0..<8]
                   @ map (\<lambda>i. 144 + i) [0..<112],
       max_sym = 285\<rparr>,
      \<lparr>counts = (replicate 16 0)[5 := 32],
       symbols = [0..<32] @ drop 32 (symbols dt),
       max_sym = 29\<rparr>)"

text \<open>The loop that counts the codes of each length; \<open>i\<close> is the symbol of the head.\<close>

fun tinf_count_lengths :: "nat \<Rightarrow> nat list \<Rightarrow> nat list \<Rightarrow> int \<Rightarrow> (nat list \<times> int) option" where
  "tinf_count_lengths i [] cnt ms = Some (cnt, ms)"
| "tinf_count_lengths i (l # ls) cnt ms =
     (if \<not> l \<le> 15 then None
      else if l \<noteq> 0 then tinf_count_lengths (Suc i) ls (cnt[l := cnt ! l + 1]) (int i)
      else tinf_count_lengths (Suc i) ls cnt ms)"

text \<open>
  The offset table: \<open>None\<close> when a length has more codes than are available; otherwise the
  codes left over, the number of codes and the first position of each length.
\<close>

fun tinf_offsets :: "nat list \<Rightarrow> nat \<Rightarrow> nat \<Rightarrow> nat list \<Rightarrow> (nat \<times> nat \<times> nat list) option" where
  "tinf_offsets [] available num_codes offs = Some (available, num_codes, offs)"
| "tinf_offsets (used # cnt) available num_codes offs =
     (if used > available then None
      else tinf_offsets cnt (2 * (available - used)) (num_codes + used) (offs @ [num_codes]))"

text \<open>The distribution sort of the symbols by code length.\<close>

fun tinf_fill_symbols :: "nat \<Rightarrow> nat list \<Rightarrow> nat list \<Rightarrow> nat list \<Rightarrow> nat list option" where
  "tinf_fill_symbols i [] offs syms = Some syms"
| "tinf_fill_symbols i (l # ls) offs syms =
     (if l \<noteq> 0
      then do { k \<leftarrow> at offs l;
                check (k < length syms);
                tinf_fill_symbols (Suc i) ls (offs[l := k + 1]) (syms[k := i]) }
      else tinf_fill_symbols (Suc i) ls offs syms)"

definition tinf_build_tree ::
  "tinf_tree \<Rightarrow> nat list \<Rightarrow> (tinf_error_code \<times> tinf_tree) option" where
  "tinf_build_tree t lengths = do {
     check (length lengths \<le> 288);
     (cnt, ms) \<leftarrow> tinf_count_lengths 0 lengths (replicate 16 0) (-1);
     (let t1 = t\<lparr>counts := cnt, max_sym := ms\<rparr> in
      case tinf_offsets cnt 1 0 [] of
        None \<Rightarrow> Some (TINF_DATA_ERROR, t1)
      | Some (available, num_codes, offs) \<Rightarrow>
          if (num_codes > 1 \<and> available > 0) \<or> (num_codes = 1 \<and> cnt ! 1 \<noteq> 1)
          then Some (TINF_DATA_ERROR, t1)
          else do {
            syms \<leftarrow> tinf_fill_symbols 0 lengths offs (symbols t1);
            if num_codes = 1
            then Some (TINF_OK, t1\<lparr>counts := cnt[1 := 2], symbols := syms[1 := nat (ms + 1)]\<rparr>)
            else Some (TINF_OK, t1\<lparr>symbols := syms\<rparr>) }) }"

section \<open>The bit reader\<close>

text \<open>\<open>tinf_refill\<close>: read bytes until at least \<open>num\<close> bits are there.\<close>

function tinf_refill_loop :: "tinf_data \<Rightarrow> nat \<Rightarrow> tinf_data" where
  "tinf_refill_loop d num =
     (if bitcount d < num
      then (case source d of
              b # bs \<Rightarrow>
                tinf_refill_loop
                  (d\<lparr>tag := tag d OR push_bit (bitcount d) (ucast b), source := bs,
                     bitcount := bitcount d + 8\<rparr>) num
            | [] \<Rightarrow> tinf_refill_loop (d\<lparr>overflow := True, bitcount := bitcount d + 8\<rparr>) num)
      else d)"
  by pat_completeness auto
termination
  by (relation "measure (\<lambda>(d, num). num - bitcount d)") auto

declare tinf_refill_loop.simps [simp del]

definition tinf_refill :: "tinf_data \<Rightarrow> nat \<Rightarrow> tinf_data option" where
  "tinf_refill d num = do {
     check (num \<le> 32);
     (let d1 = tinf_refill_loop d num in do { check (bitcount d1 \<le> 32); Some d1 }) }"

definition tinf_getbits_no_refill :: "tinf_data \<Rightarrow> nat \<Rightarrow> (nat \<times> tinf_data) option" where
  "tinf_getbits_no_refill d num = do {
     check (num \<le> bitcount d);
     Some (unat (tag d AND mask num),
           d\<lparr>tag := drop_bit num (tag d), bitcount := bitcount d - num\<rparr>) }"

definition tinf_getbits :: "tinf_data \<Rightarrow> nat \<Rightarrow> (nat \<times> tinf_data) option" where
  "tinf_getbits d num = do { d1 \<leftarrow> tinf_refill d num; tinf_getbits_no_refill d1 num }"

definition tinf_getbits_base :: "tinf_data \<Rightarrow> nat \<Rightarrow> nat \<Rightarrow> (nat \<times> tinf_data) option" where
  "tinf_getbits_base d num base =
     (if num \<noteq> 0 then do { (b, d1) \<leftarrow> tinf_getbits d num; Some (base + b, d1) }
      else Some (base, d))"

section \<open>Symbols\<close>

text \<open>
  The loop of \<open>tinf_decode_symbol\<close>: \<open>base + offs\<close> is the index, in the order of codes, of
  the code read so far.
\<close>

function tinf_decode_loop ::
  "tinf_data \<Rightarrow> tinf_tree \<Rightarrow> nat \<Rightarrow> nat \<Rightarrow> nat \<Rightarrow> (nat \<times> tinf_data) option" where
  "tinf_decode_loop d t len base offs = do {
     (b, d1) \<leftarrow> tinf_getbits d 1;
     if \<not> len \<le> 15 then None
     else do {
       c \<leftarrow> at (counts t) len;
       (let offs1 = 2 * offs + b in
        if offs1 < c
        then do { check (base + offs1 < 288); s \<leftarrow> at (symbols t) (base + offs1); Some (s, d1) }
        else tinf_decode_loop d1 t (len + 1) (base + c) (offs1 - c)) } }"
  by pat_completeness auto
termination
  by (relation "measure (\<lambda>(d, t, len, _). 16 - len)") auto

declare tinf_decode_loop.simps [simp del]

definition tinf_decode_symbol :: "tinf_data \<Rightarrow> tinf_tree \<Rightarrow> (nat \<times> tinf_data) option" where
  "tinf_decode_symbol d t = tinf_decode_loop d t 1 0 0"


section \<open>Dynamic trees\<close>

definition clcidx :: "nat list" where
  "clcidx = [16, 17, 18, 0, 8, 7, 9, 6, 10, 5, 11, 4, 12, 3, 13, 2, 14, 1, 15]"

text \<open>\<open>for (i = 0; i < hclen; ++i) lengths[clcidx[i]] = tinf_getbits(d, 3)\<close>.\<close>

fun tinf_read_clens ::
  "tinf_data \<Rightarrow> nat list \<Rightarrow> nat list \<Rightarrow> (nat list \<times> tinf_data) option" where
  "tinf_read_clens d [] lengths = Some (lengths, d)"
| "tinf_read_clens d (ix # ixs) lengths = do {
     (clen, d1) \<leftarrow> tinf_getbits d 3;
     check (ix < length lengths);
     tinf_read_clens d1 ixs (lengths[ix := clen]) }"

text \<open>
  What one code-length symbol stands for: the length to repeat and how often, or the data
  error of a repeat code with nothing before it. Of the array \<open>lengths\<close> the list holds the
  cells written since \<open>num\<close> was set to 0, so \<open>num\<close> is its length and \<open>lengths[num++] = x\<close>
  appends, as long as the array has room.
\<close>

definition tinf_clen_action ::
  "tinf_data \<Rightarrow> nat \<Rightarrow> nat list \<Rightarrow> (tinf_error_code + nat \<times> nat \<times> tinf_data) option" where
  "tinf_clen_action d smb lengths =
     (if smb = 16 then
        (if lengths = [] then Some (Inl TINF_DATA_ERROR)
         else do {
           s \<leftarrow> at lengths (length lengths - 1);
           (n, d1) \<leftarrow> tinf_getbits_base d 2 3;
           Some (Inr (s, n, d1)) })
      else if smb = 17 then do { (n, d1) \<leftarrow> tinf_getbits_base d 3 3; Some (Inr (0, n, d1)) }
      else if smb = 18 then do { (n, d1) \<leftarrow> tinf_getbits_base d 7 11; Some (Inr (0, n, d1)) }
      else Some (Inr (smb, 1, d)))"

lemma tinf_getbits_base_ge: "tinf_getbits_base d num base = Some (n, d1) \<Longrightarrow> base \<le> n"
  by (auto simp: tinf_getbits_base_def bind_eq_Some_conv split: if_splits)

lemma tinf_clen_action_pos:
  "tinf_clen_action d smb lengths = Some (Inr (s, n, d1)) \<Longrightarrow> 0 < n"
  by (auto simp: tinf_clen_action_def bind_eq_Some_conv dest!: tinf_getbits_base_ge
      split: if_splits)

text \<open>The cells of \<open>unsigned char lengths[288 + 32]\<close>.\<close>

definition LENGTHS_SIZE :: nat where
  "LENGTHS_SIZE = 288 + 32"

text \<open>\<open>for (num = 0; num < hlit + hdist; )\<close>, with \<open>ntot = hlit + hdist\<close>.\<close>

function tinf_code_lengths ::
  "tinf_data \<Rightarrow> tinf_tree \<Rightarrow> nat \<Rightarrow> nat list
    \<Rightarrow> (tinf_error_code \<times> nat list \<times> tinf_data) option" where
  "tinf_code_lengths d lt ntot lengths =
     (if length lengths < ntot
      then do {
        (smb, d1) \<leftarrow> tinf_decode_symbol d lt;
        if int smb > max_sym lt then Some (TINF_DATA_ERROR, lengths, d1)
        else do {
          act \<leftarrow> tinf_clen_action d1 smb lengths;
          case act of
            Inl e \<Rightarrow> Some (e, lengths, d1)
          | Inr (s, n, d2) \<Rightarrow>
              if n > ntot - length lengths then Some (TINF_DATA_ERROR, lengths, d2)
              else do {
                check (length lengths + n \<le> LENGTHS_SIZE);
                tinf_code_lengths d2 lt ntot (lengths @ replicate n s) } } }
      else Some (TINF_OK, lengths, d))"
  by pat_completeness auto
termination
  by (relation "measure (\<lambda>(d, lt, ntot, lengths). ntot - length lengths)")
    (auto dest: tinf_clen_action_pos)

declare tinf_code_lengths.simps [simp del]

text \<open>
  \<open>tinf_decode_trees(d, &d->ltree, &d->dtree)\<close>: the code-length tree is built in the
  literal tree's place, then both trees are built from the decoded lengths.
\<close>

definition tinf_decode_trees :: "tinf_data \<Rightarrow> (tinf_error_code \<times> tinf_data) option" where
  "tinf_decode_trees d = do {
     (hlit, d1) \<leftarrow> tinf_getbits_base d 5 257;
     (hdist, d2) \<leftarrow> tinf_getbits_base d1 5 1;
     (hclen, d3) \<leftarrow> tinf_getbits_base d2 4 4;
     if hlit > 286 \<or> hdist > 30 then Some (TINF_DATA_ERROR, d3)
     else do {
       check (hclen \<le> 19);
       (clens, d4) \<leftarrow> tinf_read_clens d3 (take hclen clcidx) (replicate 19 0);
       (res, lt) \<leftarrow> tinf_build_tree (ltree d4) clens;
       (let d5 = d4\<lparr>ltree := lt\<rparr> in
        if res \<noteq> TINF_OK then Some (res, d5)
        else if max_sym lt = -1 then Some (TINF_DATA_ERROR, d5)
        else do {
          (res, lengths, d6) \<leftarrow> tinf_code_lengths d5 lt (hlit + hdist) [];
          if res \<noteq> TINF_OK then Some (res, d6)
          else do {
            eob \<leftarrow> at lengths 256;
            if eob = 0 then Some (TINF_DATA_ERROR, d6)
            else do {
              (res, lt) \<leftarrow> tinf_build_tree (ltree d6) (take hlit lengths);
              (let d7 = d6\<lparr>ltree := lt\<rparr> in
               if res \<noteq> TINF_OK then Some (res, d7)
               else do {
                 (res, dt) \<leftarrow> tinf_build_tree (dtree d7) (take hdist (drop hlit lengths));
                 Some (res, d7\<lparr>dtree := dt\<rparr>) }) } } }) } }"

section \<open>Blocks\<close>

definition length_bits :: "nat list" where
  "length_bits = [0, 0, 0, 0, 0, 0, 0, 0, 1, 1, 1, 1, 2, 2, 2, 2, 3, 3, 3, 3,
                  4, 4, 4, 4, 5, 5, 5, 5, 0, 127]"

definition length_base :: "nat list" where
  "length_base = [3, 4, 5, 6, 7, 8, 9, 10, 11, 13, 15, 17, 19, 23, 27, 31, 35, 43, 51, 59,
                  67, 83, 99, 115, 131, 163, 195, 227, 258, 0]"

definition dist_bits :: "nat list" where
  "dist_bits = [0, 0, 0, 0, 1, 1, 2, 2, 3, 3, 4, 4, 5, 5, 6, 6, 7, 7, 8, 8,
                9, 9, 10, 10, 11, 11, 12, 12, 13, 13]"

definition dist_base :: "nat list" where
  "dist_base = [1, 2, 3, 4, 5, 7, 9, 13, 17, 25, 33, 49, 65, 97, 129, 193, 257, 385, 513, 769,
                1025, 1537, 2049, 3073, 4097, 6145, 8193, 12289, 16385, 24577]"

text \<open>\<open>for (i = 0; i < length; ++i) dest[i] = dest[i - offs]\<close>, byte by byte.\<close>

fun tinf_copy_match :: "nat \<Rightarrow> nat \<Rightarrow> byte list \<Rightarrow> byte list option" where
  "tinf_copy_match 0 offs out = Some out"
| "tinf_copy_match (Suc n) offs out = do {
     check (offs \<le> length out);
     x \<leftarrow> at out (length out - offs);
     tinf_copy_match n offs (out @ [x]) }"

text \<open>
  One round of the loop of \<open>tinf_inflate_block_data\<close>: \<open>Inl\<close> the status it returns with, or
  \<open>Inr\<close> the state it goes on with.
\<close>

definition tinf_block_round ::
  "tinf_data \<Rightarrow> (tinf_error_code \<times> tinf_data + tinf_data) option" where
  "tinf_block_round d = do {
     (smb, d1) \<leftarrow> tinf_decode_symbol d (ltree d);
     if overflow d1 then Some (Inl (TINF_DATA_ERROR, d1))
     else if smb < 256 then
       (if length (dest d1) = dest_size d1 then Some (Inl (TINF_BUF_ERROR, d1))
        else Some (Inr (d1\<lparr>dest := dest d1 @ [of_nat smb]\<rparr>)))
     else if smb = 256 then Some (Inl (TINF_OK, d1))
     else if int smb > max_sym (ltree d1) \<or> smb - 257 > 28 \<or> max_sym (dtree d1) = -1
       then Some (Inl (TINF_DATA_ERROR, d1))
     else do {
       lbits \<leftarrow> at length_bits (smb - 257);
       lbase \<leftarrow> at length_base (smb - 257);
       (len, d2) \<leftarrow> tinf_getbits_base d1 lbits lbase;
       (dist, d3) \<leftarrow> tinf_decode_symbol d2 (dtree d2);
       if int dist > max_sym (dtree d3) \<or> dist > 29 then Some (Inl (TINF_DATA_ERROR, d3))
       else do {
         dbits \<leftarrow> at dist_bits dist;
         dbase \<leftarrow> at dist_base dist;
         (offs, d4) \<leftarrow> tinf_getbits_base d3 dbits dbase;
         if offs > length (dest d4) then Some (Inl (TINF_DATA_ERROR, d4))
         else if dest_size d4 - length (dest d4) < len then Some (Inl (TINF_BUF_ERROR, d4))
         else do {
           out \<leftarrow> tinf_copy_match len offs (dest d4);
           Some (Inr (d4\<lparr>dest := out\<rparr>)) } } } }"


section \<open>Progress of the bit reader\<close>

text \<open>
  Every loop of the inflater is driven by the bit reader. \<open>tinf_bits\<close> is the number of bits
  left. A step that hands out \<open>k\<close> bits either takes them from what is left or runs into the
  end of the input, which it records in \<open>overflow\<close> with \<open>source\<close> used up.
\<close>

definition tinf_bits :: "tinf_data \<Rightarrow> nat" where
  "tinf_bits d = 8 * length (source d) + bitcount d"

definition tinf_advances :: "nat \<Rightarrow> tinf_data \<Rightarrow> tinf_data \<Rightarrow> bool" where
  "tinf_advances k d d' \<longleftrightarrow>
     (overflow d \<longrightarrow> overflow d') \<and> (source d = [] \<longrightarrow> source d' = []) \<and>
     (\<not> overflow d' \<or> source d' \<noteq> [] \<longrightarrow> tinf_bits d' + k \<le> tinf_bits d)"

lemma tinf_advances_refl [intro, simp]: "tinf_advances 0 d d"
  by (simp add: tinf_advances_def)

lemma tinf_advances_trans:
  "tinf_advances j d d1 \<Longrightarrow> tinf_advances k d1 d2 \<Longrightarrow> i \<le> j + k \<Longrightarrow> tinf_advances i d d2"
  by (auto simp: tinf_advances_def)

text \<open>What no bit reading changes: the output and the trees.\<close>

definition tinf_same_out :: "tinf_data \<Rightarrow> tinf_data \<Rightarrow> bool" where
  "tinf_same_out d d' \<longleftrightarrow> dest d' = dest d \<and> dest_size d' = dest_size d
     \<and> ltree d' = ltree d \<and> dtree d' = dtree d"

lemma tinf_same_out_refl [intro, simp]: "tinf_same_out d d"
  by (simp add: tinf_same_out_def)

lemma tinf_same_out_trans: "tinf_same_out d d1 \<Longrightarrow> tinf_same_out d1 d2 \<Longrightarrow> tinf_same_out d d2"
  by (simp add: tinf_same_out_def)

definition tinf_reads :: "nat \<Rightarrow> tinf_data \<Rightarrow> tinf_data \<Rightarrow> bool" where
  "tinf_reads k d d' \<longleftrightarrow> tinf_advances k d d' \<and> tinf_same_out d d'"

lemma tinf_reads_refl [intro, simp]: "tinf_reads 0 d d"
  by (simp add: tinf_reads_def)

lemma tinf_reads_trans:
  "tinf_reads j d d1 \<Longrightarrow> tinf_reads k d1 d2 \<Longrightarrow> i \<le> j + k \<Longrightarrow> tinf_reads i d d2"
  by (auto simp: tinf_reads_def intro: tinf_advances_trans tinf_same_out_trans)

lemma tinf_refill_loop_reads: "tinf_reads 0 d (tinf_refill_loop d num)"
proof (induction d num rule: tinf_refill_loop.induct)
  case (1 d num)
  show ?case
  proof (cases "bitcount d < num")
    case True
    show ?thesis
    proof (cases "source d")
      case Nil
      let ?d = "d\<lparr>overflow := True, bitcount := bitcount d + 8\<rparr>"
      have "tinf_reads 0 d ?d"
        using Nil by (simp add: tinf_reads_def tinf_advances_def tinf_same_out_def)
      then show ?thesis
        using True Nil "1.IH" by (subst tinf_refill_loop.simps) (auto intro: tinf_reads_trans)
    next
      case (Cons b bs)
      let ?d = "d\<lparr>tag := tag d OR push_bit (bitcount d) (ucast b), source := bs,
                   bitcount := bitcount d + 8\<rparr>"
      have "tinf_reads 0 d ?d"
        using Cons by (simp add: tinf_reads_def tinf_advances_def tinf_same_out_def tinf_bits_def)
      then show ?thesis
        using True Cons "1.IH" by (subst tinf_refill_loop.simps) (auto intro: tinf_reads_trans)
    qed
  qed (simp add: tinf_refill_loop.simps)
qed

lemma tinf_getbits_reads: "tinf_getbits d num = Some (b, d') \<Longrightarrow> tinf_reads num d d'"
proof -
  assume "tinf_getbits d num = Some (b, d')"
  then obtain d1 where d1: "d1 = tinf_refill_loop d num" "num \<le> bitcount d1"
      and d': "d' = d1\<lparr>tag := drop_bit num (tag d1), bitcount := bitcount d1 - num\<rparr>"
    by (auto simp: tinf_getbits_def tinf_refill_def tinf_getbits_no_refill_def bind_eq_Some_conv
        Let_def)
  have "tinf_reads num d1 d'"
    using d1(2) d' by (simp add: tinf_reads_def tinf_advances_def tinf_same_out_def tinf_bits_def)
  then show ?thesis
    using tinf_refill_loop_reads [of d num] d1(1) by (auto intro: tinf_reads_trans)
qed

lemma tinf_getbits_base_reads:
  "tinf_getbits_base d num base = Some (n, d') \<Longrightarrow> tinf_reads num d d'"
  by (auto simp: tinf_getbits_base_def bind_eq_Some_conv split: if_splits
      dest: tinf_getbits_reads)

lemma tinf_decode_loop_reads:
  "tinf_decode_loop d t len base offs = Some (s, d') \<Longrightarrow> tinf_reads 1 d d'"
proof (induction d t len base offs arbitrary: s d' rule: tinf_decode_loop.induct)
  case (1 d t len base offs)
  from "1.prems" obtain b d1 c where
    g: "tinf_getbits d 1 = Some (b, d1)" and len: "len \<le> 15" and c: "at (counts t) len = Some c" and
    r: "(if 2 * offs + b < c
         then do { check (base + (2 * offs + b) < 288);
                   s \<leftarrow> at (symbols t) (base + (2 * offs + b)); Some (s, d1) }
         else tinf_decode_loop d1 t (len + 1) (base + c) (2 * offs + b - c)) = Some (s, d')"
    by (subst (asm) tinf_decode_loop.simps)
      (auto simp: bind_eq_Some_conv Let_def split: if_splits)
  have rd: "tinf_reads 1 d d1" by (rule tinf_getbits_reads [OF g])
  show ?case
  proof (cases "2 * offs + b < c")
    case True
    with r rd show ?thesis by (auto simp: bind_eq_Some_conv)
  next
    case False
    with r have "tinf_reads 1 d1 d'"
      using "1.IH" [OF g refl _ c refl] len by simp
    with rd show ?thesis by (rule tinf_reads_trans) simp
  qed
qed

lemma tinf_decode_symbol_reads: "tinf_decode_symbol d t = Some (s, d') \<Longrightarrow> tinf_reads 1 d d'"
  unfolding tinf_decode_symbol_def by (rule tinf_decode_loop_reads)


lemma tinf_advances_dest [simp]: "tinf_advances k d (d'\<lparr>dest := x\<rparr>) = tinf_advances k d d'"
  by (simp add: tinf_advances_def tinf_bits_def)

lemma tinf_advances_ltree [simp]: "tinf_advances k d (d'\<lparr>ltree := x\<rparr>) = tinf_advances k d d'"
  by (simp add: tinf_advances_def tinf_bits_def)

lemma tinf_advances_dtree [simp]: "tinf_advances k d (d'\<lparr>dtree := x\<rparr>) = tinf_advances k d d'"
  by (simp add: tinf_advances_def tinf_bits_def)

lemma tinf_reads_advances: "tinf_reads k d d' \<Longrightarrow> tinf_advances k d d'"
  by (simp add: tinf_reads_def)

lemmas tinf_read_rules = tinf_getbits_reads [THEN tinf_reads_advances]
  tinf_getbits_base_reads [THEN tinf_reads_advances]
  tinf_decode_symbol_reads [THEN tinf_reads_advances]

lemma tinf_block_round_Inr:
  assumes "tinf_block_round d = Some (Inr d')"
  shows "tinf_advances 1 d d' \<and> \<not> overflow d"
proof -
  from assms obtain smb d1 where d1: "tinf_decode_symbol d (ltree d) = Some (smb, d1)"
    and nov: "\<not> overflow d1"
    by (auto simp: tinf_block_round_def bind_eq_Some_conv split: if_splits)
  have a1: "tinf_advances 1 d d1" using d1 by (rule tinf_read_rules)
  have "tinf_advances 0 d1 d'"
    using assms d1 nov
    by (auto simp: tinf_block_round_def bind_eq_Some_conv split: if_splits
        dest!: tinf_read_rules intro: tinf_advances_trans)
  with a1 nov show ?thesis by (auto intro: tinf_advances_trans simp: tinf_advances_def)
qed

lemma tinf_block_round_Inl_OK:
  "tinf_block_round d = Some (Inl (TINF_OK, d')) \<Longrightarrow> tinf_advances 1 d d' \<and> \<not> overflow d'"
  by (auto simp: tinf_block_round_def bind_eq_Some_conv split: if_splits dest!: tinf_read_rules)

definition tinf_measure :: "tinf_data \<Rightarrow> nat" where
  "tinf_measure d = (if overflow d then 0 else 1 + tinf_bits d)"

lemma tinf_block_round_measure:
  "tinf_block_round d = Some (Inr d') \<Longrightarrow> tinf_measure d' < tinf_measure d"
  by (drule tinf_block_round_Inr) (auto simp: tinf_measure_def tinf_advances_def)

section \<open>The inflate loops\<close>

function tinf_inflate_block_data :: "tinf_data \<Rightarrow> (tinf_error_code \<times> tinf_data) option" where
  "tinf_inflate_block_data d = do {
     r \<leftarrow> tinf_block_round d;
     case r of Inl rd \<Rightarrow> Some rd | Inr d1 \<Rightarrow> tinf_inflate_block_data d1 }"
  by pat_completeness auto
termination
  by (relation "measure tinf_measure") (auto intro: tinf_block_round_measure)

declare tinf_inflate_block_data.simps [simp del]

definition tinf_inflate_uncompressed_block ::
  "tinf_data \<Rightarrow> (tinf_error_code \<times> tinf_data) option" where
  "tinf_inflate_uncompressed_block d =
     (if length (source d) < 4 then Some (TINF_DATA_ERROR, d)
      else do {
        len \<leftarrow> read_le16 (source d);
        invlength \<leftarrow> read_le16 (drop 2 (source d));
        if len \<noteq> NOT invlength AND 0x0000FFFF then Some (TINF_DATA_ERROR, d)
        else
          (let d1 = d\<lparr>source := drop 4 (source d)\<rparr> in
           if length (source d1) < unat len then Some (TINF_DATA_ERROR, d1)
           else if dest_size d1 - length (dest d1) < unat len then Some (TINF_BUF_ERROR, d1)
           else do {
             check (unat len \<le> length (source d1));
             Some (TINF_OK,
               d1\<lparr>dest := dest d1 @ take (unat len) (source d1), source := drop (unat len) (source d1), tag := 0, bitcount := 0\<rparr>) }) })"

definition tinf_inflate_fixed_block :: "tinf_data \<Rightarrow> (tinf_error_code \<times> tinf_data) option" where
  "tinf_inflate_fixed_block d =
     (case tinf_build_fixed_trees (ltree d) (dtree d) of
        (lt, dt) \<Rightarrow> tinf_inflate_block_data (d\<lparr>ltree := lt, dtree := dt\<rparr>))"

definition tinf_inflate_dynamic_block :: "tinf_data \<Rightarrow> (tinf_error_code \<times> tinf_data) option" where
  "tinf_inflate_dynamic_block d = do {
     (res, d1) \<leftarrow> tinf_decode_trees d;
     if res \<noteq> TINF_OK then Some (res, d1) else tinf_inflate_block_data d1 }"

definition tinf_inflate_block ::
  "nat \<Rightarrow> tinf_data \<Rightarrow> (tinf_error_code \<times> tinf_data) option" where
  "tinf_inflate_block btype d =
     (if btype = 0 then tinf_inflate_uncompressed_block d
      else if btype = 1 then tinf_inflate_fixed_block d
      else if btype = 2 then tinf_inflate_dynamic_block d
      else Some (TINF_DATA_ERROR, d))"

lemma tinf_inflate_block_data_OK:
  "tinf_inflate_block_data d = Some (TINF_OK, d') \<Longrightarrow> tinf_advances 1 d d' \<and> \<not> overflow d'"
proof (induction d rule: tinf_inflate_block_data.induct)
  case (1 d)
  then obtain r where r: "tinf_block_round d = Some r"
    and rest: "(case r of Inl rd \<Rightarrow> Some rd
                 | Inr d1 \<Rightarrow> tinf_inflate_block_data d1) = Some (TINF_OK, d')"
    unfolding tinf_inflate_block_data.simps [of d] by (auto simp: bind_eq_Some_conv)
  show ?case
  proof (cases r)
    case (Inl a)
    with r rest show ?thesis by (cases a) (auto dest: tinf_block_round_Inl_OK)
  next
    case (Inr d1)
    with "1.IH" [OF r Inr] rest have "tinf_advances 1 d1 d' \<and> \<not> overflow d'" by simp
    moreover have "tinf_advances 1 d d1" using tinf_block_round_Inr r Inr by blast
    ultimately show ?thesis by (auto intro: tinf_advances_trans)
  qed
qed

lemma tinf_read_clens_advances:
  "tinf_read_clens d ixs lengths = Some (ls, d') \<Longrightarrow> tinf_advances 0 d d'"
proof (induction d ixs lengths rule: tinf_read_clens.induct)
  case (2 d ix ixs lengths)
  then obtain clen d1 where g: "tinf_getbits d 3 = Some (clen, d1)"
    and "ix < length lengths" "tinf_read_clens d1 ixs (lengths[ix := clen]) = Some (ls, d')"
    by (auto simp: bind_eq_Some_conv)
  then have "tinf_advances 0 d1 d'" by (intro "2.IH") auto
  then show ?case using g by (auto intro: tinf_advances_trans tinf_read_rules)
qed simp

lemma tinf_clen_action_advances:
  "tinf_clen_action d smb ls = Some (Inr (s, n, d')) \<Longrightarrow> tinf_advances 0 d d'"
  by (auto simp: tinf_clen_action_def bind_eq_Some_conv split: if_splits
      dest!: tinf_read_rules intro: tinf_advances_trans)

lemma tinf_clen_action_Inl: "tinf_clen_action d smb ls = Some (Inl e) \<Longrightarrow> e = TINF_DATA_ERROR"
  by (auto simp: tinf_clen_action_def bind_eq_Some_conv split: if_splits)

text \<open>The loop rule of the code-length loop: what every round keeps holds at its end.\<close>

lemma tinf_code_lengths_rule:
  assumes step: "\<And>d ls smb d1 s n d2. P d ls \<Longrightarrow> length ls < ntot \<Longrightarrow>
      tinf_decode_symbol d lt = Some (smb, d1) \<Longrightarrow> \<not> max_sym lt < int smb \<Longrightarrow>
      tinf_clen_action d1 smb ls = Some (Inr (s, n, d2)) \<Longrightarrow> n \<le> ntot - length ls \<Longrightarrow>
      P d2 (ls @ replicate n s)"
    and "P d ls" and "tinf_code_lengths d lt ntot ls = Some (TINF_OK, ls', d')"
  shows "P d' ls' \<and> ntot \<le> length ls'"
  using assms(2,3)
proof (induction "ntot - length ls" arbitrary: d ls rule: less_induct)
  case less
  show ?case
  proof (cases "length ls < ntot")
    case True
    with less.prems(2) obtain smb d1 act where sm: "tinf_decode_symbol d lt = Some (smb, d1)"
      and ms: "\<not> max_sym lt < int smb" and act: "tinf_clen_action d1 smb ls = Some act"
      and rest: "(case act of Inl e \<Rightarrow> Some (e, ls, d1)
          | Inr (s, n, d2) \<Rightarrow>
              if n > ntot - length ls then Some (TINF_DATA_ERROR, ls, d2)
              else do { check (length ls + n \<le> LENGTHS_SIZE); tinf_code_lengths d2 lt ntot (ls @ replicate n s) })
            = Some (TINF_OK, ls', d')"
      unfolding tinf_code_lengths.simps [of d] by (auto simp: bind_eq_Some_conv split: if_splits)
    obtain s n d2 where x: "act = Inr (s, n, d2)"
      using act rest by (cases act) (auto dest: tinf_clen_action_Inl)
    with rest have n: "n \<le> ntot - length ls"
      and rec: "tinf_code_lengths d2 lt ntot (ls @ replicate n s) = Some (TINF_OK, ls', d')"
      by (auto split: if_splits elim!: bind_checkE)
    have "0 < n" using act x tinf_clen_action_pos by blast
    moreover have "P d2 (ls @ replicate n s)"
      using step less.prems(1) True sm ms act x n by blast
    ultimately show ?thesis
      using less.hyps [of "ls @ replicate n s" d2] True rec by simp
  next
    case False
    with less.prems show ?thesis unfolding tinf_code_lengths.simps [of d] by simp
  qed
qed

lemma tinf_code_lengths_advances:
  assumes "tinf_code_lengths d lt ntot ls = Some (TINF_OK, ls', d')"
  shows "tinf_advances 0 d d'"
proof -
  have "tinf_advances 0 d d' \<and> ntot \<le> length ls'"
    using _ _ assms
  proof (rule tinf_code_lengths_rule [where P = "\<lambda>x _. tinf_advances 0 d x"])
    fix e ls smb d1 s n d2
    assume "tinf_advances 0 d e" "tinf_decode_symbol e lt = Some (smb, d1)"
      "tinf_clen_action d1 smb ls = Some (Inr (s, n, d2))"
    note a = this
    from a(2) have "tinf_advances 1 e d1" by (rule tinf_read_rules)
    with a(1) have "tinf_advances 1 d d1" by (rule tinf_advances_trans) simp
    moreover from a(3) have "tinf_advances 0 d1 d2" by (rule tinf_clen_action_advances)
    ultimately show "tinf_advances 0 d d2" by (rule tinf_advances_trans) simp
  qed simp
  then show ?thesis by simp
qed

text \<open>Taking a run that ends with \<open>TINF_OK\<close> apart: no error return was taken.\<close>

lemma tinf_errE:
  "(if c then Some (TINF_DATA_ERROR, a) else m) = Some (TINF_OK, b) \<Longrightarrow>
    (\<not> c \<Longrightarrow> m = Some (TINF_OK, b) \<Longrightarrow> P) \<Longrightarrow> P"
  by (cases c) auto

lemma tinf_resE:
  "(if res \<noteq> TINF_OK then Some (res, a) else m) = Some (TINF_OK, b) \<Longrightarrow>
    (res = TINF_OK \<Longrightarrow> m = Some (TINF_OK, b) \<Longrightarrow> P) \<Longrightarrow> P"
  by (cases "res = TINF_OK") auto

lemmas tinf_okE = tinf_errE tinf_resE

lemma tinf_decode_trees_cases:
  assumes "tinf_decode_trees d = Some (TINF_OK, d')"
  obtains hlit d1 hdist d2 hclen d3 clens d4 lt lengths d6 lt1 dt1 where
    "tinf_getbits_base d 5 257 = Some (hlit, d1)"
    "tinf_getbits_base d1 5 1 = Some (hdist, d2)"
    "tinf_getbits_base d2 4 4 = Some (hclen, d3)"
    "tinf_read_clens d3 (take hclen clcidx) (replicate 19 0) = Some (clens, d4)"
    "tinf_code_lengths (d4\<lparr>ltree := lt\<rparr>) lt (hlit + hdist) [] = Some (TINF_OK, lengths, d6)"
    "tinf_build_tree (ltree d6) (take hlit lengths) = Some (TINF_OK, lt1)"
    "tinf_build_tree (dtree d6) (take hdist (drop hlit lengths)) = Some (TINF_OK, dt1)"
    "d' = d6\<lparr>ltree := lt1, dtree := dt1\<rparr>"
  using assms
  unfolding tinf_decode_trees_def Let_def
  by - (elim bind_elims tinf_okE, rule that; force)

lemma tinf_decode_trees_OK:
  assumes "tinf_decode_trees d = Some (TINF_OK, d')"
  shows "tinf_advances 14 d d'"
  using assms
proof (cases rule: tinf_decode_trees_cases)
  case (1 hlit d1 hdist d2 hclen d3 clens d4 lt lengths d6 lt1 dt1)
  have "tinf_advances 5 d d1" "tinf_advances 5 d1 d2" "tinf_advances 4 d2 d3"
    using 1(1,2,3) by (auto dest: tinf_read_rules(2))
  note a = this
  from a(1,2) have "tinf_advances 10 d d2" by (rule tinf_advances_trans) simp
  from this a(3) have "tinf_advances 14 d d3" by (rule tinf_advances_trans) simp
  moreover have "tinf_advances 0 d3 (d4\<lparr>ltree := lt\<rparr>)"
    using 1(4) by (simp add: tinf_read_clens_advances)
  ultimately have "tinf_advances 14 d (d4\<lparr>ltree := lt\<rparr>)" by (rule tinf_advances_trans) simp
  then have "tinf_advances 14 d d6"
    using tinf_code_lengths_advances [OF 1(5)] by (rule tinf_advances_trans) simp
  then show ?thesis using 1(8) by simp
qed

text \<open>
  A block that ends well has not run past the input, whatever its type, and the bits it used
  are gone.
\<close>

lemma tinf_advances_start [simp]:
  "tinf_advances k (d\<lparr>ltree := x, dtree := y\<rparr>) d' = tinf_advances k d d'"
  by (simp add: tinf_advances_def tinf_bits_def)

lemma tinf_inflate_block_OK:
  assumes "tinf_inflate_block btype d = Some (TINF_OK, d')"
  shows "(source d \<noteq> [] \<or> \<not> overflow d) \<and> tinf_bits d' \<le> tinf_bits d
    \<and> (overflow d' \<longrightarrow> overflow d)"
proof -
  have "?thesis" if "tinf_inflate_uncompressed_block d = Some (TINF_OK, d')"
    using that
    by (auto simp: tinf_inflate_uncompressed_block_def bind_eq_Some_conv Let_def tinf_bits_def
        split: if_splits)
  moreover have "?thesis" if "tinf_inflate_fixed_block d = Some (TINF_OK, d')"
    using that
    by (auto simp: tinf_inflate_fixed_block_def tinf_build_fixed_trees_def tinf_advances_def
        tinf_bits_def dest!: tinf_inflate_block_data_OK)
  moreover have "?thesis" if "tinf_inflate_dynamic_block d = Some (TINF_OK, d')"
    using that
    by (auto simp: tinf_inflate_dynamic_block_def bind_eq_Some_conv tinf_advances_def
        dest!: tinf_inflate_block_data_OK tinf_decode_trees_OK split: if_splits)
  ultimately show ?thesis using assms by (auto simp: tinf_inflate_block_def split: if_splits)
qed

function tinf_blocks :: "tinf_data \<Rightarrow> (tinf_error_code \<times> tinf_data) option" where
  "tinf_blocks d = do {
     (bfinal, d1) \<leftarrow> tinf_getbits d 1;
     (btype, d2) \<leftarrow> tinf_getbits d1 2;
     (res, d3) \<leftarrow> tinf_inflate_block btype d2;
     if res \<noteq> TINF_OK then Some (res, d3)
     else if bfinal \<noteq> 0 then Some (TINF_OK, d3)
     else tinf_blocks d3 }"
  by pat_completeness auto
termination
proof (relation "measure tinf_bits")
  fix d x bfinal d1 y btype d2 z res d3
  assume eqs: "tinf_getbits d 1 = Some x" "(bfinal, d1) = x" "tinf_getbits d1 2 = Some y"
    "(btype, d2) = y" "tinf_inflate_block btype d2 = Some z" "(res, d3) = z" "\<not> res \<noteq> TINF_OK"
  have "tinf_advances 1 d d1" "tinf_advances 2 d1 d2"
    using eqs by (auto intro: tinf_read_rules)
  then have "tinf_advances 3 d d2" by (rule tinf_advances_trans) simp
  moreover have "(source d2 \<noteq> [] \<or> \<not> overflow d2) \<and> tinf_bits d3 \<le> tinf_bits d2"
    using eqs tinf_inflate_block_OK by blast
  ultimately show "(d3, d) \<in> measure tinf_bits" by (auto simp: tinf_advances_def)
qed simp

declare tinf_blocks.simps [simp del]

section \<open>The entry point\<close>

text \<open>
  \<open>d0\<close> is what the stack variable \<open>struct tinf_data d\<close> holds before it is initialised: only
  its trees survive the assignments at the start. The result pairs the status with the
  bytes in \<open>dest\<close>; \<open>*destLen\<close> is set to their number when the status is \<open>TINF_OK\<close>.
\<close>

definition tinf_uncompress ::
  "tinf_data \<Rightarrow> nat \<Rightarrow> byte list \<Rightarrow> (tinf_error_code \<times> byte list) option" where
  "tinf_uncompress d0 destLen src = do {
     (res, d) \<leftarrow> tinf_blocks
        (d0\<lparr>source := src, tag := 0, bitcount := 0, overflow := False, dest := [],
            dest_size := destLen\<rparr>);
     if res \<noteq> TINF_OK then Some (res, dest d)
     else if overflow d then Some (TINF_DATA_ERROR, dest d)
     else Some (TINF_OK, dest d) }"

end
