(* ===== verification/Inflate_Safety.thy ===== *)
theory Inflate_Safety
  imports Inflate
begin

text \<open>
  Memory safety and totality of the inflater: \<open>tinf_uncompress\<close> never fails an assert and
  never reads or writes out of range, on any input. The heart is the invariant of the code
  tree: when \<open>tinf_build_tree\<close> accepts a set of code lengths, they fill the code space
  exactly, and then no sequence of bits leads the decoder past its 15 levels.
\<close>

section \<open>The bit reader\<close>

lemma tinf_refill_loop_enough: "num \<le> bitcount d \<Longrightarrow> tinf_refill_loop d num = d"
  by (subst tinf_refill_loop.simps) simp

lemma tinf_refill_loop_bitcount:
  "bitcount d < num \<Longrightarrow>
    num \<le> bitcount (tinf_refill_loop d num) \<and> bitcount (tinf_refill_loop d num) < num + 8"
proof (induction d num rule: tinf_refill_loop.induct)
  case (1 d num)
  obtain d' where d': "tinf_refill_loop d num = tinf_refill_loop d' num"
    "bitcount d' = bitcount d + 8"
    and IH: "bitcount d' < num \<Longrightarrow> num \<le> bitcount (tinf_refill_loop d' num)
      \<and> bitcount (tinf_refill_loop d' num) < num + 8"
  proof (cases "source d")
    case Nil
    with "1.prems" "1.IH" show ?thesis
      by (intro that [of "d\<lparr>overflow := True, bitcount := bitcount d + 8\<rparr>"])
        (simp_all add: tinf_refill_loop.simps [of d])
  next
    case (Cons b bs)
    with "1.prems" "1.IH" show ?thesis
      by (intro that [of "d\<lparr>tag := tag d OR push_bit (bitcount d) (ucast b), source := bs,
                     bitcount := bitcount d + 8\<rparr>"])
        (simp_all add: tinf_refill_loop.simps [of d])
  qed
  show ?case
  proof (cases "bitcount d' < num")
    case True
    with IH d' show ?thesis by simp
  next
    case False
    with d' "1.prems" show ?thesis by (simp add: tinf_refill_loop_enough)
  qed
qed

lemma tinf_getbits_ok:
  assumes "bitcount d < 8" "num \<le> 24"
  obtains b d' where "tinf_getbits d num = Some (b, d')" "bitcount d' < 8" "b < 2 ^ num"
proof -
  let ?d = "tinf_refill_loop d num"
  have bc: "num \<le> bitcount ?d \<and> bitcount ?d < num + 8"
    using assms tinf_refill_loop_bitcount [of d num] tinf_refill_loop_enough [of num d]
    by (cases "bitcount d < num") auto
  have "tinf_getbits d num = Some (unat (tag ?d AND mask num),
          ?d\<lparr>tag := drop_bit num (tag ?d), bitcount := bitcount ?d - num\<rparr>)"
    using bc assms by (simp add: tinf_getbits_def tinf_refill_def tinf_getbits_no_refill_def Let_def)
  moreover have "unat (tag ?d AND mask num) < 2 ^ num"
    by (simp add: unsigned_take_bit_eq flip: take_bit_eq_mask)
  ultimately show thesis using that bc by fastforce
qed

lemma tinf_getbits_base_ok:
  assumes "bitcount d < 8" "num \<le> 24"
  obtains n d' where "tinf_getbits_base d num base = Some (n, d')" "bitcount d' < 8"
    "base \<le> n" "n < base + 2 ^ num"
proof (cases "num = 0")
  case True
  then show ?thesis using that assms by (simp add: tinf_getbits_base_def)
next
  case False
  obtain b d' where "tinf_getbits d num = Some (b, d')" "bitcount d' < 8" "b < 2 ^ num"
    using assms by (rule tinf_getbits_ok)
  then show ?thesis using that False by (simp add: tinf_getbits_base_def)
qed

section \<open>Complete codes\<close>

text \<open>
  \<open>kraft_full cs a\<close>: with \<open>a\<close> nodes on the current level, the codes of lengths \<open>cs\<close> use up
  the whole code space.
\<close>

fun kraft_full :: "nat list \<Rightarrow> nat \<Rightarrow> bool" where
  "kraft_full [] a \<longleftrightarrow> a = 0"
| "kraft_full (c # cs) a \<longleftrightarrow> c \<le> a \<and> kraft_full cs (2 * (a - c))"

definition tree_arrays :: "tinf_tree \<Rightarrow> bool" where
  "tree_arrays t \<longleftrightarrow> length (symbols t) = 288"

definition tree_ok :: "tinf_tree \<Rightarrow> bool" where
  "tree_ok t \<longleftrightarrow> tree_arrays t \<and> length (counts t) = 16 \<and>
     sum_list (tl (counts t)) \<le> 288 \<and> kraft_full (tl (counts t)) 2"

lemma tinf_decode_loop_ok:
  assumes "length (counts t) = 16" "length (symbols t) = 288"
    and "1 \<le> len" "len \<le> 16" "kraft_full (drop len (counts t)) (2 * a)" "offs < a"
    and "base + sum_list (drop len (counts t)) \<le> 288" "bitcount d < 8"
  shows "\<exists>s d'. tinf_decode_loop d t len base offs = Some (s, d') \<and> bitcount d' < 8"
  using assms(3-)
proof (induction "16 - len" arbitrary: len a offs base d)
  case 0
  then have "drop len (counts t) = []" using assms(1) by simp
  with 0 show ?case by simp
next
  case (Suc k)
  then have len: "len < 16" by simp
  define c where "c = counts t ! len"
  have dr: "drop len (counts t) = c # drop (Suc len) (counts t)"
    using len assms(1) by (simp add: c_def Cons_nth_drop_Suc)
  have kf: "c \<le> 2 * a" "kraft_full (drop (Suc len) (counts t)) (2 * (2 * a - c))"
    using Suc.prems(3) dr by simp_all
  obtain b d1 where g: "tinf_getbits d 1 = Some (b, d1)" "bitcount d1 < 8" "b < 2 ^ 1"
    using Suc.prems(6) by (rule tinf_getbits_ok [where num = 1]; simp)
  have o: "2 * offs + b < 2 * a" using Suc.prems(4) g(3) by simp
  have sum: "base + c + sum_list (drop (Suc len) (counts t)) \<le> 288"
    using Suc.prems(5) dr by simp
  have unf: "tinf_decode_loop d t len base offs =
    (if 2 * offs + b < c
     then do { check (base + (2 * offs + b) < 288); s \<leftarrow> at (symbols t) (base + (2 * offs + b));
               Some (s, d1) }
     else tinf_decode_loop d1 t (len + 1) (base + c) (2 * offs + b - c))"
    using len assms(1) g(1) by (subst tinf_decode_loop.simps) (simp add: c_def Let_def)
  show ?case
  proof (cases "2 * offs + b < c")
    case True
    with sum have "base + (2 * offs + b) < 288" by simp
    with True unf assms(2) g(2) show ?thesis by simp
  next
    case False
    have "\<exists>s d'. tinf_decode_loop d1 t (len + 1) (base + c) (2 * offs + b - c) = Some (s, d')
      \<and> bitcount d' < 8"
      using Suc.hyps(2) Suc.prems(1,2) len False o kf sum g(2)
      by (intro Suc.hyps(1) [of _ "2 * a - c"]) auto
    with False unf show ?thesis by simp
  qed
qed

lemma tinf_decode_symbol_ok:
  assumes "tree_ok t" "bitcount d < 8"
  obtains s d' where "tinf_decode_symbol d t = Some (s, d')" "bitcount d' < 8"
proof -
  have "\<exists>s d'. tinf_decode_loop d t 1 0 0 = Some (s, d') \<and> bitcount d' < 8"
    using assms by (intro tinf_decode_loop_ok [of t 1 1]) (auto simp: tree_ok_def tree_arrays_def drop_Suc)
  then show thesis using that by (auto simp: tinf_decode_symbol_def)
qed


section \<open>Building a tree\<close>

lemma tinf_count_lengths_ok:
  assumes "\<forall>l \<in> set ls. l \<le> 15" "length cnt = 16"
  shows "\<exists>cnt' ms'. tinf_count_lengths i ls cnt ms = Some (cnt', ms') \<and> length cnt' = 16
    \<and> (\<forall>l < 16. cnt' ! l = cnt ! l + (if l = 0 then 0 else count_list ls l))
    \<and> ((\<forall>l \<in> set ls. l = 0) \<longrightarrow> ms' = ms)
    \<and> ((\<exists>l \<in> set ls. l \<noteq> 0) \<longrightarrow> int i \<le> ms' \<and> ms' < int (i + length ls))"
  using assms
proof (induction ls arbitrary: i cnt ms)
  case (Cons l ls)
  show ?case
  proof (cases "l = 0")
    case True
    with Cons.IH [of cnt "Suc i" ms] Cons.prems show ?thesis by force
  next
    case False
    have len: "length (cnt[l := cnt ! l + 1]) = 16" using Cons.prems by simp
    obtain cnt' ms' where r:
      "tinf_count_lengths (Suc i) ls (cnt[l := cnt ! l + 1]) (int i) = Some (cnt', ms')"
      "length cnt' = 16"
      "\<And>k. k < 16 \<Longrightarrow> cnt' ! k = cnt[l := cnt ! l + 1] ! k + (if k = 0 then 0 else count_list ls k)"
      "(\<forall>l \<in> set ls. l = 0) \<longrightarrow> ms' = int i"
      "(\<exists>l \<in> set ls. l \<noteq> 0) \<longrightarrow> int (Suc i) \<le> ms' \<and> ms' < int (Suc i + length ls)"
      using Cons.IH [OF _ len, of "Suc i" "int i"] Cons.prems(1) by auto
    have "cnt' ! k = cnt ! k + (if k = 0 then 0 else count_list (l # ls) k)" if "k < 16" for k
      using r(3) [OF that] False that Cons.prems(2) by (cases "k = l") auto
    moreover have "int i \<le> ms' \<and> ms' < int (i + length (l # ls))"
      using r(4,5) by (cases "\<forall>l \<in> set ls. l = 0") auto
    ultimately show ?thesis
      using r(1,2) False Cons.prems(1) by auto
  qed
qed auto

lemma tinf_offsets_result:
  assumes "tinf_offsets cnt a n offs = Some (a', n', offs')"
  shows "n' = n + sum_list cnt \<and> (a' = 0 \<longrightarrow> kraft_full cnt a)
    \<and> offs' = offs @ map (\<lambda>i. n + sum_list (take i cnt)) [0..<length cnt]"
  using assms
proof (induction cnt arbitrary: a n offs)
  case (Cons used cnt)
  then have u: "used \<le> a"
    and rec: "tinf_offsets cnt (2 * (a - used)) (n + used) (offs @ [n]) = Some (a', n', offs')"
    by (auto split: if_splits)
  have "map (\<lambda>i. n + sum_list (take i (used # cnt))) [0..<length (used # cnt)]
      = n # map (\<lambda>i. n + used + sum_list (take i cnt)) [0..<length cnt]"
    by (simp add: upt_conv_Cons map_Suc_upt [symmetric] del: upt_Suc)
  then show ?case using Cons.IH [OF rec] u by simp
qed simp

lemma tinf_fill_symbols_ok:
  assumes "\<forall>l \<in> set ls. l \<le> 15" "length offs = 16"
    and "\<forall>l. 1 \<le> l \<and> l \<le> 15 \<longrightarrow> offs ! l + count_list ls l \<le> length syms"
  shows "\<exists>syms'. tinf_fill_symbols i ls offs syms = Some syms' \<and> length syms' = length syms"
  using assms
proof (induction ls arbitrary: i offs syms)
  case (Cons l ls)
  show ?case
  proof (cases "l = 0")
    case True
    have "\<exists>syms'. tinf_fill_symbols (Suc i) ls offs syms = Some syms' \<and> length syms' = length syms"
      using Cons.prems True by (intro Cons.IH) auto
    with True show ?thesis by simp
  next
    case False
    have l: "l \<le> 15" "offs ! l < length syms"
      using Cons.prems(1,3) False by (auto dest: spec [of _ l])
    have "\<exists>syms'. tinf_fill_symbols (Suc i) ls (offs[l := offs ! l + 1]) (syms[offs ! l := i]) = Some syms'
      \<and> length syms' = length (syms[offs ! l := i])"
    proof (rule Cons.IH)
      show "\<forall>k. 1 \<le> k \<and> k \<le> 15 \<longrightarrow>
          offs[l := offs ! l + 1] ! k + count_list ls k \<le> length (syms[offs ! l := i])"
      proof (intro allI impI)
        fix k :: nat assume k: "1 \<le> k \<and> k \<le> 15"
        then have "offs ! k + count_list (l # ls) k \<le> length syms" using Cons.prems(3) by blast
        with k l Cons.prems(2) show
          "offs[l := offs ! l + 1] ! k + count_list ls k \<le> length (syms[offs ! l := i])"
          by (cases "k = l") auto
      qed
    qed (use Cons.prems in auto)
    with False l Cons.prems(2) show ?thesis by simp
  qed
qed simp

lemma sum_list_16:
  assumes "length cnt = 16"
  shows "sum_list cnt = (\<Sum>l < 16. cnt ! l)"
  using assms by (simp add: sum_list_sum_nth atLeast0LessThan)

lemma sum_count_list_le: "(\<Sum>l < n. if l = 0 then 0 else count_list ls l) \<le> length (ls :: nat list)"
proof (induction ls)
  case (Cons x ls)
  have "(\<Sum>l < n. if l = 0 then 0 else count_list (x # ls) l)
      \<le> (\<Sum>l < n. (if l = 0 then 0 else count_list ls l) + (if l = x then 1 else 0))"
    by (rule sum_mono) auto
  also have "\<dots> = (\<Sum>l < n. if l = 0 then 0 else count_list ls l) + (\<Sum>l < n. if l = x then 1 else 0)"
    by (rule sum.distrib)
  also have "(\<Sum>l < n. if l = x then 1 else (0 :: nat)) \<le> 1"
    by (simp add: sum.delta)
  finally show ?case using Cons.IH by simp
qed (auto intro: sum.neutral)

lemma sum_take_nth_le:
  assumes "l < length cnt"
  shows "sum_list (take l cnt) + cnt ! l \<le> sum_list (cnt :: nat list)"
proof -
  have "sum_list cnt = sum_list (take l cnt) + sum_list (drop l cnt)"
    by (metis append_take_drop_id sum_list_append)
  moreover have "drop l cnt = cnt ! l # drop (Suc l) cnt" using assms by (simp add: Cons_nth_drop_Suc)
  ultimately show ?thesis by simp
qed

lemma kraft_full_single:
  assumes "length cnt = 16" "cnt ! 0 = 0" "cnt ! 1 = 1" "sum_list cnt = 1"
  shows "kraft_full (tl (cnt[1 := 2])) 2 \<and> sum_list (tl (cnt[1 := 2])) = 2"
proof -
  obtain rest where cnt: "cnt = 0 # 1 # rest" "length rest = 14"
    using assms(1-3) by (auto simp: numeral_eq_Suc length_Suc_conv)
  with assms(4) have "rest = replicate 14 0" by (auto simp: list_eq_iff_nth_eq dest!: nth_mem)
  with cnt show ?thesis by (simp add: numeral_eq_Suc)
qed


text \<open>What the counting loop leaves behind, as the rest of \<open>tinf_build_tree\<close> uses it.\<close>

definition counts_of :: "nat list \<Rightarrow> nat list \<Rightarrow> int \<Rightarrow> bool" where
  "counts_of ls cnt ms \<longleftrightarrow> length cnt = 16 \<and>
     (\<forall>l < 16. cnt ! l = (if l = 0 then 0 else count_list ls l)) \<and>
     ((\<forall>l \<in> set ls. l = 0) \<longrightarrow> ms = -1) \<and>
     ((\<exists>l \<in> set ls. l \<noteq> 0) \<longrightarrow> 0 \<le> ms \<and> ms < int (length ls))"

lemma counts_of_count_lengths:
  assumes "\<forall>l \<in> set ls. l \<le> 15"
  obtains cnt ms where "tinf_count_lengths 0 ls (replicate 16 0) (-1) = Some (cnt, ms)"
    "counts_of ls cnt ms"
  using tinf_count_lengths_ok [OF assms, of "replicate 16 0" 0 "-1"] by (auto simp: counts_of_def)

lemma counts_of_facts:
  assumes "counts_of ls cnt ms"
  shows "cnt = 0 # tl cnt" "sum_list cnt \<le> length ls" "ms < int (length ls)"
    "l \<in> set ls \<Longrightarrow> l \<noteq> 0 \<Longrightarrow> l \<le> 15 \<Longrightarrow> ms \<noteq> -1 \<and> 0 < sum_list cnt"
proof -
  have len: "length cnt = 16" and cnt: "\<And>l. l < 16 \<Longrightarrow> cnt ! l = (if l = 0 then 0 else count_list ls l)"
    using assms by (auto simp: counts_of_def)
  show "cnt = 0 # tl cnt" using len cnt [of 0] by (cases cnt) auto
  show "sum_list cnt \<le> length ls"
    using sum_count_list_le [where n = 16 and ls = ls] by (simp add: sum_list_16 [OF len] cnt)
  show "ms < int (length ls)"
    using assms by (cases "\<forall>l \<in> set ls. l = 0") (auto simp: counts_of_def)
  assume l: "l \<in> set ls" "l \<noteq> 0" "l \<le> 15"
  then have "count_list ls l \<noteq> 0" by (simp add: count_list_0_iff)
  with l have "0 < cnt ! l" by (simp add: cnt)
  then show "ms \<noteq> -1 \<and> 0 < sum_list cnt"
    using l len sum_take_nth_le [of l cnt] assms by (auto simp: counts_of_def)
qed

lemma tinf_symbols_fit:
  assumes "\<forall>l \<in> set ls. l \<le> 15" "length ls \<le> length syms" "counts_of ls cnt ms"
  shows "\<exists>syms'. tinf_fill_symbols i ls (map (\<lambda>i. sum_list (take i cnt)) [0..<16]) syms = Some syms'
    \<and> length syms' = length syms"
proof (rule tinf_fill_symbols_ok [OF assms(1)])
  show "\<forall>l. 1 \<le> l \<and> l \<le> 15 \<longrightarrow>
      map (\<lambda>i. sum_list (take i cnt)) [0..<16] ! l + count_list ls l \<le> length syms"
  proof (intro allI impI)
    fix l :: nat assume l: "1 \<le> l \<and> l \<le> 15"
    then have "sum_list (take l cnt) + count_list ls l \<le> sum_list cnt"
      using sum_take_nth_le [of l cnt] assms(3) by (simp add: counts_of_def)
    then show "map (\<lambda>i. sum_list (take i cnt)) [0..<16] ! l + count_list ls l \<le> length syms"
      using l counts_of_facts(2) [OF assms(3)] assms(2) by simp
  qed
qed simp

text \<open>The accepted lengths fill the code space, also after the single-code correction.\<close>

lemma counts_of_full:
  assumes "counts_of ls cnt ms" "length ls \<le> 288" "kraft_full cnt 1"
  shows "kraft_full (tl cnt) 2 \<and> sum_list (tl cnt) \<le> 288"
proof -
  have "kraft_full (0 # tl cnt) 1" "sum_list (0 # tl cnt) \<le> length ls"
    using assms(3) counts_of_facts [OF assms(1)] by metis+
  then show ?thesis using assms(2) by simp
qed

lemma counts_of_full_single:
  assumes "counts_of ls cnt ms" "sum_list cnt = 1" "cnt ! 1 = 1"
  shows "kraft_full (tl (cnt[1 := 2])) 2 \<and> sum_list (tl (cnt[1 := 2])) \<le> 288"
  using kraft_full_single [of cnt] assms by (auto simp: counts_of_def)

lemma tinf_build_tree_ok:
  assumes ls: "\<forall>l \<in> set ls. l \<le> 15" "length ls \<le> 288" and t: "tree_arrays t"
  obtains res t' where "tinf_build_tree t ls = Some (res, t')" "tree_arrays t'"
    "max_sym t' < int (length ls)"
    "res = TINF_OK \<Longrightarrow> max_sym t' \<noteq> -1 \<Longrightarrow> tree_ok t'"
    "\<And>l. l \<in> set ls \<Longrightarrow> l \<noteq> 0 \<Longrightarrow> max_sym t' \<noteq> -1"
proof -
  obtain cnt ms where cl: "tinf_count_lengths 0 ls (replicate 16 0) (-1) = Some (cnt, ms)"
    and co: "counts_of ls cnt ms" using ls(1) by (rule counts_of_count_lengths)
  have len: "length cnt = 16" using co by (simp add: counts_of_def)
  note ms = counts_of_facts(3,4) [OF co]
  let ?t = "t\<lparr>counts := cnt, max_sym := ms\<rparr>"
  obtain syms where fill: "tinf_fill_symbols 0 ls (map (\<lambda>i. sum_list (take i cnt)) [0..<16]) (symbols t)
      = Some syms" and syms: "length syms = 288"
    using tinf_symbols_fit [OF ls(1) _ co, of "symbols t" 0] ls(2) t by (auto simp: tree_arrays_def)
  show thesis
  proof (cases "tinf_offsets cnt 1 0 []")
    case None
    with that [of TINF_DATA_ERROR ?t] t ms ls cl show thesis
      by (fastforce simp: tree_arrays_def tinf_build_tree_def)
  next
    case (Some r)
    then obtain a where off: "tinf_offsets cnt 1 0 [] =
        Some (a, sum_list cnt, map (\<lambda>i. sum_list (take i cnt)) [0..<16])"
      and kf: "a = 0 \<longrightarrow> kraft_full cnt 1"
      using tinf_offsets_result [of cnt 1 0 "[]"] len by (cases r) fastforce
    define n where "n = sum_list cnt"
    consider (bad) "(n > 1 \<and> a > 0) \<or> (n = 1 \<and> cnt ! 1 \<noteq> 1)" | (one) "n = 1" "cnt ! 1 = 1"
      | (full) "n \<noteq> 1" "n > 1 \<longrightarrow> a = 0" by (metis gr0I)
    then show thesis
    proof cases
      case bad
      with that [of TINF_DATA_ERROR ?t] t ms ls cl off show thesis
        by (fastforce simp: tree_arrays_def tinf_build_tree_def n_def)
    next
      case one
      with that [of TINF_OK "?t\<lparr>counts := cnt[1 := 2], symbols := syms[1 := nat (ms + 1)]\<rparr>"]
        counts_of_full_single [OF co] ms ls cl off fill syms len show thesis
        by (fastforce simp: tree_arrays_def tree_ok_def tinf_build_tree_def n_def)
    next
      case full
      have "tree_ok (?t\<lparr>symbols := syms\<rparr>)" if "ms \<noteq> -1"
      proof -
        from that co obtain l where "l \<in> set ls" "l \<noteq> 0" by (auto simp: counts_of_def)
        with full ms(2) [of l] ls(1) have "a = 0" by (fastforce simp: n_def)
        with kf counts_of_full [OF co ls(2)] len syms show ?thesis
          by (simp add: tree_ok_def tree_arrays_def)
      qed
      with that [of TINF_OK "?t\<lparr>symbols := syms\<rparr>"] full ms ls cl off fill syms show thesis
        by (fastforce simp: tree_arrays_def tinf_build_tree_def n_def)
    qed
  qed
qed


lemma tinf_build_tree_ex:
  assumes "\<forall>l \<in> set ls. l \<le> 15" "length ls \<le> 288" "tree_arrays t"
  shows "\<exists>res t'. tinf_build_tree t ls = Some (res, t') \<and> tree_arrays t' \<and>
    max_sym t' < int (length ls) \<and> (res = TINF_OK \<longrightarrow> max_sym t' \<noteq> -1 \<longrightarrow> tree_ok t') \<and>
    (\<forall>l \<in> set ls. l \<noteq> 0 \<longrightarrow> max_sym t' \<noteq> -1)"
  using assms by (rule tinf_build_tree_ok) blast

section \<open>Dynamic trees\<close>

definition tinf_inv :: "tinf_data \<Rightarrow> bool" where
  "tinf_inv d \<longleftrightarrow> bitcount d < 8 \<and> tree_arrays (ltree d) \<and> tree_arrays (dtree d)
     \<and> length (dest d) \<le> dest_size d"

text \<open>Ready to decode a block: both trees usable, the distance tree possibly empty.\<close>

definition tinf_ready :: "tinf_data \<Rightarrow> bool" where
  "tinf_ready d \<longleftrightarrow> tinf_inv d \<and> tree_ok (ltree d)
     \<and> (max_sym (dtree d) \<noteq> -1 \<longrightarrow> tree_ok (dtree d))"

lemma tinf_reads_inv [inv_intros]:
  "tinf_reads k d d' \<Longrightarrow> bitcount d' < 8 \<Longrightarrow> tinf_inv d \<Longrightarrow> tinf_inv d'"
  by (simp add: tinf_reads_def tinf_same_out_def tinf_inv_def)

lemma tinf_reads_ready [inv_intros]:
  "tinf_reads k d d' \<Longrightarrow> bitcount d' < 8 \<Longrightarrow> tinf_ready d \<Longrightarrow> tinf_ready d'"
  by (simp add: tinf_reads_def tinf_same_out_def tinf_ready_def tinf_inv_def)

lemma tinf_getbits_inv:
  assumes "tinf_inv d" "num \<le> 24"
  obtains b d' where "tinf_getbits d num = Some (b, d')" "tinf_inv d'" "b < 2 ^ num"
proof -
  have "bitcount d < 8" using assms(1) by (simp add: tinf_inv_def)
  then obtain b d' where g: "tinf_getbits d num = Some (b, d')" "bitcount d' < 8" "b < 2 ^ num"
    using assms(2) by (rule tinf_getbits_ok)
  then show thesis using that tinf_reads_inv [OF tinf_getbits_reads] assms(1) by blast
qed

lemma tinf_getbits_base_inv:
  assumes "tinf_inv d" "num \<le> 24"
  obtains n d' where "tinf_getbits_base d num base = Some (n, d')" "tinf_inv d'"
    "base \<le> n" "n < base + 2 ^ num"
proof -
  have "bitcount d < 8" using assms(1) by (simp add: tinf_inv_def)
  then obtain n d' where g: "tinf_getbits_base d num base = Some (n, d')" "bitcount d' < 8"
    "base \<le> n" "n < base + 2 ^ num"
    using assms(2) by (rule tinf_getbits_base_ok)
  then show thesis using that tinf_reads_inv [OF tinf_getbits_base_reads] assms(1) by blast
qed

lemma tinf_getbits_base_ex:
  assumes "tinf_inv d" "num \<le> 24"
  shows "\<exists>n d'. tinf_getbits_base d num base = Some (n, d') \<and> tinf_inv d' \<and> base \<le> n
    \<and> n < base + 2 ^ num"
  using assms by (rule tinf_getbits_base_inv) blast

lemma tinf_decode_symbol_inv:
  assumes "tinf_inv d" "tree_ok t"
  obtains s d' where "tinf_decode_symbol d t = Some (s, d')" "tinf_inv d'"
proof -
  have "bitcount d < 8" using assms(1) by (simp add: tinf_inv_def)
  with assms(2) obtain s d' where "tinf_decode_symbol d t = Some (s, d')" "bitcount d' < 8"
    by (rule tinf_decode_symbol_ok)
  then show thesis using that tinf_reads_inv [OF tinf_decode_symbol_reads] assms(1) by blast
qed

lemma tinf_read_clens_ok:
  assumes "tinf_inv d" "\<forall>ix \<in> set ixs. ix < length ls" "\<forall>l \<in> set ls. l \<le> 15"
  shows "\<exists>ls' d'. tinf_read_clens d ixs ls = Some (ls', d') \<and> tinf_inv d'
    \<and> length ls' = length ls \<and> (\<forall>l \<in> set ls'. l \<le> 15)"
  using assms
proof (induction ixs arbitrary: d ls)
  case (Cons ix ixs)
  obtain clen d1 where g: "tinf_getbits d 3 = Some (clen, d1)" "tinf_inv d1" "clen < 2 ^ 3"
    using tinf_getbits_inv [OF Cons.prems(1), of 3] by auto
  have "\<exists>ls' d'. tinf_read_clens d1 ixs (ls[ix := clen]) = Some (ls', d') \<and> tinf_inv d'
    \<and> length ls' = length (ls[ix := clen]) \<and> (\<forall>l \<in> set ls'. l \<le> 15)"
  proof (rule Cons.IH)
    show "\<forall>l \<in> set (ls[ix := clen]). l \<le> 15"
      using Cons.prems(3) g(3) set_update_subset_insert [of ls ix clen] by auto
  qed (use Cons.prems g in auto)
  with g Cons.prems(2) show ?case by simp
qed simp

lemma tinf_clen_action_ok:
  assumes "tinf_inv d" "\<forall>l \<in> set ls. l \<le> 15" "smb \<le> 18"
  obtains act where "tinf_clen_action d smb ls = Some act"
    "\<And>s n d'. act = Inr (s, n, d') \<Longrightarrow> tinf_inv d' \<and> s \<le> 15"
proof -
  consider "smb = 16" "ls = []" | "smb = 16" "ls \<noteq> []" | "smb = 17" | "smb = 18" | "smb \<le> 15"
    using assms(3) by linarith
  then show thesis
  proof cases
    case 1 with that show thesis by (simp add: tinf_clen_action_def)
  next
    case 2
    obtain n d' where "tinf_getbits_base d 2 3 = Some (n, d')" "tinf_inv d'"
      using tinf_getbits_base_ex [OF assms(1), of 2 3] by auto
    moreover have "at ls (length ls - 1) = Some (last ls)" "last ls \<le> 15"
      using 2(2) assms(2) by (simp_all add: at_def last_conv_nth)
    ultimately show thesis using that 2 by (simp add: tinf_clen_action_def)
  next
    case 3
    obtain n d' where "tinf_getbits_base d 3 3 = Some (n, d')" "tinf_inv d'"
      using tinf_getbits_base_ex [OF assms(1), of 3 3] by auto
    with that 3 show thesis by (simp add: tinf_clen_action_def)
  next
    case 4
    obtain n d' where "tinf_getbits_base d 7 11 = Some (n, d')" "tinf_inv d'"
      using tinf_getbits_base_ex [OF assms(1), of 7 11] by auto
    with that 4 show thesis by (simp add: tinf_clen_action_def)
  next
    case 5
    with that assms(1) show thesis by (simp add: tinf_clen_action_def)
  qed
qed

lemma tinf_code_lengths_ok:
  assumes "tree_ok lt" "max_sym lt \<le> 18"
    and "ntot \<le> LENGTHS_SIZE" "tinf_inv d" "\<forall>l \<in> set ls. l \<le> 15" "length ls \<le> ntot"
  shows "\<exists>res ls' d'. tinf_code_lengths d lt ntot ls = Some (res, ls', d') \<and> tinf_inv d'
    \<and> (\<forall>l \<in> set ls'. l \<le> 15) \<and> (res = TINF_OK \<longrightarrow> length ls' = ntot)"
  using assms(4-)
proof (induction "ntot - length ls" arbitrary: d ls rule: less_induct)
  case less
  show ?case
  proof (cases "length ls < ntot")
    case True
    obtain smb d1 where sm: "tinf_decode_symbol d lt = Some (smb, d1)" "tinf_inv d1"
      using less.prems(1) assms(1) by (rule tinf_decode_symbol_inv)
    show ?thesis
    proof (cases "max_sym lt < int smb")
      case True
      with \<open>length ls < ntot\<close> sm less.prems show ?thesis by (simp add: tinf_code_lengths.simps [of d])
    next
      case False
      then have "smb \<le> 18" using assms(2) by simp
      with sm(2) less.prems(2) obtain act where act: "tinf_clen_action d1 smb ls = Some act"
        "\<And>s n d'. act = Inr (s, n, d') \<Longrightarrow> tinf_inv d' \<and> s \<le> 15"
        by (rule tinf_clen_action_ok) simp
      show ?thesis
      proof (cases act)
        case (Inl e)
        with True False sm act(1) less.prems show ?thesis
          using tinf_clen_action_Inl by (fastforce simp: tinf_code_lengths.simps [of d])
      next
        case (Inr x)
        obtain s n d2 where x: "x = (s, n, d2)" by (cases x)
        have s: "tinf_inv d2" "s \<le> 15" using act(2) Inr x by auto
        have n: "0 < n" using act(1) Inr x tinf_clen_action_pos by blast
        show ?thesis
        proof (cases "n > ntot - length ls")
          case nbig: True
          with True False sm act(1) Inr x less.prems s show ?thesis
            by (simp add: tinf_code_lengths.simps [of d])
        next
          case nfit: False
          have "\<exists>res ls' d'. tinf_code_lengths d2 lt ntot (ls @ replicate n s) = Some (res, ls', d')
            \<and> tinf_inv d' \<and> (\<forall>l \<in> set ls'. l \<le> 15) \<and> (res = TINF_OK \<longrightarrow> length ls' = ntot)"
            using n nfit True s less.prems by (intro less.hyps) auto
          moreover have "length ls + n \<le> LENGTHS_SIZE" using nfit True assms(3) by simp
          ultimately show ?thesis using nfit True False sm act(1) Inr x
            by (simp add: tinf_code_lengths.simps [of d])
        qed
      qed
    qed
  next
    case False
    with less.prems show ?thesis by (simp add: tinf_code_lengths.simps [of d])
  qed
qed


lemma tinf_inv_trees:
  "tinf_inv d \<Longrightarrow> tree_arrays t \<Longrightarrow> tinf_inv (d\<lparr>ltree := t\<rparr>)"
  "tinf_inv d \<Longrightarrow> tree_arrays t \<Longrightarrow> tinf_inv (d\<lparr>dtree := t\<rparr>)"
  by (simp_all add: tinf_inv_def)

text \<open>What a call yields: a defined result, and a state fit for what comes next.\<close>

definition tinf_yields ::
  "(tinf_error_code \<times> tinf_data) option \<Rightarrow> (tinf_data \<Rightarrow> bool) \<Rightarrow> bool" where
  "tinf_yields m Q \<longleftrightarrow>
     (\<exists>res d'. m = Some (res, d') \<and> tinf_inv d' \<and> (res = TINF_OK \<longrightarrow> Q d'))"

lemma tinf_yieldsI [intro]:
  "tinf_inv d' \<Longrightarrow> (res = TINF_OK \<Longrightarrow> Q d') \<Longrightarrow> tinf_yields (Some (res, d')) Q"
  by (simp add: tinf_yields_def)

text \<open>The second half of \<open>tinf_decode_trees\<close>, from the decoded lengths on.\<close>

lemma tinf_build_both_ok:
  assumes d: "tinf_inv d" and ls: "\<forall>l \<in> set ls. l \<le> 15" "length ls = hlit + hdist"
    and h: "257 \<le> hlit" "hlit \<le> 286" "hdist \<le> 30" and eob: "ls ! 256 \<noteq> 0"
  shows "tinf_yields (do {
      (res, lt) \<leftarrow> tinf_build_tree (ltree d) (take hlit ls);
      (let d7 = d\<lparr>ltree := lt\<rparr> in
       if res \<noteq> TINF_OK then Some (res, d7)
       else do {
         (res, dt) \<leftarrow> tinf_build_tree (dtree d7) (take hdist (drop hlit ls));
         Some (res, d7\<lparr>dtree := dt\<rparr>) }) }) tinf_ready"
proof -
  have le: "\<forall>l \<in> set (take hlit ls). l \<le> 15" "\<forall>l \<in> set (take hdist (drop hlit ls)). l \<le> 15"
    using ls(1) by (auto dest: in_set_takeD in_set_dropD)
  have mem: "ls ! 256 \<in> set (take hlit ls)"
    using ls(2) h by (auto simp: in_set_conv_nth intro!: exI [of _ 256])
  have arr: "tree_arrays (ltree d)" "tree_arrays (dtree d)" using d by (auto simp: tinf_inv_def)
  have "length (take hlit ls) \<le> 288" using h(2) by simp
  from tinf_build_tree_ex [OF le(1) this arr(1)] mem eob
  obtain res lt where lt: "tinf_build_tree (ltree d) (take hlit ls) = Some (res, lt)"
    "tree_arrays lt" "res = TINF_OK \<longrightarrow> max_sym lt \<noteq> -1 \<longrightarrow> tree_ok lt" "max_sym lt \<noteq> -1"
    by blast
  have "length (take hdist (drop hlit ls)) \<le> 288" using h(3) by simp
  from tinf_build_tree_ex [OF le(2) this arr(2)]
  obtain res' dt where dt: "tinf_build_tree (dtree d) (take hdist (drop hlit ls)) = Some (res', dt)"
    "tree_arrays dt" "res' = TINF_OK \<longrightarrow> max_sym dt \<noteq> -1 \<longrightarrow> tree_ok dt"
    by blast
  show ?thesis
    using d lt dt by (auto simp: tinf_yields_def tinf_ready_def Let_def tinf_inv_trees)
qed

lemma tinf_decode_trees_ok:
  assumes "tinf_inv d"
  shows "tinf_yields (tinf_decode_trees d) tinf_ready"
proof -
  obtain hlit d1 where g1: "tinf_getbits_base d 5 257 = Some (hlit, d1)" "tinf_inv d1" "257 \<le> hlit"
    using tinf_getbits_base_ex [OF assms, of 5 257] by auto
  obtain hdist d2 where g2: "tinf_getbits_base d1 5 1 = Some (hdist, d2)" "tinf_inv d2"
    using tinf_getbits_base_ex [OF g1(2), of 5 1] by auto
  obtain hclen d3 where g3: "tinf_getbits_base d2 4 4 = Some (hclen, d3)" "tinf_inv d3" "hclen < 20"
    using tinf_getbits_base_ex [OF g2(2), of 4 4] by auto
  show ?thesis
  proof (cases "hlit > 286 \<or> hdist > 30")
    case True
    with g1 g2 g3 show ?thesis by (auto simp: tinf_decode_trees_def)
  next
    case False
    have "\<forall>ix \<in> set (take hclen clcidx). ix < length (replicate 19 0 :: nat list)"
      by (auto dest!: in_set_takeD simp: clcidx_def)
    then obtain clens d4 where g4: "tinf_read_clens d3 (take hclen clcidx) (replicate 19 0)
        = Some (clens, d4)" "tinf_inv d4" "length clens = 19" "\<forall>l \<in> set clens. l \<le> 15"
      using tinf_read_clens_ok [OF g3(2), of "take hclen clcidx" "replicate 19 0"] by auto
    obtain res lt where lt: "tinf_build_tree (ltree d4) clens = Some (res, lt)" "tree_arrays lt"
      "max_sym lt < int (length clens)" "res = TINF_OK \<Longrightarrow> max_sym lt \<noteq> -1 \<Longrightarrow> tree_ok lt"
      using tinf_build_tree_ex [OF g4(4), of "ltree d4"] g4(2,3) by (auto simp: tinf_inv_def)
    have d5: "tinf_inv (d4\<lparr>ltree := lt\<rparr>)" using g4(2) lt(2) by (rule tinf_inv_trees)
    show ?thesis
    proof (cases "res = TINF_OK \<and> max_sym lt \<noteq> -1")
      case bad: False
      with g1 g2 g3 False g4 lt d5 show ?thesis
        by (auto simp: tinf_decode_trees_def Let_def)
    next
      case True
      obtain res2 ls d6 where cl: "tinf_code_lengths (d4\<lparr>ltree := lt\<rparr>) lt (hlit + hdist) []
          = Some (res2, ls, d6)" "tinf_inv d6" "\<forall>l \<in> set ls. l \<le> 15"
        "res2 = TINF_OK \<longrightarrow> length ls = hlit + hdist"
        using tinf_code_lengths_ok [OF lt(4) _ _ d5, of "hlit + hdist" "[]"] True lt(3) g4(3) False
        by (auto simp: LENGTHS_SIZE_def)
      consider "res2 \<noteq> TINF_OK" | "res2 = TINF_OK" "ls ! 256 = 0" | "res2 = TINF_OK" "ls ! 256 \<noteq> 0"
        by blast
      then show ?thesis
        using g1 g2 g3 False g4(1) lt(1) True cl tinf_build_both_ok [OF cl(2,3), of hlit hdist]
        by cases (auto simp: tinf_decode_trees_def Let_def intro: tinf_yieldsI)
    qed
  qed
qed


section \<open>Blocks\<close>

lemma tinf_copy_match_ok:
  assumes "0 < offs" "offs \<le> length out"
  shows "\<exists>out'. tinf_copy_match n offs out = Some out' \<and> length out' = length out + n"
  using assms
proof (induction n arbitrary: out)
  case (Suc n)
  then show ?case using Suc.IH [of "out @ [out ! (length out - offs)]"] by auto
qed simp

lemma length_tables:
  assumes "i \<le> 28"
  shows "\<exists>b. at length_bits i = Some b \<and> b \<le> 5" "\<exists>b. at length_base i = Some b"
proof -
  have "\<forall>b \<in> set (take 29 length_bits). b \<le> 5" by (simp add: length_bits_def)
  moreover have "length length_bits = 30" "length length_base = 30"
    by (simp_all add: length_bits_def length_base_def)
  ultimately show "\<exists>b. at length_bits i = Some b \<and> b \<le> 5" "\<exists>b. at length_base i = Some b"
    using assms nth_mem [of i "take 29 length_bits"] by auto
qed

lemma dist_tables:
  assumes "i \<le> 29"
  shows "\<exists>b. at dist_bits i = Some b \<and> b \<le> 13" "\<exists>b. at dist_base i = Some b \<and> 0 < b"
proof -
  have "\<forall>b \<in> set dist_bits. b \<le> 13" "\<forall>b \<in> set dist_base. 0 < b"
    by (simp_all add: dist_bits_def dist_base_def)
  moreover have "length dist_bits = 30" "length dist_base = 30"
    by (simp_all add: dist_bits_def dist_base_def)
  ultimately show "\<exists>b. at dist_bits i = Some b \<and> b \<le> 13" "\<exists>b. at dist_base i = Some b \<and> 0 < b"
    using assms by auto
qed

lemma tinf_ready_frame:
  assumes "tinf_ready d" "tinf_reads k d d'" "tinf_inv d'"
  shows "tinf_ready d'"
  using assms tinf_reads_ready by (auto simp: tinf_inv_def)

lemma tinf_ready_decode:
  assumes "tinf_ready d" "tree_ok t"
  shows "\<exists>s d'. tinf_decode_symbol d t = Some (s, d') \<and> tinf_ready d' \<and> dest d' = dest d
    \<and> dest_size d' = dest_size d"
proof -
  have "tinf_inv d" using assms by (simp add: tinf_ready_def)
  then obtain s d' where r: "tinf_decode_symbol d t = Some (s, d')" "tinf_inv d'"
    using assms(2) by (rule tinf_decode_symbol_inv)
  note rd = tinf_decode_symbol_reads [OF r(1)]
  show ?thesis
    using r rd tinf_ready_frame [OF assms(1) rd r(2)] by (auto simp: tinf_reads_def tinf_same_out_def)
qed

lemma tinf_ready_base:
  assumes "tinf_ready d" "num \<le> 24"
  shows "\<exists>n d'. tinf_getbits_base d num base = Some (n, d') \<and> tinf_ready d' \<and> dest d' = dest d
    \<and> dest_size d' = dest_size d \<and> base \<le> n"
proof -
  have "tinf_inv d" using assms by (simp add: tinf_ready_def)
  then obtain n d' where r: "tinf_getbits_base d num base = Some (n, d')" "tinf_inv d'" "base \<le> n"
    using assms(2) by (rule tinf_getbits_base_inv)
  note rd = tinf_getbits_base_reads [OF r(1)]
  show ?thesis
    using r rd tinf_ready_frame [OF assms(1) rd r(2)] by (auto simp: tinf_reads_def tinf_same_out_def)
qed

lemma tinf_ready_dest:
  "tinf_ready d \<Longrightarrow> length out \<le> dest_size d \<Longrightarrow> tinf_ready (d\<lparr>dest := out\<rparr>)"
  by (simp add: tinf_ready_def tinf_inv_def)

lemma tinf_ready_inv: "tinf_ready d \<Longrightarrow> tinf_inv d"
  by (simp add: tinf_ready_def)

definition round_ok :: "(tinf_error_code \<times> tinf_data + tinf_data) option \<Rightarrow> bool" where
  "round_ok m \<longleftrightarrow> (\<exists>r. m = Some r \<and>
     (case r of Inl (res, d') \<Rightarrow> tinf_inv d' | Inr d' \<Rightarrow> tinf_ready d'))"

lemma round_ok_simps [simp]:
  "round_ok (Some (Inl (res, d'))) \<longleftrightarrow> tinf_inv d'"
  "round_ok (Some (Inr d')) \<longleftrightarrow> tinf_ready d'"
  by (auto simp: round_ok_def)

text \<open>The match part of a round, once a length symbol has been accepted.\<close>

lemma tinf_match_ok:
  assumes "tinf_ready d" "smb - 257 \<le> 28" "max_sym (dtree d) \<noteq> -1"
  shows "round_ok (do {
       lbits \<leftarrow> at length_bits (smb - 257);
       lbase \<leftarrow> at length_base (smb - 257);
       (len, d2) \<leftarrow> tinf_getbits_base d lbits lbase;
       (dist, d3) \<leftarrow> tinf_decode_symbol d2 (dtree d2);
       if int dist > max_sym (dtree d3) \<or> dist > 29 then Some (Inl (TINF_DATA_ERROR, d3))
       else do {
         dbits \<leftarrow> at dist_bits dist;
         dbase \<leftarrow> at dist_base dist;
         (offs, d4) \<leftarrow> tinf_getbits_base d3 dbits dbase;
         if offs > length (dest d4) then Some (Inl (TINF_DATA_ERROR, d4))
         else if dest_size d4 - length (dest d4) < len then Some (Inl (TINF_BUF_ERROR, d4))
         else do {
           out \<leftarrow> tinf_copy_match len offs (dest d4);
           Some (Inr (d4\<lparr>dest := out\<rparr>)) } } })"
proof -
  obtain lbits lbase where l: "at length_bits (smb - 257) = Some lbits" "lbits \<le> 5"
    "at length_base (smb - 257) = Some lbase"
    using length_tables [OF assms(2)] by blast
  obtain len d2 where g2: "tinf_getbits_base d lbits lbase = Some (len, d2)" "tinf_ready d2"
    using tinf_ready_base [OF assms(1), of lbits lbase] l(2) by auto
  have "dtree d2 = dtree d"
    using tinf_getbits_base_reads [OF g2(1)] by (simp add: tinf_reads_def tinf_same_out_def)
  with g2(2) assms(3) have "tree_ok (dtree d2)" by (simp add: tinf_ready_def)
  then obtain dist d3 where g3: "tinf_decode_symbol d2 (dtree d2) = Some (dist, d3)" "tinf_ready d3"
    using tinf_ready_decode [OF g2(2)] by blast
  show ?thesis
  proof (cases "int dist > max_sym (dtree d3) \<or> dist > 29")
    case True
    with l g2 g3 show ?thesis by (simp add: tinf_ready_inv)
  next
    case False
    then have "dist \<le> 29" by simp
    then obtain dbits dbase where t: "at dist_bits dist = Some dbits" "dbits \<le> 13"
      "at dist_base dist = Some dbase" "0 < dbase"
      using dist_tables by blast
    obtain offs d4 where g4: "tinf_getbits_base d3 dbits dbase = Some (offs, d4)" "tinf_ready d4"
      "dbase \<le> offs"
      using tinf_ready_base [OF g3(2), of dbits dbase] t(2) by auto
    have room: "length (dest d4) \<le> dest_size d4" using g4(2) by (simp add: tinf_ready_def tinf_inv_def)
    have copy: "\<exists>out. tinf_copy_match len offs (dest d4) = Some out \<and> length out = length (dest d4) + len"
      if "offs \<le> length (dest d4)"
      using that t(4) g4(3) by (intro tinf_copy_match_ok) auto
    have fits: "tinf_ready (d4\<lparr>dest := out\<rparr>)"
      if "length out = length (dest d4) + len" "\<not> dest_size d4 - length (dest d4) < len" for out
      using g4(2) that room by (intro tinf_ready_dest) auto
    show ?thesis
      using l g2 g3 False t g4 copy fits by (auto simp: tinf_ready_inv)
  qed
qed

lemma tinf_block_round_ok:
  assumes "tinf_ready d"
  shows "round_ok (tinf_block_round d)"
proof -
  have "tree_ok (ltree d)" using assms by (simp add: tinf_ready_def)
  then obtain smb d1 where g1: "tinf_decode_symbol d (ltree d) = Some (smb, d1)" "tinf_ready d1"
    using tinf_ready_decode [OF assms] by blast
  have room: "length (dest d1) \<le> dest_size d1" using g1(2) by (simp add: tinf_ready_def tinf_inv_def)
  have lit: "tinf_ready (d1\<lparr>dest := dest d1 @ [x]\<rparr>)" if "length (dest d1) \<noteq> dest_size d1" for x
    using that room g1(2) by (intro tinf_ready_dest) auto
  note mtch = tinf_match_ok [OF g1(2), of smb]
  show ?thesis
    using g1 lit mtch by (simp add: tinf_block_round_def tinf_ready_inv)
qed


section \<open>The whole inflater\<close>

lemma tinf_inflate_block_data_ok:
  "tinf_ready d \<Longrightarrow> tinf_yields (tinf_inflate_block_data d) tinf_inv"
proof (induction d rule: tinf_inflate_block_data.induct)
  case (1 d)
  obtain r where r: "tinf_block_round d = Some r"
    and post: "case r of Inl (res, d') \<Rightarrow> tinf_inv d' | Inr d' \<Rightarrow> tinf_ready d'"
    using tinf_block_round_ok [OF "1.prems"] by (auto simp: round_ok_def)
  show ?case
  proof (cases r)
    case (Inl a)
    with r post show ?thesis
      unfolding tinf_inflate_block_data.simps [of d] by (cases a) auto
  next
    case (Inr d1)
    with "1.IH" [OF r Inr] r post show ?thesis
      unfolding tinf_inflate_block_data.simps [of d] by simp
  qed
qed

lemma tinf_fixed_ready:
  assumes "tinf_inv d"
  shows "tinf_ready (d\<lparr>ltree := fst (tinf_build_fixed_trees (ltree d) (dtree d)),
                      dtree := snd (tinf_build_fixed_trees (ltree d) (dtree d))\<rparr>)"
  using assms
  by (simp add: tinf_build_fixed_trees_def tinf_ready_def tinf_inv_def tree_ok_def tree_arrays_def
      numeral_eq_Suc)

lemma read_le16_ok: "2 \<le> length p \<Longrightarrow> \<exists>x. read_le16 p = Some x"
  by (cases p; cases "tl p") (auto simp: read_le16_def at_def)

lemma tinf_uncompressed_ok:
  assumes "tinf_inv d"
  shows "tinf_yields (tinf_inflate_uncompressed_block d) tinf_inv"
proof (cases "length (source d) < 4")
  case True
  with assms show ?thesis by (auto simp: tinf_inflate_uncompressed_block_def)
next
  case False
  then have "2 \<le> length (source d)" "2 \<le> length (drop 2 (source d))" by auto
  then obtain x y where "read_le16 (source d) = Some x" "read_le16 (drop 2 (source d)) = Some y"
    using read_le16_ok by blast
  with False assms show ?thesis
    by (auto simp: tinf_inflate_uncompressed_block_def tinf_yields_def tinf_inv_def Let_def)
qed

lemma tinf_inflate_block_ok:
  assumes "tinf_inv d"
  shows "tinf_yields (tinf_inflate_block btype d) tinf_inv"
proof -
  have "tinf_yields (tinf_inflate_fixed_block d) tinf_inv"
    using tinf_inflate_block_data_ok [OF tinf_fixed_ready [OF assms]]
    by (simp add: tinf_inflate_fixed_block_def split_beta)
  moreover have "tinf_yields (tinf_inflate_dynamic_block d) tinf_inv"
    using tinf_decode_trees_ok [OF assms]
    by (auto simp: tinf_inflate_dynamic_block_def tinf_yields_def
        dest: tinf_inflate_block_data_ok [unfolded tinf_yields_def])
  ultimately show ?thesis
    using assms tinf_uncompressed_ok by (auto simp: tinf_inflate_block_def)
qed

lemma tinf_blocks_ok: "tinf_inv d \<Longrightarrow> tinf_yields (tinf_blocks d) tinf_inv"
proof (induction d rule: tinf_blocks.induct)
  case (1 d)
  obtain bfinal d1 where g1: "tinf_getbits d 1 = Some (bfinal, d1)" "tinf_inv d1"
    using "1.prems" by (rule tinf_getbits_inv [where num = 1]; simp)
  obtain btype d2 where g2: "tinf_getbits d1 2 = Some (btype, d2)" "tinf_inv d2"
    using g1(2) by (rule tinf_getbits_inv [where num = 2]; simp)
  obtain res d3 where b: "tinf_inflate_block btype d2 = Some (res, d3)" "tinf_inv d3"
    using tinf_inflate_block_ok [OF g2(2), of btype] by (auto simp: tinf_yields_def)
  show ?case
  proof (cases "res = TINF_OK \<and> bfinal = 0")
    case True
    then have "tinf_yields (tinf_blocks d3) tinf_inv"
      using "1.IH" g1 g2 b by simp
    then show ?thesis unfolding tinf_blocks.simps [of d] using g1 g2 b True by simp
  next
    case False
    then show ?thesis unfolding tinf_blocks.simps [of d] using g1 g2 b by auto
  qed
qed

text \<open>The output only grows, whatever the status, and its limit stays.\<close>

definition tinf_extends :: "tinf_data \<Rightarrow> tinf_data \<Rightarrow> bool" where
  "tinf_extends d d' \<longleftrightarrow> dest_size d' = dest_size d \<and> prefix (dest d) (dest d')"

lemma tinf_extends_refl [simp, intro]: "tinf_extends d d"
  by (simp add: tinf_extends_def)

lemma tinf_extends_trans: "tinf_extends d d1 \<Longrightarrow> tinf_extends d1 d2 \<Longrightarrow> tinf_extends d d2"
  by (auto simp: tinf_extends_def)

lemma tinf_extends_upd [simp]:
  "tinf_extends d (d'\<lparr>ltree := t\<rparr>) = tinf_extends d d'"
  "tinf_extends d (d'\<lparr>dtree := t\<rparr>) = tinf_extends d d'"
  "tinf_extends (d\<lparr>ltree := t\<rparr>) d' = tinf_extends d d'"
  "tinf_extends (d\<lparr>dtree := t\<rparr>) d' = tinf_extends d d'"
  "tinf_extends d (d'\<lparr>source := t'\<rparr>) = tinf_extends d d'"
  by (simp_all add: tinf_extends_def)

lemma tinf_reads_extends: "tinf_reads k d d' \<Longrightarrow> tinf_extends d d'"
  by (simp add: tinf_reads_def tinf_same_out_def tinf_extends_def)

lemmas tinf_read_extends = tinf_getbits_reads [THEN tinf_reads_extends]
  tinf_getbits_base_reads [THEN tinf_reads_extends]
  tinf_decode_symbol_reads [THEN tinf_reads_extends]

lemma tinf_copy_match_prefix: "tinf_copy_match n offs out = Some out' \<Longrightarrow> prefix out out'"
proof (induction n offs out rule: tinf_copy_match.induct)
  case (2 n offs out)
  then obtain x where "tinf_copy_match n offs (out @ [x]) = Some out'"
    and "prefix (out @ [x]) out'"
    by (auto simp: bind_eq_Some_conv)
  then show ?case by (auto dest: append_prefixD)
qed simp

lemma tinf_block_round_extends:
  assumes "tinf_block_round d = Some r"
  shows "case r of Inl (res, d') \<Rightarrow> tinf_extends d d' | Inr d' \<Rightarrow> tinf_extends d d'"
proof -
  obtain smb d1 where s: "tinf_decode_symbol d (ltree d) = Some (smb, d1)"
    using assms by (auto simp: tinf_block_round_def bind_eq_Some_conv)
  have e: "tinf_extends d d1" using s by (rule tinf_read_extends)
  have "case r of Inl (res, d') \<Rightarrow> tinf_extends d1 d' | Inr d' \<Rightarrow> tinf_extends d1 d'"
    using assms s
    by (auto simp: tinf_block_round_def bind_eq_Some_conv tinf_extends_def split: if_splits
        dest!: tinf_read_extends tinf_copy_match_prefix)
  then show ?thesis using e by (auto split: sum.splits intro: tinf_extends_trans)
qed

lemma tinf_inflate_block_data_extends:
  "tinf_inflate_block_data d = Some (res, d') \<Longrightarrow> tinf_extends d d'"
proof (induction d rule: tinf_inflate_block_data.induct)
  case (1 d)
  then obtain r where r: "tinf_block_round d = Some r"
    and rest: "(case r of Inl rd \<Rightarrow> Some rd | Inr d1 \<Rightarrow> tinf_inflate_block_data d1) = Some (res, d')"
    unfolding tinf_inflate_block_data.simps [of d] by (auto simp: bind_eq_Some_conv)
  show ?case
    using tinf_block_round_extends [OF r] rest "1.IH" [OF r]
    by (cases r) (auto intro: tinf_extends_trans)
qed

lemma tinf_read_clens_extends:
  "tinf_read_clens d ixs ls = Some (ls', d') \<Longrightarrow> tinf_extends d d'"
proof (induction d ixs ls rule: tinf_read_clens.induct)
  case (2 d ix ixs ls)
  then obtain clen d1 where g: "tinf_getbits d 3 = Some (clen, d1)"
    and "ix < length ls" "tinf_read_clens d1 ixs (ls[ix := clen]) = Some (ls', d')"
    by (auto simp: bind_eq_Some_conv)
  then have "tinf_extends d1 d'" by (intro "2.IH") auto
  then show ?case using g by (auto intro: tinf_extends_trans tinf_read_extends)
qed simp

lemma tinf_clen_action_extends:
  "tinf_clen_action d smb ls = Some (Inr (s, n, d')) \<Longrightarrow> tinf_extends d d'"
  by (auto simp: tinf_clen_action_def bind_eq_Some_conv split: if_splits dest!: tinf_read_extends)

lemma tinf_code_lengths_extends:
  "tinf_code_lengths d lt ntot ls = Some (res, ls', d') \<Longrightarrow> tinf_extends d d'"
proof (induction "ntot - length ls" arbitrary: d ls rule: less_induct)
  case less
  show ?case
  proof (cases "length ls < ntot")
    case True
    with less.prems obtain smb d1 where sm: "tinf_decode_symbol d lt = Some (smb, d1)"
      and rest: "(if int smb > max_sym lt then Some (TINF_DATA_ERROR, ls, d1)
        else do {
          act \<leftarrow> tinf_clen_action d1 smb ls;
          case act of
            Inl e \<Rightarrow> Some (e, ls, d1)
          | Inr (s, n, d2) \<Rightarrow>
              if n > ntot - length ls then Some (TINF_DATA_ERROR, ls, d2)
              else do { check (length ls + n \<le> LENGTHS_SIZE); tinf_code_lengths d2 lt ntot (ls @ replicate n s) } })
          = Some (res, ls', d')"
      unfolding tinf_code_lengths.simps [of d] by (auto elim!: bind_pairE)
    have e1: "tinf_extends d d1" using sm by (rule tinf_read_extends)
    have "tinf_extends d1 d'"
    proof (cases "int smb > max_sym lt")
      case True
      with rest show ?thesis by simp
    next
      case False
      with rest obtain act where act: "tinf_clen_action d1 smb ls = Some act"
        and go: "(case act of Inl e \<Rightarrow> Some (e, ls, d1)
          | Inr (s, n, d2) \<Rightarrow>
              if n > ntot - length ls then Some (TINF_DATA_ERROR, ls, d2)
              else do { check (length ls + n \<le> LENGTHS_SIZE); tinf_code_lengths d2 lt ntot (ls @ replicate n s) })
            = Some (res, ls', d')"
        by (auto simp: bind_eq_Some_conv)
      show ?thesis
      proof (cases act)
        case (Inl e)
        with go show ?thesis by simp
      next
        case (Inr x)
        obtain s n d2 where x: "x = (s, n, d2)" by (cases x)
        have "0 < n" "tinf_extends d1 d2"
          using act Inr x tinf_clen_action_pos tinf_clen_action_extends by blast+
        then show ?thesis
          using go Inr x less.hyps [of "ls @ replicate n s" d2] True
          by (auto split: if_splits elim!: bind_checkE intro: tinf_extends_trans)
      qed
    qed
    with e1 show ?thesis by (rule tinf_extends_trans)
  next
    case False
    with less.prems show ?thesis unfolding tinf_code_lengths.simps [of d] by simp
  qed
qed


lemma tinf_decode_trees_extends:
  assumes "tinf_decode_trees d = Some (res, d')"
  shows "tinf_extends d d'"
  using assms unfolding tinf_decode_trees_def Let_def
  by - (elim bind_elims if_SomeE;
        auto dest!: tinf_read_extends tinf_read_clens_extends tinf_code_lengths_extends;
        blast intro: tinf_extends_trans)

lemma tinf_inflate_block_extends:
  assumes "tinf_inflate_block btype d = Some (res, d')"
  shows "tinf_extends d d'"
proof -
  have "tinf_extends d d'" if "tinf_inflate_uncompressed_block d = Some (res, d')"
    using that
    by (auto simp: tinf_inflate_uncompressed_block_def bind_eq_Some_conv Let_def tinf_extends_def
        split: if_splits)
  moreover have "tinf_extends d d'" if "tinf_inflate_fixed_block d = Some (res, d')"
    using that
    by (auto simp: tinf_inflate_fixed_block_def tinf_build_fixed_trees_def
        dest!: tinf_inflate_block_data_extends)
  moreover have "tinf_extends d d'" if "tinf_inflate_dynamic_block d = Some (res, d')"
    using that
    by (auto simp: tinf_inflate_dynamic_block_def bind_eq_Some_conv split: if_splits
        dest!: tinf_inflate_block_data_extends tinf_decode_trees_extends
        intro: tinf_extends_trans)
  ultimately show ?thesis
    using assms by (auto simp: tinf_inflate_block_def split: if_splits)
qed

lemma tinf_blocks_extends: "tinf_blocks d = Some (res, d') \<Longrightarrow> tinf_extends d d'"
proof (induction d rule: tinf_blocks.induct)
  case (1 d)
  then obtain bfinal d1 btype d2 res3 d3 where g: "tinf_getbits d 1 = Some (bfinal, d1)"
    "tinf_getbits d1 2 = Some (btype, d2)" "tinf_inflate_block btype d2 = Some (res3, d3)"
    and rest: "(if res3 \<noteq> TINF_OK then Some (res3, d3)
     else if bfinal \<noteq> 0 then Some (TINF_OK, d3) else tinf_blocks d3) = Some (res, d')"
    unfolding tinf_blocks.simps [of d] by - (elim bind_elims; blast)
  have "tinf_extends d d1" "tinf_extends d1 d2" "tinf_extends d2 d3"
    using g by (blast intro: tinf_read_extends tinf_inflate_block_extends)+
  then have e3: "tinf_extends d d3" by (blast intro: tinf_extends_trans)
  show ?case
  proof (cases "res3 = TINF_OK \<and> bfinal = 0")
    case True
    then have "tinf_extends d3 d'" using "1.IH" g rest by simp
    with e3 show ?thesis by (rule tinf_extends_trans)
  next
    case False
    with rest e3 show ?thesis by (auto split: if_splits)
  qed
qed

text \<open>
  A C array has the size it is declared with, whatever it holds: this is all that is asked
  of the uninitialised state the inflater starts from.
\<close>

definition tinf_storage :: "tinf_data \<Rightarrow> bool" where
  "tinf_storage d0 \<longleftrightarrow> length (symbols (ltree d0)) = 288 \<and> length (symbols (dtree d0)) = 288"

lemma tinf_uncompress_ok:
  assumes "tinf_storage d0"
  shows "\<exists>res out. tinf_uncompress d0 destLen src = Some (res, out) \<and> length out \<le> destLen"
proof -
  let ?d = "d0\<lparr>source := src, tag := 0, bitcount := 0, overflow := False, dest := [],
              dest_size := destLen\<rparr>"
  have "tinf_inv ?d" using assms by (simp add: tinf_inv_def tinf_storage_def tree_arrays_def)
  from tinf_blocks_ok [OF this]
  obtain res d where b: "tinf_blocks ?d = Some (res, d)" "tinf_inv d"
    by (auto simp: tinf_yields_def)
  have "dest_size d = destLen" using tinf_blocks_extends [OF b(1)] by (simp add: tinf_extends_def)
  then show ?thesis
    using b by (auto simp: tinf_uncompress_def tinf_inv_def)
qed

end
