(* ===== verification/Inflate_Stream.thy ===== *)
theory Inflate_Stream
  imports Inflate_Safety
begin

text \<open>
  What the inflater computes, in terms of the sequence of bits of its input: the bit reader
  as a source of bits, canonical Huffman codes as in RFC 1951, the match copy and stored
  blocks.
\<close>

section \<open>A source of bits\<close>

text \<open>
  The interface the decoders read through: \<open>get s n\<close> yields the next \<open>n\<close> bits, the first
  one least significant, and leaves the rest.
\<close>

locale bit_source =
  fixes get :: "'s \<Rightarrow> nat \<Rightarrow> (nat \<times> 's) option"
    and bits :: "'s \<Rightarrow> bool list"
    and good :: "'s \<Rightarrow> bool"
    and width :: nat
  assumes get_bits: "good s \<Longrightarrow> n \<le> width \<Longrightarrow> n \<le> length (bits s) \<Longrightarrow>
    \<exists>s'. get s n = Some (horner_sum of_bool 2 (take n (bits s)), s')
      \<and> bits s' = drop n (bits s) \<and> good s'"
begin

lemma get_length:
  assumes "good s" "n \<le> width" "n \<le> length (bits s)" "get s n = Some (v, s')"
  shows "length (bits s') + n = length (bits s)"
  using get_bits [OF assms(1-3)] assms(3,4) by auto

text \<open>Two reads hand out what one read would, low part first.\<close>

lemma get_get:
  assumes "good s" "m + n \<le> width" "m + n \<le> length (bits s)"
    and "get s m = Some (v, s1)" "get s1 n = Some (w, s2)" "get s (m + n) = Some (x, s3)"
  shows "x = v + 2 ^ m * w \<and> bits s2 = bits s3"
proof -
  have v: "v = horner_sum of_bool 2 (take m (bits s))" "bits s1 = drop m (bits s)" "good s1"
    using get_bits [of s m] assms by auto
  have w: "w = horner_sum of_bool 2 (take n (drop m (bits s)))" "bits s2 = drop n (drop m (bits s))"
    using get_bits [of s1 n] v assms by auto
  have x: "x = horner_sum of_bool 2 (take (m + n) (bits s))" "bits s3 = drop (m + n) (bits s)"
    using get_bits [of s "m + n"] assms by auto
  show ?thesis
    using v w x assms(3) by (simp add: take_add horner_sum_append add.commute)
qed

text \<open>The values depend on the bits only, not on how they are held.\<close>

lemma get_determined:
  assumes "good s" "good t" "bits s = bits t" "n \<le> width" "n \<le> length (bits s)"
    and "get s n = Some (v, s')" "get t n = Some (w, t')"
  shows "v = w \<and> bits s' = bits t'"
  using get_bits [of s n] get_bits [of t n] assms by auto

end

section \<open>The bit reader is one\<close>

definition byte_bits :: "byte \<Rightarrow> bool list" where
  "byte_bits b = map (bit b) [0..<8]"

definition tinf_stream :: "tinf_data \<Rightarrow> bool list" where
  "tinf_stream d = map (bit (tag d)) [0..<bitcount d] @ concat (map byte_bits (source d))"

text \<open>No stray bits above the ones that count.\<close>

definition tinf_clean :: "tinf_data \<Rightarrow> bool" where
  "tinf_clean d \<longleftrightarrow> bitcount d < 8 \<and> (\<forall>i \<ge> bitcount d. \<not> bit (tag d) i)"

lemma length_tinf_stream: "length (tinf_stream d) = tinf_bits d"
proof -
  have "length (concat (map byte_bits bs)) = 8 * length bs" for bs
    by (induction bs) (simp_all add: byte_bits_def)
  then show ?thesis by (simp add: tinf_stream_def tinf_bits_def)
qed

lemma tag_or_bits:
  assumes "\<forall>i \<ge> n. \<not> bit (w :: u32) i" "n + 8 \<le> 32"
  shows "map (bit (w OR push_bit n (ucast (b :: byte)))) [0..<n + 8] = map (bit w) [0..<n] @ byte_bits b"
proof -
  have "map (bit (w OR push_bit n (ucast b))) [0..<n] = map (bit w) [0..<n]"
    by (auto simp: bit_lemmas)
  moreover have "bit (w OR push_bit n (ucast b)) (n + i) = bit b i" if "i < 8" for i
    using that assms by (simp add: bit_lemmas)
  then have "map (bit (w OR push_bit n (ucast b))) [n..<n + 8] = byte_bits b"
    unfolding byte_bits_def by (intro nth_equalityI) simp_all
  ultimately show ?thesis using upt_add_eq_append [of 0 n 8] by simp
qed

lemma tinf_refill_loop_stream:
  assumes "num \<le> 24" "num \<le> tinf_bits d" "\<forall>i \<ge> bitcount d. \<not> bit (tag d) i"
  shows "tinf_stream (tinf_refill_loop d num) = tinf_stream d
    \<and> overflow (tinf_refill_loop d num) = overflow d
    \<and> (\<forall>i \<ge> bitcount (tinf_refill_loop d num). \<not> bit (tag (tinf_refill_loop d num)) i)"
  using assms
proof (induction d num rule: tinf_refill_loop.induct)
  case (1 d num)
  show ?case
  proof (cases "bitcount d < num")
    case True
    then obtain b bs where src: "source d = b # bs"
      using "1.prems"(2) by (cases "source d") (auto simp: tinf_bits_def)
    let ?d = "d\<lparr>tag := tag d OR push_bit (bitcount d) (ucast b), source := bs,
               bitcount := bitcount d + 8\<rparr>"
    have clean: "\<forall>i \<ge> bitcount ?d. \<not> bit (tag ?d) i"
      using "1.prems"(3) by (auto simp: bit_lemmas)
    have "bitcount d + 8 \<le> 32" using True "1.prems"(1) by simp
    then have "tinf_stream ?d = tinf_stream d"
      using tag_or_bits [OF "1.prems"(3)] src by (simp add: tinf_stream_def)
    moreover have "num \<le> tinf_bits ?d" using "1.prems"(2) src by (simp add: tinf_bits_def)
    ultimately show ?thesis
      using "1.IH"(2) [OF True src] "1.prems"(1) clean True src
      by (simp add: tinf_refill_loop.simps [of d])
  next
    case False
    with "1.prems" show ?thesis by (simp add: tinf_refill_loop_enough)
  qed
qed

lemma tinf_getbits_stream:
  assumes "tinf_clean d" "num \<le> 24" "num \<le> length (tinf_stream d)"
  shows "\<exists>d'. tinf_getbits d num = Some (horner_sum of_bool 2 (take num (tinf_stream d)), d')
    \<and> tinf_stream d' = drop num (tinf_stream d) \<and> tinf_clean d' \<and> overflow d' = overflow d"
proof -
  let ?r = "tinf_refill_loop d num"
  have cl: "bitcount d < 8" "\<forall>i \<ge> bitcount d. \<not> bit (tag d) i" using assms(1) by (auto simp: tinf_clean_def)
  obtain b d' where g: "tinf_getbits d num = Some (b, d')" "bitcount d' < 8"
    using cl(1) assms(2) by (rule tinf_getbits_ok)
  have r: "tinf_stream ?r = tinf_stream d" "overflow ?r = overflow d"
    "\<forall>i \<ge> bitcount ?r. \<not> bit (tag ?r) i"
    using tinf_refill_loop_stream [of num d] assms cl by (simp_all add: length_tinf_stream)
  from g(1) have num: "num \<le> bitcount ?r"
    and b: "b = unat (tag ?r AND mask num)"
    and d': "d' = ?r\<lparr>tag := drop_bit num (tag ?r), bitcount := bitcount ?r - num\<rparr>"
    by (auto simp: tinf_getbits_def tinf_refill_def tinf_getbits_no_refill_def Let_def
        bind_eq_Some_conv)
  have tk: "take num (tinf_stream d) = map (bit (tag ?r)) [0..<num]"
    using num unfolding r(1) [symmetric] by (simp add: tinf_stream_def take_map)
  have "b = take_bit num (unat (tag ?r))"
    unfolding b by (simp add: unsigned_take_bit_eq flip: take_bit_eq_mask)
  also have "\<dots> = horner_sum of_bool 2 (map (bit (unat (tag ?r))) [0..<num])"
    by (simp add: horner_sum_bit_eq_take_bit)
  also have "map (bit (unat (tag ?r))) [0..<num] = map (bit (tag ?r)) [0..<num]"
    by (simp add: bit_unsigned_iff)
  finally have val: "b = horner_sum of_bool 2 (take num (tinf_stream d))" by (simp add: tk)
  have "map (bit (drop_bit num (tag ?r))) [0..<bitcount ?r - num]
      = drop num (map (bit (tag ?r)) [0..<bitcount ?r])"
    by (rule nth_equalityI) (auto simp: bit_drop_bit_eq add.commute)
  then have "tinf_stream d' = drop num (tinf_stream ?r)"
    using num d' by (simp add: tinf_stream_def)
  moreover have "\<forall>i \<ge> bitcount d'. \<not> bit (tag d') i"
    using r(3) d' by (auto simp: bit_drop_bit_eq)
  ultimately show ?thesis
    using g val r d' by (auto simp: tinf_clean_def)
qed

interpretation reader: bit_source tinf_getbits tinf_stream tinf_clean 24
  by unfold_locales (use tinf_getbits_stream in blast)

end
