(* ===== verification/Inflate_Huffman.thy ===== *)
theory Inflate_Huffman
  imports Inflate_Stream
begin

text \<open>
  Canonical Huffman codes. The specification is RFC 1951, section 3.2.2: the codes of one
  length are consecutive numbers in the order of the symbols, and the first code of a length
  follows the last one of the length before. Proved: in a tree that \<open>tinf_build_tree\<close> has
  accepted, \<open>tinf_decode_symbol\<close> reads exactly the code of a symbol and returns the symbol.
\<close>

section \<open>The codes of RFC 1951\<close>

definition bl_count :: "nat list \<Rightarrow> nat list" where
  "bl_count ls = map (\<lambda>l. if l = 0 then 0 else count_list ls l) [0..<16]"

fun first_code :: "nat list \<Rightarrow> nat \<Rightarrow> nat" where
  "first_code cnt 0 = 0"
| "first_code cnt (Suc l) = 2 * (first_code cnt l + cnt ! l)"

definition code_rank :: "nat list \<Rightarrow> nat \<Rightarrow> nat" where
  "code_rank ls s = count_list (take s ls) (ls ! s)"

definition code_value :: "nat list \<Rightarrow> nat \<Rightarrow> nat" where
  "code_value ls s = first_code (bl_count ls) (ls ! s) + code_rank ls s"

text \<open>Codes are packed starting with their most significant bit.\<close>

definition code_bits :: "nat list \<Rightarrow> nat \<Rightarrow> bool list" where
  "code_bits ls s = map (bit (code_value ls s)) (rev [0..<ls ! s])"

lemma length_code_bits [simp]: "length (code_bits ls s) = ls ! s"
  by (simp add: code_bits_def)

lemma first_code_mono:
  "k < l \<Longrightarrow> (first_code cnt k + cnt ! k) * 2 ^ (l - k) \<le> first_code cnt l"
proof (induction l)
  case (Suc l)
  show ?case
  proof (cases "k = l")
    case True
    then show ?thesis by simp
  next
    case False
    with Suc have "(first_code cnt k + cnt ! k) * 2 ^ (l - k) \<le> first_code cnt l" by simp
    moreover have "Suc l - k = Suc (l - k)" using Suc.prems by simp
    ultimately show ?thesis by simp
  qed
qed simp

text \<open>The offset table succeeds only if the codes of every length fit in that length.\<close>

lemma tinf_offsets_drop:
  assumes "tinf_offsets cnt 1 0 [] = Some r" "l \<le> length cnt"
  shows "first_code cnt l \<le> 2 ^ l \<and>
    (\<exists>n offs. tinf_offsets (drop l cnt) (2 ^ l - first_code cnt l) n offs = Some r)"
  using assms(2)
proof (induction l)
  case 0
  then show ?case using assms(1) by auto
next
  case (Suc l)
  then obtain n offs where IH: "first_code cnt l \<le> 2 ^ l"
    "tinf_offsets (drop l cnt) (2 ^ l - first_code cnt l) n offs = Some r"
    by auto
  have "drop l cnt = cnt ! l # drop (Suc l) cnt" using Suc.prems by (simp add: Cons_nth_drop_Suc)
  with IH(2) have fits: "cnt ! l \<le> 2 ^ l - first_code cnt l"
    and rec: "tinf_offsets (drop (Suc l) cnt) (2 * (2 ^ l - first_code cnt l - cnt ! l))
      (n + cnt ! l) (offs @ [n]) = Some r"
    by (auto split: if_splits)
  have "2 * (2 ^ l - first_code cnt l - cnt ! l) = 2 ^ Suc l - first_code cnt (Suc l)" by simp
  with rec fits IH(1) show ?case by auto
qed

lemma tinf_offsets_fit:
  assumes "tinf_offsets cnt 1 0 [] = Some r" "l < length cnt"
  shows "first_code cnt l + cnt ! l \<le> 2 ^ l"
  using tinf_offsets_drop [OF assms(1), of "Suc l"] assms(2) by simp

section \<open>The sorted symbols\<close>

definition in_range :: "nat list \<Rightarrow> nat list \<Rightarrow> nat \<Rightarrow> bool" where
  "in_range offs ls p \<longleftrightarrow> (\<exists>l. 1 \<le> l \<and> l \<le> 15 \<and> offs ! l \<le> p \<and> p < offs ! l + count_list ls l)"

definition ranges_apart :: "nat list \<Rightarrow> nat list \<Rightarrow> bool" where
  "ranges_apart offs ls \<longleftrightarrow> (\<forall>l m. 1 \<le> l \<and> l < m \<and> m \<le> 15 \<longrightarrow>
     (\<forall>p. \<not> (offs ! l \<le> p \<and> p < offs ! l + count_list ls l \<and>
             offs ! m \<le> p \<and> p < offs ! m + count_list ls m)))"

lemma ranges_apartD:
  assumes "ranges_apart offs ls" "1 \<le> l" "l \<le> 15" "1 \<le> m" "m \<le> 15" "l \<noteq> m"
    and "offs ! l \<le> p" "p < offs ! l + count_list ls l" "offs ! m \<le> p" "p < offs ! m + count_list ls m"
  shows False
  using assms unfolding ranges_apart_def by (metis nat_neq_iff)

text \<open>One step of the fill loop narrows the range of its length from the left.\<close>

lemma fill_step_range:
  assumes "length offs = 16" "l \<le> 15" "1 \<le> m" "m \<le> 15"
    and "offs[l := offs ! l + 1] ! m \<le> p" "p < offs[l := offs ! l + 1] ! m + count_list ls m"
  shows "offs ! m \<le> p \<and> p < offs ! m + count_list (l # ls) m \<and> (m = l \<longrightarrow> p \<noteq> offs ! l)"
  using assms by (cases "m = l") auto

lemma fill_step_apart:
  assumes "length offs = 16" "l \<le> 15" "ranges_apart offs (l # ls)"
  shows "ranges_apart (offs[l := offs ! l + 1]) ls"
  unfolding ranges_apart_def
proof (intro allI impI notI)
  fix k m p
  assume k: "1 \<le> k \<and> k < m \<and> m \<le> 15"
    and p: "offs[l := offs ! l + 1] ! k \<le> p \<and> p < offs[l := offs ! l + 1] ! k + count_list ls k \<and>
      offs[l := offs ! l + 1] ! m \<le> p \<and> p < offs[l := offs ! l + 1] ! m + count_list ls m"
  show False
  proof (rule ranges_apartD [OF assms(3), of k m p])
    show "offs ! k \<le> p" "p < offs ! k + count_list (l # ls) k"
      using k p fill_step_range [OF assms(1,2), of k p ls] by simp_all
    show "offs ! m \<le> p" "p < offs ! m + count_list (l # ls) m"
      using k p fill_step_range [OF assms(1,2), of m p ls] by simp_all
  qed (use k in simp_all)
qed

lemma tinf_fill_untouched:
  assumes "tinf_fill_symbols i ls offs syms = Some syms'" "\<forall>l \<in> set ls. l \<le> 15"
    and "length offs = 16" "\<not> in_range offs ls p"
  shows "syms' ! p = syms ! p"
  using assms
proof (induction i ls offs syms rule: tinf_fill_symbols.induct)
  case (2 i l ls offs syms)
  show ?case
  proof (cases "l = 0")
    case True
    with 2 show ?thesis by (auto simp: in_range_def)
  next
    case False
    with "2.prems" have l: "l \<le> 15" "offs ! l < length syms"
      and rec: "tinf_fill_symbols (Suc i) ls (offs[l := offs ! l + 1]) (syms[offs ! l := i]) = Some syms'"
      by (auto simp: bind_eq_Some_conv at_Some_iff)
    have "p \<noteq> offs ! l"
      using "2.prems"(4) False l by (auto simp: in_range_def)
    moreover have "\<not> in_range (offs[l := offs ! l + 1]) ls p"
      using "2.prems"(3,4) l fill_step_range [of offs l _ p ls] unfolding in_range_def by blast
    then have "syms' ! p = syms[offs ! l := i] ! p"
      using "2.IH"(1) [OF False _ _ rec] "2.prems"(2,3) l by simp
    ultimately show ?thesis by simp
  qed
qed simp

lemma tinf_fill_sorted:
  assumes "tinf_fill_symbols i ls offs syms = Some syms'" "\<forall>l \<in> set ls. l \<le> 15"
    and "length offs = 16" "ranges_apart offs ls" "j < length ls" "ls ! j \<noteq> 0"
  shows "syms' ! (offs ! (ls ! j) + count_list (take j ls) (ls ! j)) = i + j"
  using assms
proof (induction i ls offs syms arbitrary: j rule: tinf_fill_symbols.induct)
  case (2 i l ls offs syms)
  show ?case
  proof (cases "l = 0")
    case True
    with "2.prems"(5,6) obtain k where j: "j = Suc k" by (cases j) auto
    have "ranges_apart offs ls" using "2.prems"(4) True by (auto simp: ranges_apart_def)
    with True "2.IH"(2) [of k] "2.prems" j show ?thesis by auto
  next
    case False
    with "2.prems" have l: "l \<le> 15" "offs ! l < length syms"
      and rec: "tinf_fill_symbols (Suc i) ls (offs[l := offs ! l + 1]) (syms[offs ! l := i]) = Some syms'"
      by (auto simp: bind_eq_Some_conv at_Some_iff)
    show ?thesis
    proof (cases j)
      case 0
      have "\<not> in_range (offs[l := offs ! l + 1]) ls (offs ! l)"
      proof
        assume "in_range (offs[l := offs ! l + 1]) ls (offs ! l)"
        then obtain m where m: "1 \<le> m" "m \<le> 15" "offs[l := offs ! l + 1] ! m \<le> offs ! l"
          "offs ! l < offs[l := offs ! l + 1] ! m + count_list ls m"
          unfolding in_range_def by blast
        from fill_step_range [OF "2.prems"(3) l(1) this]
        have m': "offs ! m \<le> offs ! l" "offs ! l < offs ! m + count_list (l # ls) m" "m \<noteq> l"
          by auto
        show False
          by (rule ranges_apartD [OF "2.prems"(4), of m l "offs ! l"])
            (use m m' l False in simp_all)
      qed
      then have "syms' ! (offs ! l) = i"
        using tinf_fill_untouched [OF rec] "2.prems"(2,3) l by simp
      with 0 show ?thesis by simp
    next
      case (Suc k)
      have "syms' ! (offs[l := offs ! l + 1] ! (ls ! k) + count_list (take k ls) (ls ! k)) = Suc i + k"
        using "2.IH"(1) [OF False, of "offs ! l" "()" k] l rec "2.prems" Suc fill_step_apart
        by simp
      moreover have "ls ! k \<le> 15" using "2.prems"(2,5) Suc by auto
      ultimately show ?thesis using Suc "2.prems"(3) by (cases "ls ! k = l") auto
    qed
  qed
qed simp

section \<open>The tree that is built\<close>

lemma counts_of_bl_count: "counts_of ls cnt ms \<Longrightarrow> cnt = bl_count ls"
  by (rule nth_equalityI) (auto simp: counts_of_def bl_count_def nth_append)

lemma length_bl_count [simp]: "length (bl_count ls) = 16"
  by (simp add: bl_count_def)

lemma bl_count_nth: "1 \<le> l \<Longrightarrow> l \<le> 15 \<Longrightarrow> bl_count ls ! l = count_list ls l"
  by (simp add: bl_count_def nth_append del: upt_Suc)

lemma sum_take_mono:
  assumes "l < m"
  shows "sum_list (take l cnt) + (if l < length cnt then cnt ! l else 0) \<le> sum_list (take m (cnt :: nat list))"
  using assms
proof (induction m)
  case (Suc m)
  have "sum_list (take m cnt) + (if m < length cnt then cnt ! m else 0) = sum_list (take (Suc m) cnt)"
    by (simp add: take_Suc_conv_app_nth)
  then show ?case using Suc by (cases "l = m") auto
qed simp

lemma offsets_apart: "ranges_apart (map (\<lambda>i. sum_list (take i (bl_count ls))) [0..<16]) ls"
  unfolding ranges_apart_def
proof (intro allI impI notI)
  fix l m p :: nat
  assume l: "1 \<le> l \<and> l < m \<and> m \<le> 15"
  let ?offs = "map (\<lambda>i. sum_list (take i (bl_count ls))) [0..<16]"
  assume "?offs ! l \<le> p \<and> p < ?offs ! l + count_list ls l \<and> ?offs ! m \<le> p \<and> p < ?offs ! m + count_list ls m"
  moreover have "?offs ! l + count_list ls l \<le> ?offs ! m"
    using sum_take_mono [of l m "bl_count ls"] l bl_count_nth [of l ls] by (simp del: upt_Suc)
  ultimately show False by linarith
qed

text \<open>The tree holds the symbols in the order of their codes.\<close>

definition tree_codes :: "tinf_tree \<Rightarrow> nat list \<Rightarrow> bool" where
  "tree_codes t ls \<longleftrightarrow> counts t = bl_count ls \<and> length (symbols t) = 288 \<and>
     tinf_offsets (bl_count ls) 1 0 [] \<noteq> None \<and>
     (\<forall>s < length ls. ls ! s \<noteq> 0 \<longrightarrow>
        symbols t ! (sum_list (take (ls ! s) (bl_count ls)) + code_rank ls s) = s)"

lemma tinf_build_tree_codes:
  assumes b: "tinf_build_tree t ls = Some (TINF_OK, t')" and ls: "\<forall>l \<in> set ls. l \<le> 15"
    and many: "1 < sum_list (bl_count ls)" and t: "length (symbols t') = 288"
  shows "tree_codes t' ls"
proof -
  obtain cnt ms where cl: "tinf_count_lengths 0 ls (replicate 16 0) (-1) = Some (cnt, ms)"
    "counts_of ls cnt ms"
    using ls by (rule counts_of_count_lengths)
  note cnt = counts_of_bl_count [OF cl(2)]
  obtain a n offs where o: "tinf_offsets (bl_count ls) 1 0 [] = Some (a, n, offs)"
    using b cl(1) cnt by (auto simp: tinf_build_tree_def bind_eq_Some_conv Let_def split: option.splits)
  have off: "n = sum_list (bl_count ls)" "offs = map (\<lambda>i. sum_list (take i (bl_count ls))) [0..<16]"
    using tinf_offsets_result [OF o] by (simp_all del: upt_Suc)
  obtain syms where f: "tinf_fill_symbols 0 ls offs (symbols t) = Some syms"
    and t': "counts t' = bl_count ls" "symbols t' = syms"
    using b cl(1) cnt o off(1) many
    by (auto simp: tinf_build_tree_def bind_eq_Some_conv Let_def split: if_splits)
  have "symbols t' ! (sum_list (take (ls ! s) (bl_count ls)) + code_rank ls s) = s"
    if "s < length ls" "ls ! s \<noteq> 0" for s
  proof -
    have "ls ! s \<le> 15" using ls that(1) by simp
    then have "length offs = 16" "ranges_apart offs ls"
      "offs ! (ls ! s) = sum_list (take (ls ! s) (bl_count ls))"
      using off(2) offsets_apart by (simp_all del: upt_Suc)
    then show ?thesis
      using tinf_fill_sorted [OF f ls _ _ that] t' by (simp add: code_rank_def)
  qed
  with o t' t show ?thesis by (auto simp: tree_codes_def)
qed

section \<open>Reading a code\<close>

lemma tinf_getbit_stream:
  assumes "tinf_clean d" "tinf_stream d = b # bs"
  shows "\<exists>d'. tinf_getbits d 1 = Some (of_bool b, d') \<and> tinf_stream d' = bs \<and> tinf_clean d'
    \<and> overflow d' = overflow d"
  using tinf_getbits_stream [OF assms(1), of 1] assms(2) by simp

lemma div_pow_step:
  "(v :: nat) div 2 ^ k = 2 * (v div 2 ^ Suc k) + of_bool (bit v k)"
proof -
  have "v div 2 ^ Suc k = v div 2 ^ k div 2" by (simp only: power_Suc2 div_mult2_eq)
  moreover have "of_bool (bit v k) = v div 2 ^ k mod 2" by (simp add: bit_iff_odd mod_2_eq_odd)
  ultimately show ?thesis by presburger
qed

text \<open>
  With \<open>len - 1\<close> bits of the code \<open>v\<close> read, \<open>offs\<close> is how far the bits read are past the
  codes of the lengths so far.
\<close>

lemma tinf_decode_loop_code:
  assumes "length (counts t) = 16" "L \<le> 15" "r < counts t ! L" "v = first_code (counts t) L + r"
    and "sum_list (take L (counts t)) + r < 288" "length (symbols t) = 288"
    and "len + k = L" "tinf_clean d" "tinf_stream d = map (bit v) (rev [0..<Suc k]) @ rest"
    and "2 * offs + first_code (counts t) len = 2 * (v div 2 ^ Suc k)"
    and "base = sum_list (take len (counts t))"
  shows "\<exists>d'. tinf_decode_loop d t len base offs
      = Some (symbols t ! (sum_list (take L (counts t)) + r), d')
    \<and> tinf_stream d' = rest \<and> tinf_clean d' \<and> overflow d' = overflow d"
  using assms(7-)
proof (induction k arbitrary: len d offs base)
  case (0 len d offs base)
  obtain d1 where g: "tinf_getbits d 1 = Some (of_bool (bit v 0), d1)" "tinf_stream d1 = rest"
    "tinf_clean d1" "overflow d1 = overflow d"
    using tinf_getbit_stream [OF 0(2), of "bit v 0" rest] 0(3) by auto
  have "2 * offs + of_bool (bit v 0) = r"
    using div_pow_step [of v 0] 0 assms(4) by simp
  with g 0 assms(1-6) show ?case
    by (subst tinf_decode_loop.simps) (simp add: Let_def at_def)
next
  case (Suc k len d offs base)
  have len: "len < L" using Suc.prems(1) by simp
  obtain d1 where g: "tinf_getbits d 1 = Some (of_bool (bit v (Suc k)), d1)"
    "tinf_stream d1 = map (bit v) (rev [0..<Suc k]) @ rest" "tinf_clean d1" "overflow d1 = overflow d"
    using tinf_getbit_stream [OF Suc.prems(2), of "bit v (Suc k)"] Suc.prems(3) by auto
  let ?o = "2 * offs + of_bool (bit v (Suc k)) :: nat"
  have o: "?o + first_code (counts t) len = v div 2 ^ Suc k"
    using div_pow_step [of v "Suc k"] Suc.prems(4) by linarith
  have "(first_code (counts t) len + counts t ! len) * 2 ^ Suc k \<le> v"
    using first_code_mono [OF len, of "counts t"] Suc.prems(1) assms(4) by (simp add: add.commute
        flip: Suc.prems(1))
  then have "first_code (counts t) len + counts t ! len \<le> v div 2 ^ Suc k"
    by (simp add: less_eq_div_iff_mult_less_eq)
  with o have ge: "counts t ! len \<le> ?o" by linarith
  have "\<exists>d'. tinf_decode_loop d1 t (len + 1) (base + counts t ! len) (?o - counts t ! len)
      = Some (symbols t ! (sum_list (take L (counts t)) + r), d')
    \<and> tinf_stream d' = rest \<and> tinf_clean d' \<and> overflow d' = overflow d1"
  proof (rule Suc.IH [OF _ g(3) g(2)])
    show "2 * (?o - counts t ! len) + first_code (counts t) (len + 1) = 2 * (v div 2 ^ Suc k)"
      using o ge by simp
    show "base + counts t ! len = sum_list (take (len + 1) (counts t))"
      using Suc.prems(5) len assms(1,2) by (simp add: take_Suc_conv_app_nth)
  qed (use Suc.prems(1) in simp)
  moreover have "tinf_decode_loop d t len base offs
    = tinf_decode_loop d1 t (len + 1) (base + counts t ! len) (?o - counts t ! len)"
    using g(1) ge len assms(1,2) by (subst tinf_decode_loop.simps) (simp add: Let_def at_def)
  ultimately show ?case using g(4) by simp
qed

lemma tinf_decode_code:
  assumes t: "tree_codes t' ls" and ls: "\<forall>l \<in> set ls. l \<le> 15" and many: "length ls \<le> 288"
    and s: "s < length ls" "ls ! s \<noteq> 0"
    and d: "tinf_clean d" "tinf_stream d = code_bits ls s @ rest"
  shows "\<exists>d'. tinf_decode_symbol d t' = Some (s, d') \<and> tinf_stream d' = rest \<and> tinf_clean d'
    \<and> overflow d' = overflow d"
proof -
  let ?cnt = "bl_count ls" and ?L = "ls ! s" and ?r = "code_rank ls s"
  let ?v = "first_code (bl_count ls) (ls ! s) + code_rank ls s"
  obtain r0 where cnt: "counts t' = ?cnt" and o: "tinf_offsets ?cnt 1 0 [] = Some r0"
    and smb: "symbols t' ! (sum_list (take ?L ?cnt) + ?r) = s" and len: "length (symbols t') = 288"
    using t s by (auto simp: tree_codes_def)
  have L: "?L \<le> 15" "1 \<le> ?L" using ls s by auto
  have "ls = take s ls @ ?L # drop (Suc s) ls" using s(1) by (simp add: Cons_nth_drop_Suc)
  then have "count_list ls ?L = count_list (take s ls @ ?L # drop (Suc s) ls) ?L" by simp
  then have r: "?r < ?cnt ! ?L"
    using bl_count_nth [of ?L ls] L unfolding code_rank_def count_list_append by simp
  have "?v < 2 ^ ?L" using tinf_offsets_fit [OF o, of ?L] L r by simp
  then have v: "?v div 2 ^ ?L = 0" by simp
  have "sum_list ?cnt \<le> length ls"
    using sum_count_list_le [where n = 16 and ls = ls] by (simp add: bl_count_def interv_sum_list_conv_sum_set_nat
        atLeast0LessThan del: upt_Suc)
  then have m: "sum_list (take ?L ?cnt) + ?r < 288"
    using sum_take_nth_le [of ?L ?cnt] L r many by simp
  obtain k where k: "?L = Suc k" using L by (cases ?L) auto
  have "\<exists>d'. tinf_decode_loop d t' 1 0 0 = Some (symbols t' ! (sum_list (take ?L (counts t')) + ?r), d')
    \<and> tinf_stream d' = rest \<and> tinf_clean d' \<and> overflow d' = overflow d"
  proof (rule tinf_decode_loop_code [where v = ?v and k = k])
    show "tinf_stream d = map (bit ?v) (rev [0..<Suc k]) @ rest"
      using d(2) k by (simp add: code_bits_def code_value_def)
    have z: "?cnt ! 0 = 0" by (simp add: bl_count_def upt_conv_Cons)
    show "2 * 0 + first_code (counts t') 1 = 2 * (?v div 2 ^ Suc k)"
      using v k z cnt by simp
    show "0 = sum_list (take 1 (counts t'))"
      using z cnt by (cases ?cnt) auto
  qed (use cnt L r len m d k in simp_all)
  with smb cnt show ?thesis by (simp add: tinf_decode_symbol_def)
qed

end
