(* ===== verification/Inflate_Spec.thy ===== *)
theory Inflate_Spec
  imports Inflate_Huffman
begin

text \<open>
  What the inflater promises: it runs on every input within its buffers, it decodes canonical
  Huffman codes, stored blocks and literals in the fixed code, and its match copy is the
  repetition of LZ77.
\<close>

section \<open>Literals in the fixed code\<close>

text \<open>The code lengths of RFC 1951, section 3.2.6.\<close>

definition fixed_lengths :: "nat list" where
  "fixed_lengths = replicate 144 8 @ replicate 112 9 @ replicate 24 7 @ replicate 8 8"

lemma count_list_replicate: "count_list (replicate n x) y = (if x = y then n else 0)"
  by (induction n) auto

lemma upt_16: "[0..<16] = [0, 1, 2, 3, 4, 5, 6, 7, 8, 9, 10, 11, 12, 13, 14, 15]"
  by code_simp

lemma fixed_bl_count: "bl_count fixed_lengths = [0, 0, 0, 0, 0, 0, 0, 24, 152, 112, 0, 0, 0, 0, 0, 0]"
  unfolding bl_count_def upt_16 by (simp add: fixed_lengths_def count_list_replicate)

lemma fixed_counts:
  "(replicate 16 0)[7 := 24, 8 := 152, 9 := 112] = [0, 0, 0, 0, 0, 0, 0, 24, 152, 112, 0, 0, 0, 0, 0, 0 :: nat]"
  by code_simp

lemma fixed_offsets:
  "sum_list (take 7 (bl_count fixed_lengths)) = 0" "sum_list (take 8 (bl_count fixed_lengths)) = 24"
  "sum_list (take 9 (bl_count fixed_lengths)) = 176"
  unfolding fixed_bl_count by simp_all

lemma fixed_tree_symbols:
  assumes "s < 288"
  shows "symbols (fst (tinf_build_fixed_trees lt dt)) !
      (sum_list (take (fixed_lengths ! s) (bl_count fixed_lengths)) + code_rank fixed_lengths s) = s"
proof -
  consider "s < 144" | "144 \<le> s" "s < 256" | "256 \<le> s" "s < 280" | "280 \<le> s" "s < 288"
    using assms by linarith
  then show ?thesis
  proof cases
    case 1
    then have "fixed_lengths ! s = 8" "code_rank fixed_lengths s = s"
      by (simp_all add: fixed_lengths_def code_rank_def nth_append count_list_replicate)
    with 1 show ?thesis
      by (simp add: fixed_offsets tinf_build_fixed_trees_def nth_append del: upt_rec_numeral)
  next
    case 2
    define k where "k = s - 144"
    with 2 have s: "s = 144 + k" "k < 112" by simp_all
    then have "fixed_lengths ! s = 9" "code_rank fixed_lengths s = k"
      by (simp_all add: fixed_lengths_def code_rank_def nth_append count_list_replicate)
    with s show ?thesis
      by (simp add: fixed_offsets tinf_build_fixed_trees_def nth_append del: upt_rec_numeral)
  next
    case 3
    define k where "k = s - 256"
    with 3 have s: "s = 256 + k" "k < 24" by simp_all
    then have "fixed_lengths ! s = 7" "code_rank fixed_lengths s = k"
      by (simp_all add: fixed_lengths_def code_rank_def nth_append count_list_replicate)
    with s show ?thesis
      by (simp add: fixed_offsets tinf_build_fixed_trees_def nth_append del: upt_rec_numeral)
  next
    case 4
    define k where "k = s - 280"
    with 4 have s: "s = 280 + k" "k < 8" by simp_all
    then have "fixed_lengths ! s = 8" "code_rank fixed_lengths s = 144 + k"
      by (simp_all add: fixed_lengths_def code_rank_def nth_append count_list_replicate)
    with s show ?thesis
      by (simp add: fixed_offsets tinf_build_fixed_trees_def nth_append del: upt_rec_numeral)
  qed
qed

lemma fixed_tree_codes: "tree_codes (fst (tinf_build_fixed_trees lt dt)) fixed_lengths"
  unfolding tree_codes_def
proof (intro conjI allI impI)
  show "tinf_offsets (bl_count fixed_lengths) 1 0 [] \<noteq> None"
    unfolding fixed_bl_count by simp
  fix s assume "s < length fixed_lengths"
  then have "s < 288" by (simp add: fixed_lengths_def)
  then show "symbols (fst (tinf_build_fixed_trees lt dt)) !
      (sum_list (take (fixed_lengths ! s) (bl_count fixed_lengths)) + code_rank fixed_lengths s) = s"
    by (rule fixed_tree_symbols)
qed (simp_all add: fixed_bl_count fixed_counts tinf_build_fixed_trees_def
    del: upt_rec_numeral)

lemma first_code_numeral:
  "first_code cnt (numeral k) = 2 * (first_code cnt (pred_numeral k) + cnt ! pred_numeral k)"
  by (simp add: numeral_eq_Suc)

text \<open>A reading state and what is left to read in it.\<close>

definition tinf_at :: "tinf_data \<Rightarrow> bool list \<Rightarrow> bool" where
  "tinf_at d bs \<longleftrightarrow> tinf_clean d \<and> tinf_stream d = bs \<and> \<not> overflow d"

lemma tinf_read_symbol:
  assumes "tree_codes t ls" "\<forall>l \<in> set ls. l \<le> 15" "length ls \<le> 288" "s < length ls" "ls ! s \<noteq> 0"
    and "tinf_at d (code_bits ls s @ rest)"
  shows "\<exists>d'. tinf_decode_symbol d t = Some (s, d') \<and> tinf_at d' rest \<and> tinf_same_out d d'"
proof -
  obtain d' where "tinf_decode_symbol d t = Some (s, d')" "tinf_at d' rest"
    using tinf_decode_code [OF assms(1-5), of d rest] assms(6) by (auto simp: tinf_at_def)
  moreover have "tinf_same_out d d'"
    using tinf_decode_symbol_reads [OF calculation(1)] by (simp add: tinf_reads_def)
  ultimately show ?thesis by blast
qed

lemma unat_byte_less: "unat (b :: byte) < 256"
proof -
  have "unat b < 2 ^ LENGTH(8)" by (rule unsigned_less)
  then show ?thesis by simp
qed

lemma tinf_block_literals:
  assumes "tree_codes (ltree d) ls" "\<forall>l \<in> set ls. l \<le> 15" "length ls \<le> 288"
    and "\<forall>s \<in> set (256 # map unat bs). s < length ls \<and> ls ! s \<noteq> 0"
    and "tinf_at d (concat (map (code_bits ls) (map unat bs @ [256])) @ rest)"
    and "length (dest d) + length bs \<le> dest_size d"
  shows "\<exists>d'. tinf_inflate_block_data d = Some (TINF_OK, d') \<and> dest d' = dest d @ bs \<and> tinf_at d' rest"
  using assms
proof (induction bs arbitrary: d)
  case Nil
  then obtain d' where "tinf_decode_symbol d (ltree d) = Some (256, d')" "tinf_at d' rest" "tinf_same_out d d'"
    using tinf_read_symbol [of "ltree d" ls 256 d rest] by auto
  then have "tinf_block_round d = Some (Inl (TINF_OK, d'))" "dest d' = dest d"
    by (simp_all add: tinf_block_round_def tinf_at_def tinf_same_out_def)
  with \<open>tinf_at d' rest\<close> show ?case by (simp add: tinf_inflate_block_data.simps [of d])
next
  case (Cons b bs)
  let ?rest = "concat (map (code_bits ls) (map unat bs @ [256])) @ rest"
  obtain d1 where d1: "tinf_decode_symbol d (ltree d) = Some (unat b, d1)" "tinf_at d1 ?rest" "tinf_same_out d d1"
    using tinf_read_symbol [of "ltree d" ls "unat b" d ?rest] Cons.prems by auto
  have b: "unat b < 256" by (rule unat_byte_less)
  let ?d = "d1\<lparr>dest := dest d1 @ [b]\<rparr>"
  have rd: "tinf_block_round d = Some (Inr ?d)"
    using d1 b Cons.prems(6) by (simp add: tinf_block_round_def tinf_at_def tinf_same_out_def)
  have at: "tinf_at ?d ?rest" using d1(2) by (simp add: tinf_at_def tinf_clean_def tinf_stream_def)
  have "\<exists>d'. tinf_inflate_block_data ?d = Some (TINF_OK, d') \<and> dest d' = dest ?d @ bs \<and> tinf_at d' rest"
    by (rule Cons.IH [OF _ _ _ _ at]) (use Cons.prems d1(3) in \<open>auto simp: tinf_same_out_def\<close>)
  then show ?case
    using rd d1(3) by (auto simp: tinf_inflate_block_data.simps [of d] tinf_same_out_def)
qed

section \<open>Stored blocks\<close>

definition le16 :: "u16 \<Rightarrow> byte list" where
  "le16 w = [ucast w, ucast (drop_bit 8 w)]"

text \<open>A stored block on a byte boundary: header, length, its complement, the bytes.\<close>

definition stored_block :: "bool \<Rightarrow> byte list \<Rightarrow> byte list" where
  "stored_block final bs =
     of_bool final # le16 (of_nat (length bs)) @ le16 (NOT (of_nat (length bs))) @ bs"

fun stored_blocks :: "byte list list \<Rightarrow> byte list" where
  "stored_blocks [] = stored_block True []"
| "stored_blocks (bs # bss) = stored_block False bs @ stored_blocks bss"

lemma read_le16_le16: "read_le16 (le16 w @ p) = Some (ucast w)"
  unfolding read_le16_def le16_def
  by (simp add: at_def) (rule bit_word_eqI; auto simp: bit_lemmas bit_simps dest: bit_imp_le_length)

lemma le16_complement: "(ucast (w :: u16) :: u32) = NOT (ucast (NOT w)) AND 0xFFFF"
proof -
  have "(ucast w :: u32) = take_bit 16 (NOT (ucast (NOT w)))"
    by (rule bit_word_eqI) (auto simp: bit_simps dest: bit_imp_le_length)
  then show ?thesis by (simp add: take_bit_eq_mask mask_eq_exp_minus_1)
qed

lemma unat_ucast_length: "n < 65536 \<Longrightarrow> unat (ucast (of_nat n :: u16) :: u32) = n"
  by (simp add: unsigned_ucast_eq unsigned_of_nat take_bit_nat_eq_self)

lemma tinf_uncompressed_stored:
  assumes "source d = le16 (of_nat (length bs)) @ le16 (NOT (of_nat (length bs))) @ bs @ rest"
    and "length bs < 65536" "length (dest d) + length bs \<le> dest_size d"
  shows "tinf_inflate_uncompressed_block d
    = Some (TINF_OK, d\<lparr>dest := dest d @ bs, source := rest, tag := 0, bitcount := 0\<rparr>)"
proof -
  have "drop 2 (source d) = le16 (NOT (of_nat (length bs))) @ bs @ rest"
    "drop 4 (source d) = bs @ rest" "\<not> length (source d) < 4"
    using assms(1) by (simp_all add: le16_def)
  moreover have "(ucast (of_nat (length bs) :: u16) :: u32)
      = NOT (ucast (NOT (of_nat (length bs) :: u16))) AND 0x0000FFFF"
    by (rule le16_complement)
  ultimately show ?thesis
    using assms read_le16_le16 [of "of_nat (length bs)"] read_le16_le16 [of "NOT (of_nat (length bs))"]
      unat_ucast_length [OF assms(2)]
    by (simp add: tinf_inflate_uncompressed_block_def Let_def del: of_nat_numeral)
qed

lemma tinf_stored_header:
  assumes "source d = of_bool final # p" "tag d = 0" "bitcount d = 0"
  shows "\<exists>d1. tinf_getbits d 1 = Some (of_bool final, d1)
    \<and> tinf_getbits d1 2 = Some (0, d\<lparr>source := p, tag := 0, bitcount := 5\<rparr>)"
proof -
  let ?d1 = "d\<lparr>source := p, tag := 0, bitcount := 7\<rparr>"
  have "tinf_refill_loop d 1 = d\<lparr>source := p, tag := of_bool final, bitcount := 8\<rparr>"
    using assms by (cases final) (simp_all add: tinf_refill_loop.simps [of d] tinf_refill_loop_enough)
  then have "tinf_getbits d 1 = Some (of_bool final, ?d1)"
    by (cases final) (simp_all add: tinf_getbits_def tinf_refill_def tinf_getbits_no_refill_def drop_bit_eq_div)
  moreover have "tinf_getbits ?d1 2 = Some (0, ?d1\<lparr>bitcount := 5\<rparr>)"
    by (simp add: tinf_getbits_def tinf_refill_def tinf_getbits_no_refill_def tinf_refill_loop_enough)
  ultimately show ?thesis by auto
qed

lemma tinf_blocks_stored_block:
  assumes "source d = stored_block final bs @ rest" "tag d = 0" "bitcount d = 0"
    and "length bs < 65536" "length (dest d) + length bs \<le> dest_size d"
  shows "tinf_blocks d = (let d1 = d\<lparr>dest := dest d @ bs, source := rest, tag := 0, bitcount := 0\<rparr>
    in if final then Some (TINF_OK, d1) else tinf_blocks d1)"
proof -
  let ?p = "le16 (of_nat (length bs)) @ le16 (NOT (of_nat (length bs))) @ bs @ rest"
  obtain d1 where "tinf_getbits d 1 = Some (of_bool final, d1)"
    "tinf_getbits d1 2 = Some (0, d\<lparr>source := ?p, tag := 0, bitcount := 5\<rparr>)"
    using tinf_stored_header [OF _ assms(2,3), of final ?p] assms(1) by (auto simp: stored_block_def)
  then show ?thesis
    using tinf_uncompressed_stored [of "d\<lparr>source := ?p, tag := 0, bitcount := 5\<rparr>" bs rest] assms(4,5)
    by (simp add: tinf_blocks.simps [of d] tinf_inflate_block_def Let_def)
qed

lemma tinf_blocks_stored:
  assumes "\<forall>bs \<in> set bss. length bs < 65536" "source d = stored_blocks bss @ rest" "tag d = 0" "bitcount d = 0"
    and "\<not> overflow d" "length (dest d) + length (concat bss) \<le> dest_size d"
  shows "\<exists>d'. tinf_blocks d = Some (TINF_OK, d') \<and> dest d' = dest d @ concat bss \<and> \<not> overflow d'"
  using assms
proof (induction bss arbitrary: d)
  case Nil
  then show ?case using tinf_blocks_stored_block [of d True "[]" rest] by (simp add: Let_def)
next
  case (Cons bs bss)
  let ?d = "d\<lparr>dest := dest d @ bs, source := stored_blocks bss @ rest, tag := 0, bitcount := 0\<rparr>"
  have "tinf_blocks d = tinf_blocks ?d"
    using tinf_blocks_stored_block [of d False bs "stored_blocks bss @ rest"] Cons.prems
    by (simp add: Let_def)
  moreover have "\<exists>d'. tinf_blocks ?d = Some (TINF_OK, d') \<and> dest d' = dest ?d @ concat bss \<and> \<not> overflow d'"
    by (rule Cons.IH) (use Cons.prems in simp_all)
  ultimately show ?case by simp
qed

section \<open>The match copy\<close>

lemma tinf_copy_match_nth:
  assumes "tinf_copy_match n offs out = Some out'" "0 < offs"
  shows "length out' = length out + n \<and> prefix out out'
    \<and> (\<forall>i < n. out' ! (length out + i) = out' ! (length out + i - offs))"
  using assms(1)
proof (induction n arbitrary: out)
  case (Suc n)
  then have o: "offs \<le> length out" and
    rec: "tinf_copy_match n offs (out @ [out ! (length out - offs)]) = Some out'"
    using assms(2) by (auto simp: bind_eq_Some_conv at_Some_iff)
  from Suc.IH [OF rec] have IH: "length out' = length out + 1 + n"
    "prefix (out @ [out ! (length out - offs)]) out'"
    "\<And>i. i < n \<Longrightarrow> out' ! (length out + 1 + i) = out' ! (length out + 1 + i - offs)" by auto
  then obtain zs where z: "out' = out @ out ! (length out - offs) # zs" by (auto simp: prefix_def)
  have "out' ! (length out + i) = out' ! (length out + i - offs)" if "i < Suc n" for i
  proof (cases i)
    case 0
    then show ?thesis using z o assms(2) by (simp add: nth_append)
  next
    case (Suc j)
    then show ?thesis using IH(3) [of j] that by simp
  qed
  then show ?case using z IH(1) by simp
qed auto

section \<open>Properties\<close>

definition tinf_tree0 :: tinf_tree where
  "tinf_tree0 = \<lparr>counts = replicate 16 0, symbols = replicate 288 0, max_sym = 0\<rparr>"

definition tinf_data0 :: "byte list \<Rightarrow> nat \<Rightarrow> tinf_data" where
  "tinf_data0 src n = \<lparr>source = src, tag = 0, bitcount = 0, overflow = False, dest = [], dest_size = n,
     ltree = tinf_tree0, dtree = tinf_tree0\<rparr>"

lemma tinf_storage0 [simp]: "tinf_storage (tinf_data0 src n)"
  by (simp add: tinf_storage_def tinf_data0_def tinf_tree0_def)

text \<open>
  C3. The inflater returns on every input: no loop runs on for ever, no assertion fails, no
  array is accessed out of its bounds, the one of the 320 code lengths included, and never more than \<open>destLen\<close> bytes are written.
\<close>

theorem tinf_uncompress_total:
  assumes "tinf_storage d0"
  shows "\<exists>res out. tinf_uncompress d0 destLen src = Some (res, out) \<and> length out \<le> destLen"
  using assms by (rule tinf_uncompress_ok)

theorem tinf_uncompress_total_witness:
  "\<exists>res out. tinf_uncompress (tinf_data0 [] 0) 4 [0x07, 0xFF] = Some (res, out) \<and> length out \<le> 4"
  by (rule tinf_uncompress_total) simp

text \<open>
  C4. In a tree that \<open>tinf_build_tree\<close> accepts for two or more codes, \<open>tinf_decode_symbol\<close>
  reads exactly the canonical code that RFC 1951 gives a symbol, and returns that symbol.
\<close>

theorem tinf_huffman_decode:
  assumes "tinf_build_tree t ls = Some (TINF_OK, t')" "length (symbols t) = 288" "\<forall>l \<in> set ls. l \<le> 15"
    and "1 < sum_list (bl_count ls)" "s < length ls" "ls ! s \<noteq> 0"
    and "tinf_clean d" "tinf_stream d = code_bits ls s @ rest"
  shows "\<exists>d'. tinf_decode_symbol d t' = Some (s, d') \<and> tinf_stream d' = rest \<and> overflow d' = overflow d"
proof -
  have ls: "length ls \<le> 288" using assms(1) by (auto simp: tinf_build_tree_def bind_eq_Some_conv)
  then have "length (symbols t') = 288"
    using tinf_build_tree_ex [of ls t] assms(1-3) by (auto simp: tree_arrays_def)
  then have "tree_codes t' ls" using tinf_build_tree_codes assms(1,3,4) by blast
  from tinf_decode_code [OF this assms(3) ls assms(5-8)] show ?thesis by auto
qed

theorem tinf_huffman_decode_witness:
  "\<exists>t' d'. tinf_build_tree tinf_tree0 [1, 2, 2] = Some (TINF_OK, t')
     \<and> tinf_decode_symbol (tinf_data0 [0x01] 0) t' = Some (1, d')"
proof -
  obtain t' where b: "tinf_build_tree tinf_tree0 [1, 2, 2] = Some (TINF_OK, t')"
    by (simp add: tinf_build_tree_def tinf_tree0_def numeral_eq_Suc Let_def at_def)
  have "\<exists>d'. tinf_decode_symbol (tinf_data0 [0x01] 0) t' = Some (1, d')
      \<and> tinf_stream d' = replicate 6 False \<and> overflow d' = overflow (tinf_data0 [0x01] 0)"
  proof (rule tinf_huffman_decode [OF b])
    show "1 < sum_list (bl_count [1, 2, 2])" by code_simp
    show "tinf_stream (tinf_data0 [0x01] 0) = code_bits [1, 2, 2] 1 @ replicate 6 False"
      by code_simp
  qed (simp_all add: tinf_tree0_def tinf_data0_def tinf_clean_def)
  with b show ?thesis by blast
qed

text \<open>
  C5. Bytes written as literals in the fixed code come back unchanged, up to and not beyond
  the end-of-block code.
\<close>

theorem tinf_fixed_literals:
  assumes "tinf_clean d" "\<not> overflow d" "length (dest d) + length bs \<le> dest_size d"
    and "tinf_stream d = concat (map (code_bits fixed_lengths) (map unat bs @ [256])) @ rest"
  shows "\<exists>d'. tinf_inflate_fixed_block d = Some (TINF_OK, d') \<and> dest d' = dest d @ bs
    \<and> tinf_stream d' = rest \<and> \<not> overflow d'"
proof -
  obtain lt dt where fx: "tinf_build_fixed_trees (ltree d) (dtree d) = (lt, dt)" by (rule prod.exhaust)
  let ?d = "d\<lparr>ltree := lt, dtree := dt\<rparr>"
  have "\<exists>d'. tinf_inflate_block_data ?d = Some (TINF_OK, d') \<and> dest d' = dest ?d @ bs \<and> tinf_at d' rest"
  proof (rule tinf_block_literals)
    show "tree_codes (ltree ?d) fixed_lengths" using fixed_tree_codes [of "ltree d" "dtree d"] fx by simp
    have "fixed_lengths ! s \<noteq> 0" if "s < 288" for s
      using that by (auto simp: fixed_lengths_def nth_append)
    moreover have "unat b < 288" for b :: byte using unat_byte_less [of b] by simp
    ultimately show "\<forall>s \<in> set (256 # map unat bs). s < length fixed_lengths \<and> fixed_lengths ! s \<noteq> 0"
      by (auto simp: fixed_lengths_def)
  qed (use assms in \<open>auto simp: fixed_lengths_def tinf_at_def tinf_clean_def tinf_stream_def\<close>)
  then show ?thesis by (auto simp: tinf_inflate_fixed_block_def fx tinf_at_def)
qed

theorem tinf_fixed_literals_witness:
  "\<exists>d'. tinf_inflate_fixed_block (tinf_data0 [0x8E, 0x00] 1) = Some (TINF_OK, d') \<and> dest d' = [0x41]"
proof -
  have "fixed_lengths ! 65 = 8" "code_rank fixed_lengths 65 = 65" "fixed_lengths ! 256 = 7"
    "code_rank fixed_lengths 256 = 0" "first_code (bl_count fixed_lengths) 8 = 48"
    "first_code (bl_count fixed_lengths) 7 = 0"
    by (simp_all add: fixed_bl_count first_code_numeral)
      (simp_all add: fixed_lengths_def code_rank_def nth_append count_list_replicate)
  moreover have "map (bit (113 :: nat)) (rev [0..<8]) = [False, True, True, True, False, False, False, True]"
    "map (bit (0 :: nat)) (rev [0..<7]) = [False, False, False, False, False, False, False]"
    by code_simp+
  ultimately have "code_bits fixed_lengths 65 = [False, True, True, True, False, False, False, True]"
    "code_bits fixed_lengths 256 = [False, False, False, False, False, False, False]"
    by (simp_all only: code_bits_def code_value_def add_0 add_0_right numeral_plus_numeral
        arith_simps)
  moreover have "byte_bits 0x8E = [False, True, True, True, False, False, False, True]"
    "byte_bits 0 = [False, False, False, False, False, False, False, False]"
    by code_simp+
  ultimately have "tinf_stream (tinf_data0 [0x8E, 0x00] 1)
      = concat (map (code_bits fixed_lengths) (map unat [0x41 :: byte] @ [256])) @ [False]"
    by (simp add: tinf_stream_def tinf_data0_def)
  then show ?thesis
    using tinf_fixed_literals [of "tinf_data0 [0x8E, 0x00] 1" "[0x41]" "[False]"]
    by (simp add: tinf_data0_def tinf_clean_def) blast
qed

text \<open>
  C6. Data stored in any number of blocks is inflated to itself, when it fits.
\<close>

theorem tinf_stored_roundtrip:
  assumes "\<forall>bs \<in> set bss. length bs < 65536" "length (concat bss) \<le> destLen"
  shows "tinf_uncompress d0 destLen (stored_blocks bss @ rest) = Some (TINF_OK, concat bss)"
  using tinf_blocks_stored [of bss "d0\<lparr>source := stored_blocks bss @ rest, tag := 0, bitcount := 0,
      overflow := False, dest := [], dest_size := destLen\<rparr>" rest] assms
  by (auto simp: tinf_uncompress_def)

theorem tinf_stored_roundtrip_witness:
  "tinf_uncompress (tinf_data0 [] 0) 5 (stored_blocks [[1, 2], [3, 4, 5]] @ [9]) = Some (TINF_OK, [1, 2, 3, 4, 5])"
  using tinf_stored_roundtrip [of "[[1, 2], [3, 4, 5]]" 5 "tinf_data0 [] 0" "[9]"] by simp

text \<open>
  C7. The match copy appends \<open>n\<close> bytes, each equal to the one \<open>offs\<close> places before it, so a
  match longer than its distance repeats itself; what was there stays.
\<close>

theorem tinf_copy_match_repeats:
  assumes "0 < offs" "offs \<le> length out"
  shows "\<exists>out'. tinf_copy_match n offs out = Some out' \<and> length out' = length out + n \<and> prefix out out'
    \<and> (\<forall>i. length out \<le> i \<and> i < length out' \<longrightarrow> out' ! i = out' ! (i - offs))"
proof -
  obtain out' where c: "tinf_copy_match n offs out = Some out'"
    using tinf_copy_match_ok [of offs out n] assms by auto
  have "out' ! i = out' ! (i - offs)" if "length out \<le> i" "i < length out'" for i
    using tinf_copy_match_nth [OF c assms(1)] that by (auto simp: le_iff_add)
  with c tinf_copy_match_nth [OF c assms(1)] show ?thesis by blast
qed

theorem tinf_copy_match_repeats_witness:
  "\<exists>out'. tinf_copy_match 5 2 [7, 8] = Some out' \<and> length out' = 7 \<and> prefix [7, 8] out'
    \<and> (\<forall>i. 2 \<le> i \<and> i < length out' \<longrightarrow> out' ! i = out' ! (i - 2))"
  using tinf_copy_match_repeats [of 2 "[7, 8]" 5] by (simp add: numeral_2_eq_2)

end
