(* ===== verification/Jsmn.thy ===== *)
theory Jsmn
  imports Coin_Prelude
begin

text \<open>
  The JSON tokeniser, \<open>src/jsmn.c\<close> and \<open>src/jsmn.h\<close>, as the build configures it (without
  \<open>JSMN_STRICT\<close>). The token array is a list that keeps its length; it
  starts out with whatever it holds. \<open>tokens == NULL\<close> is \<open>None\<close>. The all-ones \<open>size_t\<close> that the
  code writes as \<open>-1\<close> is the integer \<open>-1\<close>. An access outside the array makes \<open>jsmn_parse\<close>
  yield \<open>None\<close>, as does a walk up the parents that would not end.
\<close>

section \<open>Data\<close>

datatype jsmntype_t = JSMN_UNDEFINED | JSMN_OBJECT | JSMN_ARRAY | JSMN_STRING | JSMN_PRIMITIVE

datatype jsmnerr = JSMN_ERROR_NOMEM | JSMN_ERROR_INVAL | JSMN_ERROR_PART

record jsmntok_t =
  tok_type :: jsmntype_t
  tok_start :: int
  tok_end :: int
  tok_size :: nat
  tok_parent :: int

record jsmn_parser =
  pos :: nat
  toknext :: nat
  toksuper :: int

type_synonym jsmntoks = "jsmntok_t list option"

definition jsmn_init :: jsmn_parser where
  "jsmn_init = \<lparr>pos = 0, toknext = 0, toksuper = -1\<rparr>"

section \<open>Operations\<close>

text \<open>\<open>None\<close> is the NULL that stands for a full array; otherwise the index of the token.\<close>

definition jsmn_alloc_token ::
  "jsmn_parser \<Rightarrow> jsmntok_t list \<Rightarrow> (nat \<times> jsmn_parser \<times> jsmntok_t list) option" where
  "jsmn_alloc_token parser tokens =
     (if toknext parser \<ge> length tokens then None
      else
        (let i = toknext parser in
         Some (i, parser\<lparr>toknext := i + 1\<rparr>,
           tokens[i := (tokens ! i)\<lparr>tok_start := -1, tok_end := -1, tok_size := 0, tok_parent := -1\<rparr>])))"

text \<open>The scan of a primitive: where it ends, or \<open>None\<close> for a byte it may not hold.\<close>

function jsmn_prim_scan :: "string \<Rightarrow> nat \<Rightarrow> nat option" where
  "jsmn_prim_scan js p =
     (if p < length js \<and> js ! p \<noteq> NUL
      then (if js ! p \<in> {CHR '':'', TAB, CR, LF, CHR '' '', CHR '','', CHR '']'', CHR ''}''} then Some p
            else if of_char (js ! p) < (32 :: nat) \<or> of_char (js ! p) \<ge> (127 :: nat) then None
            else jsmn_prim_scan js (p + 1))
      else Some p)"
  by pat_completeness auto
termination by (relation "measure (\<lambda>(js, p). length js - p)") auto

declare jsmn_prim_scan.simps [simp del]

definition jsmn_parse_primitive ::
  "jsmn_parser \<Rightarrow> string \<Rightarrow> jsmntoks \<Rightarrow> jsmnerr option \<times> jsmn_parser \<times> jsmntoks" where
  "jsmn_parse_primitive parser js tokens =
     (case jsmn_prim_scan js (pos parser) of
        None \<Rightarrow> (Some JSMN_ERROR_INVAL, parser, tokens)
      | Some p \<Rightarrow>
          (case tokens of
             None \<Rightarrow> (None, parser\<lparr>pos := p - 1\<rparr>, None)
           | Some toks \<Rightarrow>
               (case jsmn_alloc_token parser toks of
                  None \<Rightarrow> (Some JSMN_ERROR_NOMEM, parser, tokens)
                | Some (i, parser1, toks1) \<Rightarrow>
                    (None, parser1\<lparr>pos := p - 1\<rparr>,
                     Some (toks1[i := \<lparr>tok_type = JSMN_PRIMITIVE, tok_start = int (pos parser),
                       tok_end = int p, tok_size = 0, tok_parent = toksuper parser\<rparr>])))))"

definition jsmn_is_hex :: "char \<Rightarrow> bool" where
  "jsmn_is_hex c = (let n = of_char c :: nat in
     (48 \<le> n \<and> n \<le> 57) \<or> (65 \<le> n \<and> n \<le> 70) \<or> (97 \<le> n \<and> n \<le> 102))"

fun jsmn_hex :: "string \<Rightarrow> nat \<Rightarrow> nat \<Rightarrow> nat option" where
  "jsmn_hex js p 0 = Some p"
| "jsmn_hex js p (Suc n) =
     (if p < length js \<and> js ! p \<noteq> NUL
      then (if jsmn_is_hex (js ! p) then jsmn_hex js (p + 1) n else None)
      else Some p)"

lemma jsmn_hex_le: "jsmn_hex js p n = Some q \<Longrightarrow> p \<le> q"
  by (induction js p n rule: jsmn_hex.induct) (auto split: if_splits)

text \<open>The scan of a string: the position of the quote that closes it, or the error.\<close>

function jsmn_str_scan :: "string \<Rightarrow> nat \<Rightarrow> jsmnerr + nat" where
  "jsmn_str_scan js p =
     (if p < length js \<and> js ! p \<noteq> NUL
      then
        (if js ! p = DQUOTE then Inr p
         else if js ! p = CHR 0x5C \<and> p + 1 < length js
         then (if js ! (p + 1) \<in> {DQUOTE, CHR ''/'', CHR 0x5C, CHR ''b'', CHR ''f'', CHR ''r'',
                   CHR ''n'', CHR ''t''}
               then jsmn_str_scan js (p + 2)
               else if js ! (p + 1) = CHR ''u''
               then (case jsmn_hex js (p + 2) 4 of
                       None \<Rightarrow> Inl JSMN_ERROR_INVAL
                     | Some q \<Rightarrow> jsmn_str_scan js q)
               else Inl JSMN_ERROR_INVAL)
         else jsmn_str_scan js (p + 1))
      else Inl JSMN_ERROR_PART)"
  by pat_completeness auto
termination
  by (relation "measure (\<lambda>(js, p). length js - p)") (auto dest!: jsmn_hex_le)

declare jsmn_str_scan.simps [simp del]

definition jsmn_parse_string ::
  "jsmn_parser \<Rightarrow> string \<Rightarrow> jsmntoks \<Rightarrow> jsmnerr option \<times> jsmn_parser \<times> jsmntoks" where
  "jsmn_parse_string parser js tokens =
     (case jsmn_str_scan js (pos parser + 1) of
        Inl e \<Rightarrow> (Some e, parser, tokens)
      | Inr p \<Rightarrow>
          (case tokens of
             None \<Rightarrow> (None, parser\<lparr>pos := p\<rparr>, None)
           | Some toks \<Rightarrow>
               (case jsmn_alloc_token parser toks of
                  None \<Rightarrow> (Some JSMN_ERROR_NOMEM, parser, tokens)
                | Some (i, parser1, toks1) \<Rightarrow>
                    (None, parser1\<lparr>pos := p\<rparr>,
                     Some (toks1[i := \<lparr>tok_type = JSMN_STRING, tok_start = int (pos parser) + 1,
                       tok_end = int p, tok_size = 0, tok_parent = toksuper parser\<rparr>])))))"

text \<open>\<open>tokens[i]\<close>, for an index that may be out of the array.\<close>

definition tok_at :: "jsmntok_t list \<Rightarrow> int \<Rightarrow> jsmntok_t option" where
  "tok_at toks i = (if 0 \<le> i \<and> nat i < length toks then Some (toks ! nat i) else None)"

definition tok_upd :: "jsmntok_t list \<Rightarrow> int \<Rightarrow> (jsmntok_t \<Rightarrow> jsmntok_t) \<Rightarrow> jsmntok_t list option" where
  "tok_upd toks i f =
     (if 0 \<le> i \<and> nat i < length toks then Some (toks[nat i := f (toks ! nat i)]) else None)"

text \<open>\<open>tokens[parser->toksuper].size++\<close>, when there is a superior token.\<close>

definition jsmn_super_size :: "jsmn_parser \<Rightarrow> jsmntoks \<Rightarrow> jsmntoks option" where
  "jsmn_super_size parser tokens =
     (case tokens of
        None \<Rightarrow> Some None
      | Some toks \<Rightarrow>
          if toksuper parser \<noteq> -1
          then do { toks1 \<leftarrow> tok_upd toks (toksuper parser) (\<lambda>t. t\<lparr>tok_size := tok_size t + 1\<rparr>);
                    Some (Some toks1) }
          else Some (Some toks))"

text \<open>The cases \<open>'{'\<close> and \<open>'['\<close>.\<close>

definition jsmn_open ::
  "jsmn_parser \<Rightarrow> char \<Rightarrow> jsmntoks \<Rightarrow> (jsmnerr + jsmn_parser \<times> jsmntoks) option" where
  "jsmn_open parser c tokens =
     (case tokens of
        None \<Rightarrow> Some (Inr (parser, None))
      | Some toks \<Rightarrow>
          (case jsmn_alloc_token parser toks of
             None \<Rightarrow> Some (Inl JSMN_ERROR_NOMEM)
           | Some (i, parser1, toks1) \<Rightarrow> do {
               toks2 \<leftarrow> (if toksuper parser1 \<noteq> -1
                 then do { toks2 \<leftarrow> tok_upd toks1 (toksuper parser1) (\<lambda>t. t\<lparr>tok_size := tok_size t + 1\<rparr>);
                           Some (toks2[i := (toks2 ! i)\<lparr>tok_parent := toksuper parser1\<rparr>]) }
                 else Some toks1);
               Some (Inr (parser1\<lparr>toksuper := int (toknext parser1) - 1\<rparr>,
                 Some (toks2[i := (toks2 ! i)
                   \<lparr>tok_type := (if c = CHR ''{'' then JSMN_OBJECT else JSMN_ARRAY),
                    tok_start := int (pos parser1)\<rparr>]))) }))"

text \<open>
  The walk from the last token up to the one that is still open; \<open>fuel\<close> bounds its length.
\<close>

fun jsmn_close_walk ::
  "nat \<Rightarrow> jsmn_parser \<Rightarrow> jsmntype_t \<Rightarrow> jsmntok_t list \<Rightarrow> int
    \<Rightarrow> (jsmnerr + jsmn_parser \<times> jsmntok_t list) option" where
  "jsmn_close_walk 0 parser ty toks i = None"
| "jsmn_close_walk (Suc fuel) parser ty toks i = do {
     token \<leftarrow> tok_at toks i;
     if tok_start token \<noteq> -1 \<and> tok_end token = -1
     then (if tok_type token \<noteq> ty then Some (Inl JSMN_ERROR_INVAL)
           else do {
             toks1 \<leftarrow> tok_upd toks i (\<lambda>t. t\<lparr>tok_end := int (pos parser) + 1\<rparr>);
             Some (Inr (parser\<lparr>toksuper := tok_parent token\<rparr>, toks1)) })
     else if tok_parent token = -1
     then (if tok_type token \<noteq> ty \<or> toksuper parser = -1 then Some (Inl JSMN_ERROR_INVAL)
           else Some (Inr (parser, toks)))
     else jsmn_close_walk fuel parser ty toks (tok_parent token) }"

text \<open>The cases \<open>'}'\<close> and \<open>']'\<close>.\<close>

definition jsmn_close ::
  "jsmn_parser \<Rightarrow> char \<Rightarrow> jsmntoks \<Rightarrow> (jsmnerr + jsmn_parser \<times> jsmntoks) option" where
  "jsmn_close parser c tokens =
     (case tokens of
        None \<Rightarrow> Some (Inr (parser, None))
      | Some toks \<Rightarrow>
          if toknext parser < 1 then Some (Inl JSMN_ERROR_INVAL)
          else do {
            r \<leftarrow> jsmn_close_walk (toknext parser) parser
              (if c = CHR ''}'' then JSMN_OBJECT else JSMN_ARRAY) toks (int (toknext parser) - 1);
            case r of
              Inl e \<Rightarrow> Some (Inl e)
            | Inr (parser1, toks1) \<Rightarrow> Some (Inr (parser1, Some toks1)) })"

text \<open>The case \<open>','\<close>: a key is left for the object that holds it.\<close>

definition jsmn_comma :: "jsmn_parser \<Rightarrow> jsmntoks \<Rightarrow> jsmn_parser option" where
  "jsmn_comma parser tokens =
     (case tokens of
        None \<Rightarrow> Some parser
      | Some toks \<Rightarrow>
          if toksuper parser \<noteq> -1
          then do {
            t \<leftarrow> tok_at toks (toksuper parser);
            Some (if tok_type t \<noteq> JSMN_ARRAY \<and> tok_type t \<noteq> JSMN_OBJECT
                  then parser\<lparr>toksuper := tok_parent t\<rparr> else parser) }
          else Some parser)"

text \<open>
  One round of the loop of \<open>jsmn_parse\<close>, without the final \<open>pos++\<close>: the error it returns, or
  parser, tokens and \<open>count\<close>. An error of the string scan is returned as \<open>-1ULL\<close>, which is
  the code \<open>JSMN_ERROR_NOMEM\<close>.
\<close>

definition jsmn_round ::
  "string \<Rightarrow> jsmn_parser \<Rightarrow> jsmntoks \<Rightarrow> nat
    \<Rightarrow> (jsmnerr + jsmn_parser \<times> jsmntoks \<times> nat) option" where
  "jsmn_round js parser tokens count =
     (let c = js ! pos parser in
      if c = CHR ''{'' \<or> c = CHR ''['' then do {
        r \<leftarrow> jsmn_open parser c tokens;
        case r of Inl e \<Rightarrow> Some (Inl e)
        | Inr (parser1, tokens1) \<Rightarrow> Some (Inr (parser1, tokens1, count + 1)) }
      else if c = CHR ''}'' \<or> c = CHR '']'' then do {
        r \<leftarrow> jsmn_close parser c tokens;
        case r of Inl e \<Rightarrow> Some (Inl e)
        | Inr (parser1, tokens1) \<Rightarrow> Some (Inr (parser1, tokens1, count)) }
      else if c = DQUOTE then
        (case jsmn_parse_string parser js tokens of
           (Some _, _, _) \<Rightarrow> Some (Inl JSMN_ERROR_NOMEM)
         | (None, parser1, tokens1) \<Rightarrow> do {
             tokens2 \<leftarrow> jsmn_super_size parser1 tokens1;
             Some (Inr (parser1, tokens2, count + 1)) })
      else if c = TAB \<or> c = CR \<or> c = LF \<or> c = CHR '' '' then Some (Inr (parser, tokens, count))
      else if c = CHR '':'' then
        Some (Inr (parser\<lparr>toksuper := int (toknext parser) - 1\<rparr>, tokens, count))
      else if c = CHR '','' then do {
        parser1 \<leftarrow> jsmn_comma parser tokens;
        Some (Inr (parser1, tokens, count)) }
      else
        (case jsmn_parse_primitive parser js tokens of
           (Some e, _, _) \<Rightarrow> Some (Inl e)
         | (None, parser1, tokens1) \<Rightarrow> do {
             tokens2 \<leftarrow> jsmn_super_size parser1 tokens1;
             Some (Inr (parser1, tokens2, count + 1)) }))"

section \<open>Progress\<close>

lemma jsmn_prim_scan_bounds: "jsmn_prim_scan js p = Some q \<Longrightarrow> p \<le> length js \<Longrightarrow> p \<le> q \<and> q \<le> length js"
proof (induction js p rule: jsmn_prim_scan.induct)
  case (1 js p)
  from "1.prems" "1.IH" show ?case
    unfolding jsmn_prim_scan.simps [of js p] by (auto split: if_splits)
qed

lemma jsmn_prim_scan_progress:
  assumes "jsmn_prim_scan js p = Some q" "p < length js" "js ! p \<noteq> NUL"
    and "js ! p \<notin> {CHR '':'', TAB, CR, LF, CHR '' '', CHR '','', CHR '']'', CHR ''}''}"
  shows "p < q \<and> q \<le> length js"
  using assms jsmn_prim_scan_bounds [of js "p + 1" q] unfolding jsmn_prim_scan.simps [of js p]
  by (auto split: if_splits)

lemma jsmn_str_scan_bounds: "jsmn_str_scan js p = Inr q \<Longrightarrow> p \<le> q \<and> q < length js \<and> js ! q = DQUOTE"
proof (induction js p rule: jsmn_str_scan.induct)
  case (1 js p)
  from "1.prems" "1.IH" show ?case
    unfolding jsmn_str_scan.simps [of js p]
    by (fastforce split: if_splits option.splits dest: jsmn_hex_le)
qed

lemma jsmn_alloc_pos: "jsmn_alloc_token parser toks = Some (i, parser1, toks1) \<Longrightarrow> pos parser1 = pos parser"
  by (auto simp: jsmn_alloc_token_def Let_def split: if_splits)

lemma jsmn_parse_primitive_pos:
  assumes "jsmn_parse_primitive parser js tokens = (None, parser1, tokens1)" "pos parser < length js"
    and "js ! pos parser \<noteq> NUL"
    and "js ! pos parser \<notin> {CHR '':'', TAB, CR, LF, CHR '' '', CHR '','', CHR '']'', CHR ''}''}"
  shows "pos parser \<le> pos parser1 \<and> pos parser1 < length js"
  using assms(1) jsmn_prim_scan_progress [OF _ assms(2-4)]
  by (fastforce simp: jsmn_parse_primitive_def split: option.splits prod.splits)

lemma jsmn_parse_string_pos:
  assumes "jsmn_parse_string parser js tokens = (None, parser1, tokens1)"
  shows "pos parser \<le> pos parser1 \<and> pos parser1 < length js"
  using assms jsmn_str_scan_bounds [of js "pos parser + 1"]
  by (fastforce simp: jsmn_parse_string_def split: option.splits prod.splits sum.splits)

lemma jsmn_open_pos: "jsmn_open parser c tokens = Some (Inr (parser1, tokens1)) \<Longrightarrow> pos parser1 = pos parser"
  by (auto simp: jsmn_open_def jsmn_alloc_token_def Let_def bind_eq_Some_conv
      split: option.splits if_splits)

lemma jsmn_close_walk_pos:
  "jsmn_close_walk fuel parser ty toks i = Some (Inr (parser1, toks1)) \<Longrightarrow> pos parser1 = pos parser"
  by (induction fuel parser ty toks i rule: jsmn_close_walk.induct)
    (auto simp: bind_eq_Some_conv split: if_splits)

lemma jsmn_close_pos: "jsmn_close parser c tokens = Some (Inr (parser1, tokens1)) \<Longrightarrow> pos parser1 = pos parser"
  by (auto simp: jsmn_close_def elim!: bindE dest!: jsmn_close_walk_pos
      split: option.split_asm if_split_asm sum.split_asm)

lemma jsmn_comma_pos: "jsmn_comma parser tokens = Some parser1 \<Longrightarrow> pos parser1 = pos parser"
  by (auto simp: jsmn_comma_def bind_eq_Some_conv split: option.splits if_splits)

lemma jsmn_round_prim:
  assumes "js ! pos parser \<notin> {CHR ''{'', CHR ''['', DQUOTE, CHR '':'', TAB, CR, LF, CHR '' '', CHR '','', CHR '']'', CHR ''}''}"
  shows "jsmn_round js parser tokens count =
    (case jsmn_parse_primitive parser js tokens of
       (Some e, _, _) \<Rightarrow> Some (Inl e)
     | (None, parser1, tokens1) \<Rightarrow> do {
         tokens2 \<leftarrow> jsmn_super_size parser1 tokens1;
         Some (Inr (parser1, tokens2, count + 1)) })"
  using assms by (simp add: jsmn_round_def Let_def)

text \<open>The ways a round succeeds.\<close>

lemma jsmn_round_Inr:
  assumes "jsmn_round js parser tokens count = Some (Inr (parser1, tokens1, count1))"
  obtains
    (opens) "js ! pos parser = CHR ''{'' \<or> js ! pos parser = CHR ''[''"
      "jsmn_open parser (js ! pos parser) tokens = Some (Inr (parser1, tokens1))" "count1 = count + 1"
  | (closes) "js ! pos parser = CHR ''}'' \<or> js ! pos parser = CHR '']''"
      "jsmn_close parser (js ! pos parser) tokens = Some (Inr (parser1, tokens1))" "count1 = count"
  | (string) tokens2 where "js ! pos parser = DQUOTE"
      "jsmn_parse_string parser js tokens = (None, parser1, tokens2)"
      "jsmn_super_size parser1 tokens2 = Some tokens1" "count1 = count + 1"
  | (white) "js ! pos parser \<in> {TAB, CR, LF, CHR '' ''}" "parser1 = parser" "tokens1 = tokens" "count1 = count"
  | (colon) "js ! pos parser = CHR '':''"
      "parser1 = parser\<lparr>toksuper := int (toknext parser) - 1\<rparr>" "tokens1 = tokens" "count1 = count"
  | (comma) "js ! pos parser = CHR '',''" "jsmn_comma parser tokens = Some parser1" "tokens1 = tokens" "count1 = count"
  | (primitive) tokens2 where
      "js ! pos parser \<notin>
        {CHR ''{'', CHR ''['', DQUOTE, CHR '':'', TAB, CR, LF, CHR '' '', CHR '','', CHR '']'', CHR ''}''}"
      "jsmn_parse_primitive parser js tokens = (None, parser1, tokens2)"
      "jsmn_super_size parser1 tokens2 = Some tokens1" "count1 = count + 1"
proof -
  let ?c = "js ! pos parser"
  consider "?c = CHR ''{'' \<or> ?c = CHR ''[''" | "?c = CHR ''}'' \<or> ?c = CHR '']''" | "?c = DQUOTE"
    | "?c \<in> {TAB, CR, LF, CHR '' ''}" | "?c = CHR '':''" | "?c = CHR '',''"
    | "?c \<notin> {CHR ''{'', CHR ''['', DQUOTE, CHR '':'', TAB, CR, LF, CHR '' '', CHR '','', CHR '']'', CHR ''}''}"
    by auto
  then show thesis
  proof cases
    case 1
    with assms opens show ?thesis
      by (auto simp: jsmn_round_def elim!: bindE split: sum.split_asm)
  next
    case 2
    then have "\<not> (?c = CHR ''{'' \<or> ?c = CHR ''['')" by auto
    with 2 assms closes show ?thesis
      by (simp add: jsmn_round_def Let_def) (auto elim!: bindE split: sum.split_asm)
  next
    case 3
    with assms string show ?thesis
      by (auto simp: jsmn_round_def bind_eq_Some_conv split: option.splits prod.splits)
  next
    case 4
    with assms white show ?thesis by (auto simp: jsmn_round_def)
  next
    case 5
    with assms show ?thesis by (intro colon) (simp_all add: jsmn_round_def)
  next
    case 6
    with assms show ?thesis
      by (intro comma) (auto simp: jsmn_round_def bind_eq_Some_conv)
  next
    case 7
    note unf = jsmn_round_prim [OF 7, of tokens count]
    obtain e parser2 tokens2 where p: "jsmn_parse_primitive parser js tokens = (e, parser2, tokens2)"
      by (rule prod_cases3)
    have "e = None" using assms unf p by (cases e) auto
    with assms unf p have "parser2 = parser1" "jsmn_super_size parser1 tokens2 = Some tokens1"
      "count1 = count + 1" by (auto elim!: bindE)
    with p \<open>e = None\<close> 7 show ?thesis by (intro primitive) auto
  qed
qed

lemma jsmn_round_pos:
  assumes "jsmn_round js parser tokens count = Some (Inr (parser1, tokens1, count1))"
    and "pos parser < length js" "js ! pos parser \<noteq> NUL"
  shows "pos parser \<le> pos parser1 \<and> pos parser1 < length js"
  using assms(1)
proof (cases rule: jsmn_round_Inr)
  case (primitive tokens2)
  then show ?thesis using jsmn_parse_primitive_pos [of parser js tokens] assms(2,3) by auto
qed (use assms(2,3) in \<open>auto dest: jsmn_open_pos jsmn_close_pos jsmn_comma_pos jsmn_parse_string_pos\<close>)

section \<open>The parser\<close>

function jsmn_loop ::
  "string \<Rightarrow> jsmn_parser \<Rightarrow> jsmntoks \<Rightarrow> nat \<Rightarrow> (jsmnerr + jsmn_parser \<times> jsmntoks \<times> nat) option" where
  "jsmn_loop js parser tokens count =
     (if pos parser < length js \<and> js ! pos parser \<noteq> NUL
      then do {
        r \<leftarrow> jsmn_round js parser tokens count;
        case r of
          Inl e \<Rightarrow> Some (Inl e)
        | Inr (parser1, tokens1, count1) \<Rightarrow>
            jsmn_loop js (parser1\<lparr>pos := pos parser1 + 1\<rparr>) tokens1 count1 }
      else Some (Inr (parser, tokens, count)))"
  by pat_completeness auto
termination
  by (relation "measure (\<lambda>(js, parser, _, _). length js - pos parser)")
    (auto dest!: jsmn_round_pos)

declare jsmn_loop.simps [simp del]

text \<open>Is there an opened object or array without its match among the tokens in use?\<close>

definition jsmn_unmatched :: "nat \<Rightarrow> jsmntok_t list \<Rightarrow> bool" where
  "jsmn_unmatched n toks = list_ex (\<lambda>t. tok_start t \<noteq> -1 \<and> tok_end t = -1) (take n toks)"

definition jsmn_parse ::
  "jsmn_parser \<Rightarrow> string \<Rightarrow> jsmntoks \<Rightarrow> (jsmnerr + nat \<times> jsmntoks) option" where
  "jsmn_parse parser js tokens = do {
     r \<leftarrow> jsmn_loop js parser tokens (toknext parser);
     case r of
       Inl e \<Rightarrow> Some (Inl e)
     | Inr (parser1, tokens1, count) \<Rightarrow>
         (case tokens1 of
            None \<Rightarrow> Some (Inr (count, None))
          | Some toks \<Rightarrow> do {
              check (toknext parser1 \<le> length toks);
              (if jsmn_unmatched (toknext parser1) toks then Some (Inl JSMN_ERROR_PART)
               else Some (Inr (count, tokens1))) }) }"

end
