(* ===== verification/Jsmn_Spec.thy ===== *)
theory Jsmn_Spec
  imports Jsmn
begin

text \<open>
  What the tokeniser promises: with any token array it stays inside that array, what it
  returns is a forest of tokens in the order of the text, and counting without an array
  gives the number of tokens an array needs.
\<close>

section \<open>The invariant\<close>

text \<open>
  \<open>b\<close> bounds the text consumed. Token \<open>i\<close> has an earlier token as its parent, or none; only
  an object or array may still be open.
\<close>

definition tok_ok :: "nat \<Rightarrow> nat \<Rightarrow> jsmntok_t \<Rightarrow> bool" where
  "tok_ok b i t \<longleftrightarrow> -1 \<le> tok_parent t \<and> tok_parent t < int i \<and> 0 \<le> tok_start t \<and> tok_start t < int b \<and>
     (tok_end t \<noteq> -1 \<longrightarrow> tok_start t \<le> tok_end t \<and> tok_end t \<le> int b) \<and>
     (tok_end t = -1 \<longrightarrow> tok_type t = JSMN_OBJECT \<or> tok_type t = JSMN_ARRAY) \<and>
     tok_type t \<noteq> JSMN_UNDEFINED"

definition starts_sorted :: "nat \<Rightarrow> jsmntok_t list \<Rightarrow> bool" where
  "starts_sorted n toks \<longleftrightarrow> (\<forall>j < n. \<forall>i < j. tok_start (toks ! i) < tok_start (toks ! j))"

definition jsmn_inv :: "nat \<Rightarrow> jsmn_parser \<Rightarrow> jsmntok_t list \<Rightarrow> bool" where
  "jsmn_inv b parser toks \<longleftrightarrow> toknext parser \<le> length toks \<and>
     -1 \<le> toksuper parser \<and> toksuper parser < int (toknext parser) \<and>
     (\<forall>i < toknext parser. tok_ok b i (toks ! i)) \<and> starts_sorted (toknext parser) toks"

lemma jsmn_inv_init: "jsmn_inv 0 jsmn_init toks"
  by (simp add: jsmn_inv_def jsmn_init_def starts_sorted_def)

lemma jsmn_init_pos: "pos jsmn_init = 0"
  by (simp add: jsmn_init_def)

lemma tok_ok_mono: "tok_ok b i t \<Longrightarrow> b \<le> b' \<Longrightarrow> tok_ok b' i t"
  by (auto simp: tok_ok_def)

lemma tok_ok_size [simp]: "tok_ok b i (t\<lparr>tok_size := n\<rparr>) = tok_ok b i t"
  by (simp add: tok_ok_def)

lemma jsmn_inv_mono: "jsmn_inv b parser toks \<Longrightarrow> b \<le> b' \<Longrightarrow> jsmn_inv b' parser toks"
  by (auto simp: jsmn_inv_def intro: tok_ok_mono)

lemma jsmn_inv_pos [simp]: "jsmn_inv b (parser\<lparr>pos := p\<rparr>) toks = jsmn_inv b parser toks"
  by (simp add: jsmn_inv_def)

text \<open>Appending a token, and updating one without moving its start.\<close>

lemma jsmn_inv_append:
  assumes "jsmn_inv b parser toks" "toknext parser < length toks" "tok_ok b' (toknext parser) t"
    and "int b \<le> tok_start t" "b \<le> b'" "-1 \<le> toksuper parser'" "toksuper parser' \<le> int (toknext parser)"
    and "toknext parser' = toknext parser + 1"
  shows "jsmn_inv b' parser' (toks[toknext parser := t])"
proof -
  have "tok_start (toks ! i) < tok_start t" if "i < toknext parser" for i
    using assms(1,4) that by (force simp: jsmn_inv_def tok_ok_def)
  then have "starts_sorted (toknext parser + 1) (toks[toknext parser := t])"
    using assms(1,2) by (auto simp: jsmn_inv_def starts_sorted_def nth_list_update less_Suc_eq)
  moreover have "tok_ok b' i (toks[toknext parser := t] ! i)" if "i < toknext parser + 1" for i
    using assms that
    by (cases "i = toknext parser") (auto simp: jsmn_inv_def less_Suc_eq intro: tok_ok_mono)
  ultimately show ?thesis using assms by (simp add: jsmn_inv_def)
qed

lemma jsmn_inv_update:
  assumes "jsmn_inv b parser toks" "i < toknext parser" "tok_ok b' i (f (toks ! i))" "b \<le> b'"
    and "tok_start (f (toks ! i)) = tok_start (toks ! i)"
    and "-1 \<le> toksuper parser'" "toksuper parser' < int (toknext parser)" "toknext parser' = toknext parser"
  shows "jsmn_inv b' parser' (toks[i := f (toks ! i)])"
proof -
  have i: "i < length toks" using assms(1,2) by (simp add: jsmn_inv_def)
  have "starts_sorted (toknext parser) (toks[i := f (toks ! i)])"
    using assms(1,5) i by (auto simp: jsmn_inv_def starts_sorted_def nth_list_update)
  moreover have "tok_ok b' k (toks[i := f (toks ! i)] ! k)" if "k < toknext parser" for k
    using assms that i by (cases "k = i") (auto simp: jsmn_inv_def intro: tok_ok_mono)
  ultimately show ?thesis using assms by (simp add: jsmn_inv_def)
qed

section \<open>Every step keeps it\<close>

text \<open>A step that goes well: it returns, and on success the invariant holds up to \<open>b\<close>.\<close>

definition jsmn_good :: "nat \<Rightarrow> nat \<Rightarrow> nat \<Rightarrow> (jsmnerr + jsmn_parser \<times> jsmntoks) option \<Rightarrow> bool" where
  "jsmn_good b len n r \<longleftrightarrow> (\<exists>e. r = Some (Inl e)) \<or>
     (\<exists>parser toks. r = Some (Inr (parser, Some toks)) \<and> jsmn_inv b parser toks \<and> length toks = len
        \<and> toknext parser = n)"

lemma jsmn_alloc_cases:
  assumes "toknext parser \<le> length toks"
  obtains "jsmn_alloc_token parser toks = None" "toknext parser = length toks"
  | t where "jsmn_alloc_token parser toks
      = Some (toknext parser, parser\<lparr>toknext := toknext parser + 1\<rparr>, toks[toknext parser := t])"
      "toknext parser < length toks" "tok_end t = -1" "tok_parent t = -1" "tok_size t = 0"
  using assms by (cases "toknext parser = length toks") (auto simp: jsmn_alloc_token_def Let_def)

lemma jsmn_super_size_good:
  assumes "jsmn_inv b parser toks"
  shows "\<exists>toks'. jsmn_super_size parser (Some toks) = Some (Some toks') \<and> jsmn_inv b parser toks'
    \<and> length toks' = length toks"
proof (cases "toksuper parser = -1")
  case True
  with assms show ?thesis by (simp add: jsmn_super_size_def)
next
  case False
  let ?i = "nat (toksuper parser)"
  have i: "?i < toknext parser" "0 \<le> toksuper parser" "toknext parser \<le> length toks" "tok_ok b ?i (toks ! ?i)"
    using assms False by (auto simp: jsmn_inv_def)
  have "jsmn_inv b parser (toks[?i := (toks ! ?i)\<lparr>tok_size := tok_size (toks ! ?i) + 1\<rparr>])"
    by (rule jsmn_inv_update [OF assms i(1)]) (use assms i in \<open>auto simp: jsmn_inv_def\<close>)
  with i False show ?thesis by (simp add: jsmn_super_size_def tok_upd_def)
qed

lemma jsmn_parse_string_good:
  assumes "jsmn_inv (pos parser) parser toks"
  shows "case jsmn_parse_string parser js (Some toks) of
      (Some e, _, _) \<Rightarrow> True
    | (None, parser1, tokens1) \<Rightarrow> \<exists>toks1. tokens1 = Some toks1 \<and> jsmn_inv (pos parser1 + 1) parser1 toks1
        \<and> length toks1 = length toks \<and> toknext parser1 = toknext parser + 1"
proof (cases "jsmn_str_scan js (pos parser + 1)")
  case (Inl e)
  then show ?thesis by (simp add: jsmn_parse_string_def)
next
  case (Inr p)
  have p: "pos parser + 1 \<le> p" using jsmn_str_scan_bounds [OF Inr] by simp
  have le: "toknext parser \<le> length toks" using assms by (simp add: jsmn_inv_def)
  from le show ?thesis
  proof (cases rule: jsmn_alloc_cases)
    case 1
    with Inr show ?thesis by (simp add: jsmn_parse_string_def)
  next
    case (2 t)
    let ?t = "\<lparr>tok_type = JSMN_STRING, tok_start = int (pos parser) + 1,
                       tok_end = int p, tok_size = 0, tok_parent = toksuper parser\<rparr>"
    have "jsmn_inv (p + 1) (parser\<lparr>toknext := toknext parser + 1\<rparr>) (toks[toknext parser := ?t])"
      by (rule jsmn_inv_append [OF assms 2(2)]) (use assms p in \<open>auto simp: jsmn_inv_def tok_ok_def\<close>)
    with 2 Inr show ?thesis by (simp add: jsmn_parse_string_def)
  qed
qed

lemma jsmn_parse_primitive_good:
  assumes "jsmn_inv (pos parser) parser toks" "pos parser < length js" "js ! pos parser \<noteq> NUL"
    and "js ! pos parser \<notin> {CHR '':'', TAB, CR, LF, CHR '' '', CHR '','', CHR '']'', CHR ''}''}"
  shows "case jsmn_parse_primitive parser js (Some toks) of
      (Some e, _, _) \<Rightarrow> True
    | (None, parser1, tokens1) \<Rightarrow> \<exists>toks1. tokens1 = Some toks1 \<and> jsmn_inv (pos parser1 + 1) parser1 toks1
        \<and> length toks1 = length toks \<and> toknext parser1 = toknext parser + 1"
proof (cases "jsmn_prim_scan js (pos parser)")
  case None
  then show ?thesis by (simp add: jsmn_parse_primitive_def)
next
  case (Some p)
  have p: "pos parser < p" using jsmn_prim_scan_progress [OF Some assms(2-4)] by simp
  have le: "toknext parser \<le> length toks" using assms by (simp add: jsmn_inv_def)
  from le show ?thesis
  proof (cases rule: jsmn_alloc_cases)
    case 1
    with Some show ?thesis by (simp add: jsmn_parse_primitive_def)
  next
    case (2 t)
    let ?t = "\<lparr>tok_type = JSMN_PRIMITIVE, tok_start = int (pos parser),
                       tok_end = int p, tok_size = 0, tok_parent = toksuper parser\<rparr>"
    have "jsmn_inv p (parser\<lparr>toknext := toknext parser + 1\<rparr>) (toks[toknext parser := ?t])"
      by (rule jsmn_inv_append [OF assms(1) 2(2)]) (use assms(1) p in \<open>auto simp: jsmn_inv_def tok_ok_def\<close>)
    with 2 Some p show ?thesis by (simp add: jsmn_parse_primitive_def)
  qed
qed

lemma jsmn_open_good:
  assumes "jsmn_inv (pos parser) parser toks"
  shows "jsmn_good (pos parser + 1) (length toks) (toknext parser + 1) (jsmn_open parser c (Some toks))"
proof -
  have le: "toknext parser \<le> length toks" using assms by (simp add: jsmn_inv_def)
  from le show ?thesis
  proof (cases rule: jsmn_alloc_cases)
    case 1
    then show ?thesis by (simp add: jsmn_open_def jsmn_good_def)
  next
    case (2 t)
    let ?n = "toknext parser"
    let ?ty = "if c = CHR ''{'' then JSMN_OBJECT else JSMN_ARRAY"
    let ?t = "t\<lparr>tok_parent := toksuper parser, tok_type := ?ty, tok_start := int (pos parser)\<rparr>"
    let ?p = "parser\<lparr>toknext := ?n + 1, toksuper := int ?n\<rparr>"
    obtain toks' where t': "jsmn_super_size parser (Some toks) = Some (Some toks')"
      "jsmn_inv (pos parser) parser toks'" "length toks' = length toks"
      using jsmn_super_size_good [OF assms] by blast
    have inv: "jsmn_inv (pos parser + 1) ?p (toks'[?n := ?t])"
      by (rule jsmn_inv_append [OF t'(2)])
        (use t' 2 assms in \<open>auto simp: jsmn_inv_def tok_ok_def\<close>)
    have "jsmn_open parser c (Some toks) = Some (Inr (?p, Some (toks'[?n := ?t])))"
    proof (cases "toksuper parser = -1")
      case True
      with t' 2 show ?thesis by (cases t) (auto simp: jsmn_open_def jsmn_super_size_def)
    next
      case False
      let ?i = "nat (toksuper parser)"
      have i: "?i < ?n" "0 \<le> toksuper parser" using assms False by (auto simp: jsmn_inv_def)
      from t'(1) i 2(2) False have toks': "toks' = toks[?i := (toks ! ?i)\<lparr>tok_size := tok_size (toks ! ?i) + 1\<rparr>]"
        by (simp add: jsmn_super_size_def tok_upd_def)
      have "toks[?n := t, ?i := (toks ! ?i)\<lparr>tok_size := tok_size (toks ! ?i) + 1\<rparr>, ?n := ?t]
          = toks'[?n := ?t]"
        unfolding toks' using i by (simp add: list_update_swap)
      with 2 i False show ?thesis
        by (simp add: jsmn_open_def tok_upd_def)
    qed
    with inv 2 t' show ?thesis by (simp add: jsmn_good_def)
  qed
qed

lemma jsmn_close_walk_good:
  assumes "jsmn_inv (pos parser) parser toks" "i < toknext parser" "i < fuel"
    and "ty = JSMN_OBJECT \<or> ty = JSMN_ARRAY"
  shows "(\<exists>e. jsmn_close_walk fuel parser ty toks (int i) = Some (Inl e)) \<or>
    (\<exists>parser1 toks1. jsmn_close_walk fuel parser ty toks (int i) = Some (Inr (parser1, toks1))
       \<and> jsmn_inv (pos parser + 1) parser1 toks1 \<and> length toks1 = length toks \<and> toknext parser1 = toknext parser)"
  using assms(2,3)
proof (induction fuel arbitrary: i)
  case (Suc fuel)
  have i: "i < length toks" using assms(1) Suc.prems(1) by (simp add: jsmn_inv_def)
  have ok: "tok_ok (pos parser) i (toks ! i)" using assms(1) Suc.prems(1) by (simp add: jsmn_inv_def)
  show ?case
  proof (cases "tok_start (toks ! i) \<noteq> -1 \<and> tok_end (toks ! i) = -1")
    case True
    have "jsmn_inv (pos parser + 1) (parser\<lparr>toksuper := tok_parent (toks ! i)\<rparr>)
        (toks[i := (toks ! i)\<lparr>tok_end := int (pos parser) + 1\<rparr>])"
      by (rule jsmn_inv_update [OF assms(1) Suc.prems(1)])
        (use ok Suc.prems(1) in \<open>auto simp: tok_ok_def\<close>)
    with True i show ?thesis by (simp add: tok_at_def tok_upd_def)
  next
    case False
    show ?thesis
    proof (cases "tok_parent (toks ! i) = -1")
      case True
      have "jsmn_inv (pos parser + 1) parser toks" using assms(1) by (rule jsmn_inv_mono) simp
      with True False i show ?thesis by (auto simp: tok_at_def)
    next
      case par: False
      have "0 \<le> tok_parent (toks ! i)" "tok_parent (toks ! i) < int i"
        using ok par by (auto simp: tok_ok_def)
      then obtain j where j: "tok_parent (toks ! i) = int j" "j < i"
        using zero_le_imp_eq_int by force
      have "j < toknext parser" "j < fuel" using j Suc.prems by auto
      from Suc.IH [OF this] show ?thesis using False par i j by (auto simp: tok_at_def)
    qed
  qed
qed simp

lemma jsmn_close_good:
  assumes "jsmn_inv (pos parser) parser toks"
  shows "jsmn_good (pos parser + 1) (length toks) (toknext parser) (jsmn_close parser c (Some toks))"
proof (cases "toknext parser < 1")
  case True
  then show ?thesis by (simp add: jsmn_close_def jsmn_good_def)
next
  case False
  then have "toknext parser - 1 < toknext parser" and i: "int (toknext parser) - 1 = int (toknext parser - 1)"
    by simp_all
  from jsmn_close_walk_good [OF assms this(1) this(1),
      of "if c = CHR ''}'' then JSMN_OBJECT else JSMN_ARRAY"] False
  show ?thesis unfolding jsmn_close_def i by (auto simp: jsmn_good_def split: if_splits)
qed

lemma jsmn_comma_good:
  assumes "jsmn_inv b parser toks"
  shows "\<exists>parser1. jsmn_comma parser (Some toks) = Some parser1 \<and> jsmn_inv b parser1 toks
    \<and> toknext parser1 = toknext parser"
proof (cases "toksuper parser = -1")
  case True
  with assms show ?thesis by (simp add: jsmn_comma_def)
next
  case False
  let ?i = "nat (toksuper parser)"
  have i: "?i < toknext parser" "0 \<le> toksuper parser" "?i < length toks" "tok_ok b ?i (toks ! ?i)"
    using assms False by (auto simp: jsmn_inv_def)
  then have "jsmn_inv b (parser\<lparr>toksuper := tok_parent (toks ! ?i)\<rparr>) toks"
    using assms by (auto simp: jsmn_inv_def tok_ok_def)
  with i False assms show ?thesis by (simp add: jsmn_comma_def tok_at_def)
qed

text \<open>A round: what is counted is what is allocated.\<close>

lemma jsmn_good_cases:
  assumes "jsmn_good b len n r"
  obtains e where "r = Some (Inl e)"
  | parser toks where "r = Some (Inr (parser, Some toks))" "jsmn_inv b parser toks" "length toks = len"
      "toknext parser = n"
  using assms by (auto simp: jsmn_good_def)

definition jsmn_round_good :: "string \<Rightarrow> nat \<Rightarrow> nat \<Rightarrow> (jsmnerr + jsmn_parser \<times> jsmntoks \<times> nat) option \<Rightarrow> bool" where
  "jsmn_round_good js len d r \<longleftrightarrow> (\<exists>e. r = Some (Inl e)) \<or>
     (\<exists>parser toks n. r = Some (Inr (parser, Some toks, n)) \<and> jsmn_inv (pos parser + 1) parser toks
        \<and> length toks = len \<and> n = d + toknext parser)"

lemma jsmn_round_good:
  assumes inv: "jsmn_inv (pos parser) parser toks" and p: "pos parser < length js" "js ! pos parser \<noteq> NUL"
  shows "jsmn_round_good js (length toks) d (jsmn_round js parser (Some toks) (d + toknext parser))"
proof -
  let ?c = "js ! pos parser"
  have mono: "jsmn_inv (pos parser + 1) parser toks" using inv by (rule jsmn_inv_mono) simp
  consider "?c = CHR ''{'' \<or> ?c = CHR ''[''" | "?c = CHR ''}'' \<or> ?c = CHR '']''" | "?c = DQUOTE"
    | "?c \<in> {TAB, CR, LF, CHR '' ''}" | "?c = CHR '':''" | "?c = CHR '',''"
    | "?c \<notin> {CHR ''{'', CHR ''['', DQUOTE, CHR '':'', TAB, CR, LF, CHR '' '', CHR '','', CHR '']'', CHR ''}''}"
    by auto
  then show ?thesis
  proof cases
    case 1
    from jsmn_open_good [OF inv, of ?c] show ?thesis
    proof (cases rule: jsmn_good_cases)
      case 1
      with \<open>?c = CHR ''{'' \<or> ?c = CHR ''[''\<close> show ?thesis
        unfolding jsmn_round_def Let_def by (simp add: jsmn_round_good_def)
    next
      case (2 parser1 toks1)
      with \<open>?c = CHR ''{'' \<or> ?c = CHR ''[''\<close> jsmn_open_pos [OF 2(1)] show ?thesis
        unfolding jsmn_round_def Let_def by (simp add: jsmn_round_good_def)
    qed
  next
    case 2
    then have nb: "\<not> (?c = CHR ''{'' \<or> ?c = CHR ''['')" by auto
    note unf = jsmn_round_def [of js parser, unfolded Let_def if_not_P [OF nb] if_P [OF 2]]
    from jsmn_close_good [OF inv, of ?c] show ?thesis
    proof (cases rule: jsmn_good_cases)
      case 1
      then show ?thesis by (simp add: unf jsmn_round_good_def)
    next
      case (2 parser1 toks1)
      with jsmn_close_pos [OF 2(1)] show ?thesis by (simp add: unf jsmn_round_good_def)
    qed
  next
    case 3
    obtain e parser1 tokens1 where r: "jsmn_parse_string parser js (Some toks) = (e, parser1, tokens1)"
      by (rule prod_cases3)
    with 3 have unf: "jsmn_round js parser (Some toks) (d + toknext parser) =
        (case e of Some _ \<Rightarrow> Some (Inl JSMN_ERROR_NOMEM)
         | None \<Rightarrow> do { tokens2 \<leftarrow> jsmn_super_size parser1 tokens1;
                      Some (Inr (parser1, tokens2, d + toknext parser + 1)) })"
      by (cases e) (simp_all add: jsmn_round_def)
    from jsmn_parse_string_good [OF inv, of js] r jsmn_super_size_good [of "pos parser1 + 1" parser1]
    show ?thesis by (cases e) (fastforce simp: unf jsmn_round_good_def)+
  next
    case 4
    with mono show ?thesis by (auto simp: jsmn_round_def jsmn_round_good_def)
  next
    case 5
    have "jsmn_inv (pos parser + 1) (parser\<lparr>toksuper := int (toknext parser) - 1\<rparr>) toks"
      using mono by (simp add: jsmn_inv_def)
    with 5 show ?thesis by (simp add: jsmn_round_def jsmn_round_good_def)
  next
    case 6
    obtain parser1 where "jsmn_comma parser (Some toks) = Some parser1" "jsmn_inv (pos parser + 1) parser1 toks"
      "toknext parser1 = toknext parser"
      using jsmn_comma_good [OF mono] by blast
    with 6 jsmn_comma_pos show ?thesis by (simp add: jsmn_round_def jsmn_round_good_def)
  next
    case 7
    note unf = jsmn_round_prim [OF 7, of "Some toks" "d + toknext parser"]
    obtain e parser1 tokens1 where r: "jsmn_parse_primitive parser js (Some toks) = (e, parser1, tokens1)"
      by (rule prod_cases3)
    have "?c \<notin> {CHR '':'', TAB, CR, LF, CHR '' '', CHR '','', CHR '']'', CHR ''}''}" using 7 by auto
    from jsmn_parse_primitive_good [OF inv p this] r jsmn_super_size_good [of "pos parser1 + 1" parser1]
    show ?thesis by (cases e) (fastforce simp: unf jsmn_round_good_def)+
  qed
qed

lemma jsmn_loop_good:
  assumes "jsmn_inv (pos parser) parser toks"
  shows "(\<exists>e. jsmn_loop js parser (Some toks) (d + toknext parser) = Some (Inl e)) \<or>
    (\<exists>parser1 toks1. jsmn_loop js parser (Some toks) (d + toknext parser)
         = Some (Inr (parser1, Some toks1, d + toknext parser1))
       \<and> jsmn_inv (pos parser1) parser1 toks1 \<and> length toks1 = length toks)"
  using assms
proof (induction "length js - pos parser" arbitrary: parser toks rule: less_induct)
  case less
  show ?case
  proof (cases "pos parser < length js \<and> js ! pos parser \<noteq> NUL")
    case False
    then have "jsmn_loop js parser (Some toks) (d + toknext parser)
        = Some (Inr (parser, Some toks, d + toknext parser))"
      unfolding jsmn_loop.simps [of js parser] if_not_P [OF False] by simp
    with less.prems show ?thesis by blast
  next
    case True
    from jsmn_round_good [OF less.prems, of js d] True consider
      (err) e where "jsmn_round js parser (Some toks) (d + toknext parser) = Some (Inl e)"
    | (ok) parser1 toks1 where "jsmn_round js parser (Some toks) (d + toknext parser)
          = Some (Inr (parser1, Some toks1, d + toknext parser1))"
        "jsmn_inv (pos parser1 + 1) parser1 toks1" "length toks1 = length toks"
      unfolding jsmn_round_good_def by blast
    then show ?thesis
    proof cases
      case err
      with True show ?thesis by (simp add: jsmn_loop.simps [of js parser])
    next
      case ok
      let ?p = "parser1\<lparr>pos := pos parser1 + 1\<rparr>"
      have "pos parser \<le> pos parser1" using jsmn_round_pos [OF ok(1)] True by simp
      with True have "length js - pos ?p < length js - pos parser" by (auto intro: diff_less_mono2)
      moreover have "jsmn_loop js parser (Some toks) (d + toknext parser)
          = jsmn_loop js ?p (Some toks1) (d + toknext ?p)"
        using True ok(1) by (simp add: jsmn_loop.simps [of js parser])
      ultimately show ?thesis using less.hyps [of ?p toks1] ok(2,3) by simp
    qed
  qed
qed

section \<open>Counting without an array\<close>

lemma jsmn_round_null:
  assumes "jsmn_round js parser (Some toks) count = Some (Inr (parser1, tokens1, count1))"
    and "pos parser' = pos parser"
  shows "\<exists>parser1'. jsmn_round js parser' None count = Some (Inr (parser1', None, count1))
    \<and> pos parser1' = pos parser1"
  using assms(1)
proof (cases rule: jsmn_round_Inr)
  case opens
  with assms(2) jsmn_open_pos [OF opens(2)] show ?thesis
    unfolding jsmn_round_def Let_def by (simp add: jsmn_open_def)
next
  case closes
  then have nb: "\<not> (js ! pos parser = CHR ''{'' \<or> js ! pos parser = CHR ''['')" by auto
  note unf = jsmn_round_def [of js parser', unfolded Let_def assms(2) if_not_P [OF nb] if_P [OF closes(1)]]
  from assms(2) jsmn_close_pos [OF closes(2)] closes(3) show ?thesis
    by (simp add: unf jsmn_close_def)
next
  case (string tokens2)
  have "\<exists>parser1'. jsmn_parse_string parser' js None = (None, parser1', None) \<and> pos parser1' = pos parser1"
    using string(2) assms(2)
    by (auto simp: jsmn_parse_string_def split: sum.split_asm option.split_asm prod.split_asm)
  with string assms(2) show ?thesis by (auto simp: jsmn_round_def jsmn_super_size_def)
next
  case white
  with assms(2) show ?thesis by (auto simp: jsmn_round_def)
next
  case colon
  with assms(2) show ?thesis by (simp add: jsmn_round_def)
next
  case comma
  with assms(2) jsmn_comma_pos [OF comma(2)] show ?thesis by (simp add: jsmn_round_def jsmn_comma_def)
next
  case (primitive tokens2)
  have "\<exists>parser1'. jsmn_parse_primitive parser' js None = (None, parser1', None) \<and> pos parser1' = pos parser1"
    using primitive(2) assms(2)
    by (auto simp: jsmn_parse_primitive_def split: option.split_asm prod.split_asm)
  moreover note jsmn_round_prim [of js parser', OF primitive(1) [folded assms(2)], of None count]
  ultimately show ?thesis using primitive(4) by (auto simp: jsmn_super_size_def)
qed

lemma jsmn_loop_null:
  assumes "jsmn_loop js parser (Some toks) count = Some (Inr (parser1, Some toks1, count1))"
    and "pos parser' = pos parser" "jsmn_inv (pos parser) parser toks" "count = d + toknext parser"
  shows "\<exists>parser1'. jsmn_loop js parser' None count = Some (Inr (parser1', None, count1))"
  using assms
proof (induction "length js - pos parser" arbitrary: parser toks count parser' rule: less_induct)
  case less
  show ?case
  proof (cases "pos parser < length js \<and> js ! pos parser \<noteq> NUL")
    case False
    have False': "\<not> (pos parser' < length js \<and> js ! pos parser' \<noteq> NUL)" using False less.prems(2) by simp
    from less.prems(1) show ?thesis
      unfolding jsmn_loop.simps [of js parser] jsmn_loop.simps [of js parser'] if_not_P [OF False]
        if_not_P [OF False'] by simp
  next
    case True
    have True': "pos parser' < length js \<and> js ! pos parser' \<noteq> NUL" using True less.prems(2) by simp
    from less.prems(1) True obtain r where r: "jsmn_round js parser (Some toks) count = Some r"
      unfolding jsmn_loop.simps [of js parser] by (auto elim!: bindE)
    from jsmn_round_good [OF less.prems(3), of js d] True r less.prems(1,4)
    obtain parser2 toks2 where ok: "r = Inr (parser2, Some toks2, d + toknext parser2)"
      "jsmn_inv (pos parser2 + 1) parser2 toks2"
      unfolding jsmn_loop.simps [of js parser] jsmn_round_good_def by auto
    let ?p = "parser2\<lparr>pos := pos parser2 + 1\<rparr>"
    have rest: "jsmn_loop js ?p (Some toks2) (d + toknext parser2) = Some (Inr (parser1, Some toks1, count1))"
      using less.prems(1) True r ok(1) unfolding jsmn_loop.simps [of js parser] by simp
    obtain parser2' where n: "jsmn_round js parser' None count = Some (Inr (parser2', None, d + toknext parser2))"
      "pos parser2' = pos parser2"
      using jsmn_round_null [OF r [unfolded ok(1)] less.prems(2)] by blast
    have "pos parser \<le> pos parser2" using jsmn_round_pos r ok(1) True by blast
    with True have "length js - pos ?p < length js - pos parser" by (auto intro: diff_less_mono2)
    from less.hyps [OF this rest, of "parser2'\<lparr>pos := pos parser2' + 1\<rparr>"] n ok(2)
    show ?thesis unfolding jsmn_loop.simps [of js parser'] if_P [OF True'] by simp
  qed
qed

lemma jsmn_loop_pos:
  "jsmn_loop js parser tokens count = Some (Inr (parser1, tokens1, count1)) \<Longrightarrow> pos parser \<le> length js \<Longrightarrow>
    pos parser1 \<le> length js"
proof (induction js parser tokens count rule: jsmn_loop.induct)
  case (1 js parser tokens count)
  show ?case
  proof (cases "pos parser < length js \<and> js ! pos parser \<noteq> NUL")
    case False
    with "1.prems" show ?thesis unfolding jsmn_loop.simps [of js parser] if_not_P [OF False] by simp
  next
    case True
    from "1.prems"(1) obtain r where r: "jsmn_round js parser tokens count = Some r"
      "(case r of Inl e \<Rightarrow> Some (Inl e) | Inr (parser1, tokens1, count1) \<Rightarrow>
          jsmn_loop js (parser1\<lparr>pos := pos parser1 + 1\<rparr>) tokens1 count1) = Some (Inr (parser1, tokens1, count1))"
      unfolding jsmn_loop.simps [of js parser] if_P [OF True] by (elim bindE) blast
    then obtain parser2 tokens2 count2 where r2: "r = Inr (parser2, tokens2, count2)"
      "jsmn_loop js (parser2\<lparr>pos := pos parser2 + 1\<rparr>) tokens2 count2 = Some (Inr (parser1, tokens1, count1))"
      by (auto split: sum.split_asm)
    have "pos parser2 < length js" using jsmn_round_pos r(1) r2(1) True by blast
    with "1.IH" [OF True r(1) r2(1) refl refl] r2(2) show ?thesis by simp
  qed
qed

section \<open>Properties\<close>

text \<open>
  C8. Started on any token array, \<open>jsmn_parse\<close> returns without touching a cell outside the
  array. When it succeeds, the count it returns is at most the size of the array, and the
  tokens counted are closed, start and end in the text, are sorted by where they start, and
  have an earlier token, or none, as their parent.
\<close>

theorem jsmn_parse_safe:
  "\<exists>r. jsmn_parse jsmn_init js (Some toks) = Some r \<and>
     (\<forall>n toks'. r = Inr (n, toks') \<longrightarrow> (\<exists>ts. toks' = Some ts \<and> length ts = length toks \<and> n \<le> length toks \<and>
        starts_sorted n ts \<and>
        (\<forall>i < n. -1 \<le> tok_parent (ts ! i) \<and> tok_parent (ts ! i) < int i \<and> 0 \<le> tok_start (ts ! i)
           \<and> tok_start (ts ! i) \<le> tok_end (ts ! i) \<and> tok_end (ts ! i) \<le> int (length js))))"
proof -
  from jsmn_loop_good [OF jsmn_inv_init [of toks, folded jsmn_init_pos], of js 0]
  consider (err) e where "jsmn_loop js jsmn_init (Some toks) 0 = Some (Inl e)"
    | (ok) parser1 toks1 where "jsmn_loop js jsmn_init (Some toks) 0 = Some (Inr (parser1, Some toks1, toknext parser1))"
        "jsmn_inv (pos parser1) parser1 toks1" "length toks1 = length toks"
    by (auto simp: jsmn_init_def)
  then show ?thesis
  proof cases
    case err
    then show ?thesis by (simp add: jsmn_parse_def jsmn_init_def)
  next
    case ok
    have le: "pos parser1 \<le> length js" using jsmn_loop_pos [OF ok(1)] by (simp add: jsmn_init_def)
    have closed: "tok_end (toks1 ! i) \<noteq> -1"
      if "\<not> jsmn_unmatched (toknext parser1) toks1" "i < toknext parser1" for i
    proof -
      have "tok_ok (pos parser1) i (toks1 ! i)" "i < length (take (toknext parser1) toks1)"
        using ok(2) that(2) by (simp_all add: jsmn_inv_def)
      with that show ?thesis
        unfolding jsmn_unmatched_def list_ex_length tok_ok_def by force
    qed
    have "-1 \<le> tok_parent (toks1 ! i) \<and> tok_parent (toks1 ! i) < int i \<and> 0 \<le> tok_start (toks1 ! i)
        \<and> tok_start (toks1 ! i) \<le> tok_end (toks1 ! i) \<and> tok_end (toks1 ! i) \<le> int (length js)"
      if "\<not> jsmn_unmatched (toknext parser1) toks1" "i < toknext parser1" for i
      using ok(2) closed [OF that] that(2) le by (force simp: jsmn_inv_def tok_ok_def)
    with ok show ?thesis by (auto simp: jsmn_parse_def jsmn_init_def jsmn_inv_def)
  qed
qed

definition jsmntok0 :: jsmntok_t where
  "jsmntok0 = \<lparr>tok_type = JSMN_UNDEFINED, tok_start = 7, tok_end = -1, tok_size = 9, tok_parent = 3\<rparr>"

lemma jsmn_parse_example:
  "jsmn_parse jsmn_init ''[1]'' (Some (replicate 3 jsmntok0)) = Some (Inr (2, Some
     [\<lparr>tok_type = JSMN_ARRAY, tok_start = 0, tok_end = 3, tok_size = 1, tok_parent = -1\<rparr>,
      \<lparr>tok_type = JSMN_PRIMITIVE, tok_start = 1, tok_end = 2, tok_size = 0, tok_parent = 0\<rparr>, jsmntok0]))"
  by code_simp

theorem jsmn_parse_safe_witness:
  "\<exists>ts. jsmn_parse jsmn_init ''[1]'' (Some (replicate 3 jsmntok0)) = Some (Inr (2, Some ts)) \<and> starts_sorted 2 ts
     \<and> tok_parent (ts ! 1) < 1"
  using jsmn_parse_safe [of "''[1]''" "replicate 3 jsmntok0"] jsmn_parse_example by fastforce

text \<open>
  C10. Sizing: whenever a text is parsed into an array with success, parsing it with no array
  returns the same count, so a first pass without an array tells how many tokens to provide.
\<close>

theorem jsmn_parse_sizing:
  assumes "jsmn_parse jsmn_init js (Some toks) = Some (Inr (n, toks'))"
  shows "jsmn_parse jsmn_init js None = Some (Inr (n, None))"
proof -
  from jsmn_loop_good [OF jsmn_inv_init [of toks, folded jsmn_init_pos], of js 0] assms
  obtain parser1 toks1 where l: "jsmn_loop js jsmn_init (Some toks) 0 = Some (Inr (parser1, Some toks1, n))"
    by (auto simp: jsmn_parse_def jsmn_init_def elim!: bind_checkE split: if_split_asm)
  have "\<exists>parser1'. jsmn_loop js jsmn_init None 0 = Some (Inr (parser1', None, n))"
    by (rule jsmn_loop_null [OF l refl jsmn_inv_init [of toks, folded jsmn_init_pos], of 0])
      (simp add: jsmn_init_def)
  then show ?thesis by (auto simp: jsmn_parse_def jsmn_init_def)
qed

theorem jsmn_parse_sizing_witness:
  "jsmn_parse jsmn_init ''[1]'' None = Some (Inr (2, None))"
  using jsmn_parse_sizing [OF jsmn_parse_example] .

end
