(* ===== verification/Jsmn_Tree.thy ===== *)
theory Jsmn_Tree
  imports Jsmn_Spec
begin

text \<open>
  What the tokeniser yields for a text that is JSON: values as a datatype, the text of a value and
  the tokens of that text. \<open>jsmn_parse\<close> turns the one into the other.
\<close>

section \<open>Values, their text and their tokens\<close>

datatype jvalue = JPrim string | JStr string | JArr "jvalue list" | JObj "(string \<times> jvalue) list"

abbreviation jmeasure :: "jvalue + jvalue list + (string \<times> jvalue) list \<Rightarrow> nat" where
  "jmeasure \<equiv> case_sum size (case_sum (size_list size) (size_list (size_prod (\<lambda>_. 0) size)))"

function (sequential) jren :: "jvalue \<Rightarrow> string"
  and jren_list :: "jvalue list \<Rightarrow> string"
  and jren_kvs :: "(string \<times> jvalue) list \<Rightarrow> string" where
  "jren (JPrim s) = s"
| "jren (JStr s) = DQUOTE # s @ [DQUOTE]"
| "jren (JArr vs) = CHR ''['' # jren_list vs @ '']''"
| "jren (JObj kvs) = CHR ''{'' # jren_kvs kvs @ ''}''"
| "jren_list [] = []"
| "jren_list (v # vs) = jren v @ (if vs = [] then [] else CHR '','' # jren_list vs)"
| "jren_kvs [] = []"
| "jren_kvs ((k, v) # kvs) =
     DQUOTE # k @ DQUOTE # CHR '':'' # jren v @ (if kvs = [] then [] else CHR '','' # jren_kvs kvs)"
  by pat_completeness auto
termination by (relation "measure jmeasure") auto

function (sequential) jcount :: "jvalue \<Rightarrow> nat"
  and jcount_list :: "jvalue list \<Rightarrow> nat"
  and jcount_kvs :: "(string \<times> jvalue) list \<Rightarrow> nat" where
  "jcount (JPrim s) = 1"
| "jcount (JStr s) = 1"
| "jcount (JArr vs) = 1 + jcount_list vs"
| "jcount (JObj kvs) = 1 + jcount_kvs kvs"
| "jcount_list [] = 0"
| "jcount_list (v # vs) = jcount v + jcount_list vs"
| "jcount_kvs [] = 0"
| "jcount_kvs ((k, v) # kvs) = 1 + jcount v + jcount_kvs kvs"
  by pat_completeness auto
termination by (relation "measure jmeasure") auto

text \<open>The tokens of a value whose text starts at \<open>p\<close>, the first of them being the \<open>n\<close>-th.\<close>

definition mk_tok :: "jsmntype_t \<Rightarrow> nat \<Rightarrow> nat \<Rightarrow> nat \<Rightarrow> int \<Rightarrow> jsmntok_t" where
  "mk_tok ty b e sz par = \<lparr>tok_type = ty, tok_start = int b, tok_end = int e, tok_size = sz, tok_parent = par\<rparr>"

function (sequential) jtoks :: "jvalue \<Rightarrow> nat \<Rightarrow> nat \<Rightarrow> int \<Rightarrow> jsmntok_t list"
  and jtoks_list :: "jvalue list \<Rightarrow> nat \<Rightarrow> nat \<Rightarrow> int \<Rightarrow> jsmntok_t list"
  and jtoks_kvs :: "(string \<times> jvalue) list \<Rightarrow> nat \<Rightarrow> nat \<Rightarrow> int \<Rightarrow> jsmntok_t list" where
  "jtoks (JPrim s) p n par = [mk_tok JSMN_PRIMITIVE p (p + length s) 0 par]"
| "jtoks (JStr s) p n par = [mk_tok JSMN_STRING (p + 1) (p + 1 + length s) 0 par]"
| "jtoks (JArr vs) p n par =
     mk_tok JSMN_ARRAY p (p + length (jren (JArr vs))) (length vs) par # jtoks_list vs (p + 1) (n + 1) (int n)"
| "jtoks (JObj kvs) p n par =
     mk_tok JSMN_OBJECT p (p + length (jren (JObj kvs))) (length kvs) par # jtoks_kvs kvs (p + 1) (n + 1) (int n)"
| "jtoks_list [] p n par = []"
| "jtoks_list (v # vs) p n par =
     jtoks v p n par @ jtoks_list vs (p + length (jren v) + 1) (n + jcount v) par"
| "jtoks_kvs [] p n par = []"
| "jtoks_kvs ((k, v) # kvs) p n par =
     mk_tok JSMN_STRING (p + 1) (p + 1 + length k) 1 par # jtoks v (p + length k + 3) (n + 1) (int n) @
     jtoks_kvs kvs (p + length k + length (jren v) + 4) (n + 1 + jcount v) par"
  by pat_completeness auto
termination
  by (relation "measure (\<lambda>x. jmeasure (case x of Inl (v, _) \<Rightarrow> Inl v | Inr (Inl (vs, _)) \<Rightarrow> Inr (Inl vs)
      | Inr (Inr (kvs, _)) \<Rightarrow> Inr (Inr kvs)))") auto

lemma jtoks_count [simp]:
  "length (jtoks v p n par) = jcount v"
  "length (jtoks_list vs p n par) = jcount_list vs"
  "length (jtoks_kvs kvs p n par) = jcount_kvs kvs"
  by (induction v p n par and vs p n par and kvs p n par rule: jtoks_jtoks_list_jtoks_kvs.induct) simp_all

section \<open>Texts of primitives and strings\<close>

definition jdelims :: "char set" where
  "jdelims = {CHR '':'', TAB, CR, LF, CHR '' '', CHR '','', CHR '']'', CHR ''}''}"

definition prim_char :: "char \<Rightarrow> bool" where
  "prim_char c \<longleftrightarrow> c \<notin> jdelims \<and> (32 :: nat) \<le> of_char c \<and> of_char c < (127 :: nat)"

definition prim_ok :: "string \<Rightarrow> bool" where
  "prim_ok s \<longleftrightarrow> s \<noteq> [] \<and> (\<forall>c \<in> set s. prim_char c) \<and> hd s \<notin> {CHR ''{'', CHR ''['', DQUOTE}"

definition str_ok :: "string \<Rightarrow> bool" where
  "str_ok s \<longleftrightarrow> DQUOTE \<notin> set s \<and> CHR 0x5C \<notin> set s \<and> NUL \<notin> set s"

function (sequential) jok :: "jvalue \<Rightarrow> bool"
  and jok_list :: "jvalue list \<Rightarrow> bool"
  and jok_kvs :: "(string \<times> jvalue) list \<Rightarrow> bool" where
  "jok (JPrim s) = prim_ok s"
| "jok (JStr s) = str_ok s"
| "jok (JArr vs) = jok_list vs"
| "jok (JObj kvs) = jok_kvs kvs"
| "jok_list [] = True"
| "jok_list (v # vs) = (jok v \<and> jok_list vs)"
| "jok_kvs [] = True"
| "jok_kvs ((k, v) # kvs) = (str_ok k \<and> jok v \<and> jok_kvs kvs)"
  by pat_completeness auto
termination by (relation "measure jmeasure") auto

lemma jsmn_prim_scan_text:
  assumes "post = [] \<or> hd post \<in> jdelims"
  shows "js = pre @ s @ post \<Longrightarrow> \<forall>c \<in> set s. prim_char c \<Longrightarrow>
    jsmn_prim_scan js (length pre) = Some (length pre + length s)"
proof (induction s arbitrary: pre)
  case Nil
  then have js: "js = pre @ post" by simp
  show ?case
  proof (cases post)
    case Nil
    then show ?thesis by (subst jsmn_prim_scan.simps) (simp add: js)
  next
    case (Cons d ps)
    with assms have "d \<in> jdelims" by simp
    then show ?thesis
      by (subst jsmn_prim_scan.simps) (auto simp: js Cons nth_append jdelims_def)
  qed
next
  case (Cons c s)
  then have c: "prim_char c" "js ! length pre = c" "length pre < length js" by (simp_all add: nth_append)
  have "of_char c \<noteq> (0 :: nat)" using c(1) by (auto simp: prim_char_def)
  then have "c \<noteq> NUL" by auto
  with c Cons.IH [of "pre @ [c]"] Cons.prems show ?case
    by (subst jsmn_prim_scan.simps) (auto simp: prim_char_def jdelims_def)
qed

lemma jsmn_str_scan_text:
  "js = pre @ s @ DQUOTE # post \<Longrightarrow> str_ok s \<Longrightarrow> jsmn_str_scan js (length pre) = Inr (length pre + length s)"
proof (induction s arbitrary: pre)
  case Nil
  then show ?case by (subst jsmn_str_scan.simps) (simp add: nth_append)
next
  case (Cons c s)
  then have c: "js ! length pre = c" "length pre < length js" by (simp_all add: nth_append)
  moreover have "c \<noteq> DQUOTE" "c \<noteq> CHR 0x5C" "c \<noteq> NUL" "str_ok s" using Cons.prems(2) by (auto simp: str_ok_def)
  ultimately show ?case
    using Cons.IH [of "pre @ [c]"] Cons.prems(1)
    by (subst jsmn_str_scan.simps) simp
qed

section \<open>Steps of the loop\<close>

definition mk_parser :: "nat \<Rightarrow> nat \<Rightarrow> int \<Rightarrow> jsmn_parser" where
  "mk_parser p n par = \<lparr>pos = p, toknext = n, toksuper = par\<rparr>"

lemma mk_parser_simps [simp]:
  "pos (mk_parser p n par) = p" "toknext (mk_parser p n par) = n" "toksuper (mk_parser p n par) = par"
  "(mk_parser p n par)\<lparr>pos := q\<rparr> = mk_parser q n par"
  "(mk_parser p n par)\<lparr>toknext := k\<rparr> = mk_parser p k par"
  "(mk_parser p n par)\<lparr>toksuper := i\<rparr> = mk_parser p n i"
  by (simp_all add: mk_parser_def)

lemma mk_tok_simps [simp]:
  "tok_type (mk_tok ty b e sz par) = ty" "tok_start (mk_tok ty b e sz par) = int b"
  "tok_end (mk_tok ty b e sz par) = int e" "tok_size (mk_tok ty b e sz par) = sz"
  "tok_parent (mk_tok ty b e sz par) = par"
  by (simp_all add: mk_tok_def)

text \<open>What the tokens in a token add to its size; -1 stands for no token.\<close>

definition add_size :: "nat \<Rightarrow> int \<Rightarrow> jsmntok_t list \<Rightarrow> jsmntok_t list" where
  "add_size k par toks =
     (if par = -1 then toks else toks[nat par := (toks ! nat par)\<lparr>tok_size := tok_size (toks ! nat par) + k\<rparr>])"

definition par_ok :: "int \<Rightarrow> nat \<Rightarrow> bool" where
  "par_ok par n \<longleftrightarrow> par = -1 \<or> 0 \<le> par \<and> nat par < n"

lemma length_add_size [simp]: "length (add_size k par toks) = length toks"
  by (simp add: add_size_def)

lemma add_size_append: "par_ok par (length xs) \<Longrightarrow> add_size k par (xs @ ys) = add_size k par xs @ ys"
  by (auto simp: add_size_def par_ok_def list_update_append nth_append)

lemma add_size_add: "par_ok par (length xs) \<Longrightarrow> add_size j par (add_size k par xs) = add_size (k + j) par xs"
  by (auto simp: add_size_def par_ok_def add.assoc)

lemma add_size_last: "add_size k (int (length dn)) (dn @ t # rest) = dn @ t\<lparr>tok_size := tok_size t + k\<rparr> # rest"
  by (simp add: add_size_def nth_append)

lemma jsmn_super_size_eq:
  assumes "par_ok (toksuper parser) (length toks)"
  shows "jsmn_super_size parser (Some toks) = Some (Some (add_size 1 (toksuper parser) toks))"
  using assms by (auto simp: jsmn_super_size_def par_ok_def tok_upd_def add_size_def)

lemma jsmn_loop_step:
  assumes "jsmn_round js parser toks c = Some (Inr (parser1, toks1, c1))"
    and "pos parser < length js" "js ! pos parser \<noteq> NUL"
  shows "jsmn_loop js parser toks c = jsmn_loop js (parser1\<lparr>pos := pos parser1 + 1\<rparr>) toks1 c1"
  using assms by (subst jsmn_loop.simps) simp

lemma jsmn_alloc_next:
  "jsmn_alloc_token (mk_parser p (length dn) par) (dn @ r # rest) =
     Some (length dn, mk_parser p (length dn + 1) par,
       dn @ r\<lparr>tok_start := -1, tok_end := -1, tok_size := 0, tok_parent := -1\<rparr> # rest)"
  by (simp add: jsmn_alloc_token_def Let_def nth_append)

definition delim_next :: "string \<Rightarrow> bool" where
  "delim_next post \<longleftrightarrow> post = [] \<or> hd post \<in> jdelims"

lemma jsmn_loop_prim:
  assumes "js = pre @ s @ post" "prim_ok s" "delim_next post" "par_ok par (length dn)"
  shows "jsmn_loop js (mk_parser (length pre) (length dn) par) (Some (dn @ r # rest)) c =
    jsmn_loop js (mk_parser (length pre + length s) (length dn + 1) par)
      (Some (add_size 1 par dn @ mk_tok JSMN_PRIMITIVE (length pre) (length pre + length s) 0 par # rest)) (c + 1)"
proof -
  obtain d ds where s: "s = d # ds" using assms(2) by (cases s) (auto simp: prim_ok_def)
  have d: "js ! length pre = d" "length pre < length js" using assms(1) s by (simp_all add: nth_append)
  have dp: "prim_char d" "d \<notin> {CHR ''{'', CHR ''['', DQUOTE}" using assms(2) s by (simp_all add: prim_ok_def)
  then have "of_char d \<noteq> (0 :: nat)" by (auto simp: prim_char_def)
  then have nul: "d \<noteq> NUL" by auto
  have scan: "jsmn_prim_scan js (length pre) = Some (length pre + length s)"
    using jsmn_prim_scan_text [of post js pre s] assms(1-3) by (auto simp: prim_ok_def delim_next_def)
  have prim: "jsmn_parse_primitive (mk_parser (length pre) (length dn) par) js (Some (dn @ r # rest)) =
      (None, mk_parser (length pre + length s - 1) (length dn + 1) par,
       Some (dn @ mk_tok JSMN_PRIMITIVE (length pre) (length pre + length s) 0 par # rest))"
    using scan by (simp add: jsmn_parse_primitive_def jsmn_alloc_next mk_tok_def)
  have par: "par_ok par (length (dn @ mk_tok JSMN_PRIMITIVE (length pre) (length pre + length s) 0 par # rest))"
    using assms(4) by (auto simp: par_ok_def)
  have "jsmn_round js (mk_parser (length pre) (length dn) par) (Some (dn @ r # rest)) c =
      Some (Inr (mk_parser (length pre + length s - 1) (length dn + 1) par,
        Some (add_size 1 par dn @ mk_tok JSMN_PRIMITIVE (length pre) (length pre + length s) 0 par # rest), c + 1))"
    using dp d par prim assms(4)
    by (subst jsmn_round_prim) (auto simp: prim_char_def jdelims_def jsmn_super_size_eq add_size_append)
  from jsmn_loop_step [OF this] d nul s show ?thesis by simp
qed

lemma jsmn_loop_str:
  assumes "js = pre @ DQUOTE # s @ DQUOTE # post" "str_ok s" "par_ok par (length dn)"
  shows "jsmn_loop js (mk_parser (length pre) (length dn) par) (Some (dn @ r # rest)) c =
    jsmn_loop js (mk_parser (length pre + length s + 2) (length dn + 1) par)
      (Some (add_size 1 par dn @ mk_tok JSMN_STRING (length pre + 1) (length pre + 1 + length s) 0 par # rest)) (c + 1)"
proof -
  have d: "js ! length pre = DQUOTE" "length pre < length js" using assms(1) by (simp_all add: nth_append)
  have scan: "jsmn_str_scan js (length pre + 1) = Inr (length pre + 1 + length s)"
    using jsmn_str_scan_text [of js "pre @ [DQUOTE]" s post] assms(1,2) by simp
  have str: "jsmn_parse_string (mk_parser (length pre) (length dn) par) js (Some (dn @ r # rest)) =
      (None, mk_parser (length pre + 1 + length s) (length dn + 1) par,
       Some (dn @ mk_tok JSMN_STRING (length pre + 1) (length pre + 1 + length s) 0 par # rest))"
    using scan by (simp add: jsmn_parse_string_def jsmn_alloc_next mk_tok_def)
  have par: "par_ok par (length (dn @ mk_tok JSMN_STRING (length pre + 1) (length pre + 1 + length s) 0 par # rest))"
    using assms(3) by (auto simp: par_ok_def)
  have "jsmn_round js (mk_parser (length pre) (length dn) par) (Some (dn @ r # rest)) c =
      Some (Inr (mk_parser (length pre + 1 + length s) (length dn + 1) par,
        Some (add_size 1 par dn @ mk_tok JSMN_STRING (length pre + 1) (length pre + 1 + length s) 0 par # rest), c + 1))"
    using d par str assms(3) by (simp add: jsmn_round_def Let_def jsmn_super_size_eq add_size_append)
  from jsmn_loop_step [OF this] d show ?thesis by simp
qed

definition open_tok :: "char \<Rightarrow> nat \<Rightarrow> int \<Rightarrow> jsmntok_t" where
  "open_tok c p par = \<lparr>tok_type = (if c = CHR ''{'' then JSMN_OBJECT else JSMN_ARRAY),
     tok_start = int p, tok_end = -1, tok_size = 0, tok_parent = par\<rparr>"

lemma jsmn_loop_open:
  assumes "js = pre @ b # post" "b = CHR ''{'' \<or> b = CHR ''[''" "par_ok par (length dn)"
  shows "jsmn_loop js (mk_parser (length pre) (length dn) par) (Some (dn @ r # rest)) c =
    jsmn_loop js (mk_parser (length pre + 1) (length dn + 1) (int (length dn)))
      (Some (add_size 1 par dn @ open_tok b (length pre) par # rest)) (c + 1)"
proof -
  have d: "js ! length pre = b" "length pre < length js" "b \<noteq> NUL" using assms(1,2) by (auto simp: nth_append)
  have "jsmn_open (mk_parser (length pre) (length dn) par) b (Some (dn @ r # rest)) =
      Some (Inr (mk_parser (length pre) (length dn + 1) (int (length dn)),
        Some (add_size 1 par dn @ open_tok b (length pre) par # rest)))"
    using assms(3)
    by (cases r) (auto simp: jsmn_open_def jsmn_alloc_next par_ok_def tok_upd_def add_size_def open_tok_def
        nth_append list_update_append)
  then have "jsmn_round js (mk_parser (length pre) (length dn) par) (Some (dn @ r # rest)) c =
      Some (Inr (mk_parser (length pre) (length dn + 1) (int (length dn)),
        Some (add_size 1 par dn @ open_tok b (length pre) par # rest), c + 1))"
    using assms(2) d by (auto simp: jsmn_round_def Let_def)
  from jsmn_loop_step [OF this] d show ?thesis by simp
qed

text \<open>Tokens inside of the \<open>m\<close>-th: closed, with a parent inside or \<open>m\<close> itself.\<close>

fun inside :: "nat \<Rightarrow> nat \<Rightarrow> jsmntok_t list \<Rightarrow> bool" where
  "inside m n [] = True"
| "inside m n (t # ts) =
     (tok_end t \<noteq> -1 \<and> int m \<le> tok_parent t \<and> tok_parent t < int n \<and> inside m (n + 1) ts)"

lemma inside_append: "inside m n (xs @ ys) \<longleftrightarrow> inside m n xs \<and> inside m (n + length xs) ys"
  by (induction xs arbitrary: n) auto

lemma inside_nth:
  "inside m n toks \<Longrightarrow> k < length toks \<Longrightarrow>
    tok_end (toks ! k) \<noteq> -1 \<and> int m \<le> tok_parent (toks ! k) \<and> tok_parent (toks ! k) < int (n + k)"
  by (induction toks arbitrary: n k) (fastforce simp: nth_Cons split: nat.splits)+

lemma jtoks_inside:
  "m < n \<Longrightarrow> int m \<le> par \<Longrightarrow> par < int n \<Longrightarrow> inside m n (jtoks v p n par)"
  "m < n \<Longrightarrow> int m \<le> par \<Longrightarrow> par < int n \<Longrightarrow> inside m n (jtoks_list vs p n par)"
  "m < n \<Longrightarrow> int m \<le> par \<Longrightarrow> par < int n \<Longrightarrow> inside m n (jtoks_kvs kvs p n par)"
  by (induction v p n par and vs p n par and kvs p n par rule: jtoks_jtoks_list_jtoks_kvs.induct)
    (simp_all add: inside_append)

lemma jsmn_close_walk_reaches:
  assumes "\<forall>k. m < k \<and> k \<le> i \<longrightarrow> tok_end (toks ! k) \<noteq> -1 \<and> int m \<le> tok_parent (toks ! k) \<and> tok_parent (toks ! k) < int k"
    and "m \<le> i" "i < length toks" "tok_start (toks ! m) \<noteq> -1" "tok_end (toks ! m) = -1" "tok_type (toks ! m) = ty"
    and "i < m + fuel"
  shows "jsmn_close_walk fuel parser ty toks (int i) =
    Some (Inr (parser\<lparr>toksuper := tok_parent (toks ! m)\<rparr>, toks[m := (toks ! m)\<lparr>tok_end := int (pos parser) + 1\<rparr>]))"
  using assms
proof (induction fuel arbitrary: i)
  case 0
  then show ?case by simp
next
  case (Suc fuel)
  show ?case
  proof (cases "i = m")
    case True
    with Suc.prems show ?thesis by (simp add: tok_at_def tok_upd_def)
  next
    case False
    with Suc.prems(1,2) have i: "tok_end (toks ! i) \<noteq> -1" "int m \<le> tok_parent (toks ! i)" "tok_parent (toks ! i) < int i"
      by auto
    then obtain j where j: "tok_parent (toks ! i) = int j" "m \<le> j" "j < i" by (metis nat_0_le of_nat_le_iff of_nat_less_iff of_nat_0_le_iff order_trans)
    from Suc.IH [of j] Suc.prems j i show ?thesis by (simp add: tok_at_def)
  qed
qed

lemma jsmn_loop_close:
  assumes "js = pre @ b # post" "b = CHR ''}'' \<or> b = CHR '']''" "inside (length dn) (length dn + 1) ts"
    and "tok_start t \<noteq> -1" "tok_end t = -1" "tok_type t = (if b = CHR ''}'' then JSMN_OBJECT else JSMN_ARRAY)"
  shows "jsmn_loop js (mk_parser (length pre) (length dn + 1 + length ts) par) (Some (dn @ t # ts @ rest)) c =
    jsmn_loop js (mk_parser (length pre + 1) (length dn + 1 + length ts) (tok_parent t))
      (Some (dn @ t\<lparr>tok_end := int (length pre + 1)\<rparr> # ts @ rest)) c"
proof -
  let ?toks = "dn @ t # ts @ rest" and ?n = "length dn + length ts"
  have d: "js ! length pre = b" "length pre < length js" "b \<noteq> NUL" using assms(1,2) by (auto simp: nth_append)
  have "tok_end (?toks ! k) \<noteq> -1 \<and> int (length dn) \<le> tok_parent (?toks ! k) \<and> tok_parent (?toks ! k) < int k"
    if "length dn < k" "k \<le> ?n" for k
  proof -
    from that obtain j where j: "k = length dn + Suc j" "j < length ts"
      using less_imp_Suc_add by fastforce
    then have "?toks ! k = ts ! j" by (simp add: nth_append)
    with inside_nth [OF assms(3) j(2)] j(1) show ?thesis by simp
  qed
  then have "jsmn_close_walk (?n + 1) (mk_parser (length pre) (?n + 1) par)
      (if b = CHR ''}'' then JSMN_OBJECT else JSMN_ARRAY) ?toks (int ?n) =
      Some (Inr (mk_parser (length pre) (?n + 1) (tok_parent t), dn @ t\<lparr>tok_end := int (length pre + 1)\<rparr> # ts @ rest))"
    using assms(4-6) jsmn_close_walk_reaches [of "length dn" ?n ?toks _ "?n + 1"] by (simp add: nth_append add.commute)
  then have "jsmn_close (mk_parser (length pre) (?n + 1) par) b (Some ?toks) =
      Some (Inr (mk_parser (length pre) (?n + 1) (tok_parent t),
        Some (dn @ t\<lparr>tok_end := int (length pre + 1)\<rparr> # ts @ rest)))"
    by (simp add: jsmn_close_def)
  moreover have "b \<noteq> CHR ''{''" "b \<noteq> CHR ''[''" using assms(2) by auto
  ultimately have "jsmn_round js (mk_parser (length pre) (?n + 1) par) (Some ?toks) c =
      Some (Inr (mk_parser (length pre) (?n + 1) (tok_parent t),
        Some (dn @ t\<lparr>tok_end := int (length pre + 1)\<rparr> # ts @ rest), c))"
    using assms(2) d by (simp add: jsmn_round_def Let_def)
  from jsmn_loop_step [OF this] d show ?thesis by (simp add: add.commute add.left_commute)
qed

lemma jsmn_loop_comma:
  assumes "js = pre @ CHR '','' # post" "0 \<le> par" "nat par < length toks"
  shows "jsmn_loop js (mk_parser (length pre) n par) (Some toks) c =
    jsmn_loop js (mk_parser (length pre + 1) n
      (if tok_type (toks ! nat par) \<in> {JSMN_ARRAY, JSMN_OBJECT} then par else tok_parent (toks ! nat par))) (Some toks) c"
proof -
  have d: "js ! length pre = CHR '',''" "length pre < length js" using assms(1) by (auto simp: nth_append)
  have "jsmn_round js (mk_parser (length pre) n par) (Some toks) c = Some (Inr (mk_parser (length pre) n
      (if tok_type (toks ! nat par) \<in> {JSMN_ARRAY, JSMN_OBJECT} then par else tok_parent (toks ! nat par)), Some toks, c))"
    using assms(2,3) d by (simp add: jsmn_round_def Let_def jsmn_comma_def tok_at_def)
  from jsmn_loop_step [OF this] d show ?thesis by simp
qed

lemma jsmn_loop_colon:
  assumes "js = pre @ CHR '':'' # post"
  shows "jsmn_loop js (mk_parser (length pre) n par) toks c = jsmn_loop js (mk_parser (length pre + 1) n (int n - 1)) toks c"
proof -
  have d: "js ! length pre = CHR '':''" "length pre < length js" using assms(1) by (auto simp: nth_append)
  have "jsmn_round js (mk_parser (length pre) n par) toks c = Some (Inr (mk_parser (length pre) n (int n - 1), toks, c))"
    using d by (simp add: jsmn_round_def Let_def)
  from jsmn_loop_step [OF this] d show ?thesis by simp
qed

lemma jsmn_loop_container:
  assumes js: "js = pre @ b # mid @ e # post" and b: "b = CHR ''{'' \<and> e = CHR ''}'' \<or> b = CHR ''['' \<and> e = CHR '']''"
    and par: "par_ok par (length dn)" and ins: "inside (length dn) (length dn + 1) ts"
    and mid: "jsmn_loop js (mk_parser (length pre + 1) (length dn + 1) (int (length dn)))
        (Some (add_size 1 par dn @ open_tok b (length pre) par # rs)) (c + 1) =
      jsmn_loop js (mk_parser (length pre + 1 + length mid) (length dn + 1 + length ts) p)
        (Some (add_size 1 par dn @ (open_tok b (length pre) par)\<lparr>tok_size := sz\<rparr> # ts @ rest)) c2"
  shows "jsmn_loop js (mk_parser (length pre) (length dn) par) (Some (dn @ r # rs)) c =
    jsmn_loop js (mk_parser (length pre + length mid + 2) (length dn + 1 + length ts) par)
      (Some (add_size 1 par dn @ mk_tok (if b = CHR ''{'' then JSMN_OBJECT else JSMN_ARRAY) (length pre)
        (length pre + length mid + 2) sz par # ts @ rest)) c2"
proof -
  let ?t = "(open_tok b (length pre) par)\<lparr>tok_size := sz\<rparr>"
  define dn1 where "dn1 = add_size 1 par dn"
  have ld: "length dn1 = length dn" by (simp add: dn1_def)
  have js2: "js = (pre @ b # mid) @ e # post" using js by simp
  have e: "e = CHR ''}'' \<or> e = CHR '']''" "e = CHR ''}'' \<longleftrightarrow> b = CHR ''{''" using b by auto
  have t: "tok_start ?t \<noteq> -1" "tok_end ?t = -1"
    "tok_type ?t = (if e = CHR ''}'' then JSMN_OBJECT else JSMN_ARRAY)" "tok_parent ?t = par"
    using e(2) by (simp_all add: open_tok_def)
  have t2: "?t\<lparr>tok_end := int (length (pre @ b # mid) + 1)\<rparr> =
      mk_tok (if b = CHR ''{'' then JSMN_OBJECT else JSMN_ARRAY) (length pre) (length pre + length mid + 2) sz par"
    by (simp add: open_tok_def mk_tok_def)
  have "jsmn_loop js (mk_parser (length pre) (length dn) par) (Some (dn @ r # rs)) c =
      jsmn_loop js (mk_parser (length pre + 1 + length mid) (length dn + 1 + length ts) p)
        (Some (dn1 @ ?t # ts @ rest)) c2"
    unfolding dn1_def mid [symmetric] using b by (intro jsmn_loop_open [OF js _ par]) auto
  also have "\<dots> = jsmn_loop js (mk_parser (length (pre @ b # mid)) (length dn1 + 1 + length ts) p)
        (Some (dn1 @ ?t # ts @ rest)) c2" by (simp add: ld)
  also have "\<dots> = jsmn_loop js (mk_parser (length (pre @ b # mid) + 1) (length dn1 + 1 + length ts) (tok_parent ?t))
        (Some (dn1 @ ?t\<lparr>tok_end := int (length (pre @ b # mid) + 1)\<rparr> # ts @ rest)) c2"
    by (rule jsmn_loop_close [OF js2 e(1) _ t(1-3)]) (use ins ld in simp)
  finally show ?thesis unfolding t2 t(4) ld unfolding dn1_def by simp
qed

section \<open>Values\<close>

text \<open>
  What parsing a value, the rest of the values of an array, and the rest of the members of an
  object does. Behind the members of an object the superior token is that object or a key of it.
\<close>

lemma jsmn_loop_value:
  "js = pre @ jren v @ post \<Longrightarrow> jok v \<Longrightarrow> delim_next post \<Longrightarrow> par_ok par (length dn) \<Longrightarrow> jcount v \<le> length rest \<Longrightarrow>
    jsmn_loop js (mk_parser (length pre) (length dn) par) (Some (dn @ rest)) c =
    jsmn_loop js (mk_parser (length pre + length (jren v)) (length dn + jcount v) par)
      (Some (add_size 1 par dn @ jtoks v (length pre) (length dn) par @ drop (jcount v) rest)) (c + jcount v)"
  "js = pre @ jren_list vs @ '']'' @ post \<Longrightarrow> jok_list vs \<Longrightarrow> m < length dn \<Longrightarrow> tok_type (dn ! m) = JSMN_ARRAY \<Longrightarrow>
    jcount_list vs \<le> length rest \<Longrightarrow>
    jsmn_loop js (mk_parser (length pre) (length dn) (int m)) (Some (dn @ rest)) c =
    jsmn_loop js (mk_parser (length pre + length (jren_list vs)) (length dn + jcount_list vs) (int m))
      (Some (add_size (length vs) (int m) dn @ jtoks_list vs (length pre) (length dn) (int m) @ drop (jcount_list vs) rest))
      (c + jcount_list vs)"
  "js = pre @ jren_kvs kvs @ ''}'' @ post \<Longrightarrow> jok_kvs kvs \<Longrightarrow> m < length dn \<Longrightarrow> tok_type (dn ! m) = JSMN_OBJECT \<Longrightarrow>
    jcount_kvs kvs \<le> length rest \<Longrightarrow>
    \<exists>par. jsmn_loop js (mk_parser (length pre) (length dn) (int m)) (Some (dn @ rest)) c =
    jsmn_loop js (mk_parser (length pre + length (jren_kvs kvs)) (length dn + jcount_kvs kvs) par)
      (Some (add_size (length kvs) (int m) dn @ jtoks_kvs kvs (length pre) (length dn) (int m) @ drop (jcount_kvs kvs) rest))
      (c + jcount_kvs kvs)"
proof (induction v and vs and kvs arbitrary: pre post par dn rest c and pre post m dn rest c and pre post m dn rest c
    rule: jren_jren_list_jren_kvs.induct)
  case (1 s)
  then obtain r rs where "rest = r # rs" by (cases rest) auto
  with 1 jsmn_loop_prim [of js pre s post par dn r rs c] show ?case by simp
next
  case (2 s)
  then obtain r rs where "rest = r # rs" by (cases rest) auto
  with 2 jsmn_loop_str [of js pre s post par dn r rs c] show ?case by (simp add: add.assoc)
next
  case (3 vs)
  then obtain r rs where rest: "rest = r # rs" by (cases rest) auto
  define dn1 where "dn1 = add_size 1 par dn"
  define t where "t = open_tok (CHR ''['') (length pre) par"
  define ts where "ts = jtoks_list vs (length pre + 1) (length dn + 1) (int (length dn))"
  have ld: "length dn1 = length dn" by (simp add: dn1_def)
  have js: "js = pre @ CHR ''['' # jren_list vs @ CHR '']'' # post" using 3(2) by simp
  have sz: "add_size (length vs) (int (length dn)) (dn1 @ [t]) = dn1 @ [t\<lparr>tok_size := length vs\<rparr>]"
    using add_size_last [of "length vs" dn1 t "[]"] by (simp add: ld t_def open_tok_def)
  have "js = (pre @ ''['') @ jren_list vs @ '']'' @ post" "tok_type ((dn1 @ [t]) ! length dn) = JSMN_ARRAY"
    using js ld by (simp_all add: t_def open_tok_def nth_append)
  from 3(1) [OF this(1) _ _ this(2), of rs "c + 1"] 3(3,6) sz
  have mid: "jsmn_loop js (mk_parser (length pre + 1) (length dn + 1) (int (length dn)))
        (Some (add_size 1 par dn @ t # rs)) (c + 1) =
      jsmn_loop js (mk_parser (length pre + 1 + length (jren_list vs)) (length dn + 1 + length ts) (int (length dn)))
        (Some (add_size 1 par dn @ t\<lparr>tok_size := length vs\<rparr> # ts @ drop (jcount_list vs) rs)) (c + 1 + jcount_list vs)"
    by (simp add: rest ld ts_def dn1_def)
  have "inside (length dn) (length dn + 1) ts" unfolding ts_def by (rule jtoks_inside) simp_all
  from jsmn_loop_container [OF js _ 3(5) this mid [unfolded t_def], of r]
  show ?case by (simp add: rest ts_def)
next
  case (4 kvs)
  then obtain r rs where rest: "rest = r # rs" by (cases rest) auto
  define dn1 where "dn1 = add_size 1 par dn"
  define t where "t = open_tok (CHR ''{'') (length pre) par"
  define ts where "ts = jtoks_kvs kvs (length pre + 1) (length dn + 1) (int (length dn))"
  have ld: "length dn1 = length dn" by (simp add: dn1_def)
  have js: "js = pre @ CHR ''{'' # jren_kvs kvs @ CHR ''}'' # post" using 4(2) by simp
  have sz: "add_size (length kvs) (int (length dn)) (dn1 @ [t]) = dn1 @ [t\<lparr>tok_size := length kvs\<rparr>]"
    using add_size_last [of "length kvs" dn1 t "[]"] by (simp add: ld t_def open_tok_def)
  have "js = (pre @ ''{'') @ jren_kvs kvs @ ''}'' @ post" "tok_type ((dn1 @ [t]) ! length dn) = JSMN_OBJECT"
    using js ld by (simp_all add: t_def open_tok_def nth_append)
  from 4(1) [OF this(1) _ _ this(2), of rs "c + 1"] 4(3,6) sz
  obtain p where mid: "jsmn_loop js (mk_parser (length pre + 1) (length dn + 1) (int (length dn)))
        (Some (add_size 1 par dn @ t # rs)) (c + 1) =
      jsmn_loop js (mk_parser (length pre + 1 + length (jren_kvs kvs)) (length dn + 1 + length ts) p)
        (Some (add_size 1 par dn @ t\<lparr>tok_size := length kvs\<rparr> # ts @ drop (jcount_kvs kvs) rs)) (c + 1 + jcount_kvs kvs)"
    by (auto simp: rest ld ts_def dn1_def)
  have "inside (length dn) (length dn + 1) ts" unfolding ts_def by (rule jtoks_inside) simp_all
  from jsmn_loop_container [OF js _ 4(5) this mid [unfolded t_def], of r]
  show ?case by (simp add: rest ts_def)
next
  case (6 v vs)
  define dn1 where "dn1 = add_size 1 (int m) dn @ jtoks v (length pre) (length dn) (int m)"
  define post1 where "post1 = (if vs = [] then [] else CHR '','' # jren_list vs) @ '']'' @ post"
  have ld: "length dn1 = length dn + jcount v" by (simp add: dn1_def)
  have par: "par_ok (int m) (length dn)" using 6(5) by (simp add: par_ok_def)
  have m1: "dn1 ! m = (dn ! m)\<lparr>tok_size := tok_size (dn ! m) + 1\<rparr>"
    using 6(5) by (simp add: dn1_def nth_append add_size_def)
  have js: "js = pre @ jren v @ post1" using 6(3) by (simp add: post1_def)
  have "delim_next post1" by (simp add: post1_def delim_next_def jdelims_def)
  from 6(1) [OF js _ this par, of rest c] 6(4,7)
  have v: "jsmn_loop js (mk_parser (length pre) (length dn) (int m)) (Some (dn @ rest)) c =
      jsmn_loop js (mk_parser (length pre + length (jren v)) (length dn1) (int m)) (Some (dn1 @ drop (jcount v) rest)) (c + jcount v)"
    by (simp add: dn1_def)
  show ?case
  proof (cases vs)
    case Nil
    with v show ?thesis by (simp add: dn1_def)
  next
    case (Cons w ws)
    then have ne: "vs \<noteq> []" by simp
    have js1: "js = (pre @ jren v) @ CHR '','' # jren_list vs @ '']'' @ post" using js ne by (simp add: post1_def)
    have c: "jsmn_loop js (mk_parser (length pre + length (jren v)) (length dn1) (int m)) (Some (dn1 @ drop (jcount v) rest)) (c + jcount v) =
        jsmn_loop js (mk_parser (length (pre @ jren v @ '','')) (length dn1) (int m)) (Some (dn1 @ drop (jcount v) rest)) (c + jcount v)"
      using jsmn_loop_comma [OF js1, of "int m" "dn1 @ drop (jcount v) rest" "length dn1" "c + jcount v"] 6(5,6) ld m1
      by (simp add: nth_append)
    have js2: "js = (pre @ jren v @ '','') @ jren_list vs @ '']'' @ post" using js1 by simp
    have "m < length dn1" "tok_type (dn1 ! m) = JSMN_ARRAY" using 6(5,6) ld m1 by simp_all
    from 6(2) [OF ne js2 _ this, of "drop (jcount v) rest" "c + jcount v"] 6(4,7)
    have vs: "jsmn_loop js (mk_parser (length (pre @ jren v @ '','')) (length dn1) (int m)) (Some (dn1 @ drop (jcount v) rest)) (c + jcount v) =
        jsmn_loop js (mk_parser (length (pre @ jren v @ '','') + length (jren_list vs)) (length dn1 + jcount_list vs) (int m))
          (Some (add_size (length vs) (int m) dn1 @ jtoks_list vs (length (pre @ jren v @ '','')) (length dn1) (int m) @
            drop (jcount_list vs) (drop (jcount v) rest))) (c + jcount v + jcount_list vs)"
      by simp
    have "add_size (length vs) (int m) dn1 = add_size (length (v # vs)) (int m) dn @ jtoks v (length pre) (length dn) (int m)"
      using par by (simp add: dn1_def add_size_append add_size_add)
    with v c vs ne ld show ?thesis by (simp add: add.assoc add.commute [of "jcount_list vs"])
  qed
next
  case (8 k v kvs)
  then obtain r rs where rest: "rest = r # rs" by (cases rest) auto
  define t where "t = mk_tok JSMN_STRING (length pre + 1) (length pre + 1 + length k) 0 (int m)"
  define t1 where "t1 = mk_tok JSMN_STRING (length pre + 1) (length pre + 1 + length k) 1 (int m)"
  define dn1 where "dn1 = add_size 1 (int m) dn @ [t]"
  define dn2 where "dn2 = add_size 1 (int m) dn @ t1 # jtoks v (length pre + length k + 3) (length dn + 1) (int (length dn))"
  define post1 where "post1 = (if kvs = [] then [] else CHR '','' # jren_kvs kvs) @ ''}'' @ post"
  have ld: "length dn1 = length dn + 1" "length dn2 = length dn + 1 + jcount v" by (simp_all add: dn1_def dn2_def)
  have par: "par_ok (int m) (length dn)" using 8(5) by (simp add: par_ok_def)
  have m2: "dn2 ! m = (dn ! m)\<lparr>tok_size := tok_size (dn ! m) + 1\<rparr>" "dn2 ! length dn = t1"
    using 8(5) by (simp_all add: dn2_def nth_append add_size_def)
  have js0: "js = pre @ DQUOTE # k @ DQUOTE # CHR '':'' # jren v @ post1" using 8(3) by (simp add: post1_def)
  have k: "jsmn_loop js (mk_parser (length pre) (length dn) (int m)) (Some (dn @ rest)) c =
      jsmn_loop js (mk_parser (length pre + length k + 2) (length dn + 1) (int m)) (Some (dn1 @ rs)) (c + 1)"
    using jsmn_loop_str [OF js0 _ par] 8(4) by (simp add: rest dn1_def t_def)
  have js1: "js = (pre @ DQUOTE # k @ [DQUOTE]) @ CHR '':'' # jren v @ post1" using js0 by simp
  have col: "jsmn_loop js (mk_parser (length pre + length k + 2) (length dn + 1) (int m)) (Some (dn1 @ rs)) (c + 1) =
      jsmn_loop js (mk_parser (length pre + length k + 3) (length dn1) (int (length dn))) (Some (dn1 @ rs)) (c + 1)"
    using jsmn_loop_colon [OF js1, of "length dn + 1" "int m" "Some (dn1 @ rs)" "c + 1"] ld
    by (simp add: numeral_eq_Suc)
  have js2: "js = (pre @ DQUOTE # k @ DQUOTE # '':'') @ jren v @ post1" using js0 by simp
  have "delim_next post1" by (simp add: post1_def delim_next_def jdelims_def)
  moreover have "add_size 1 (int (length dn)) dn1 = add_size 1 (int m) dn @ [t1]"
    using add_size_last [of 1 "add_size 1 (int m) dn" t "[]"] by (simp add: dn1_def t_def t1_def mk_tok_def)
  moreover have "par_ok (int (length dn)) (length dn1)" using ld by (simp add: par_ok_def)
  ultimately have v: "jsmn_loop js (mk_parser (length pre + length k + 3) (length dn1) (int (length dn))) (Some (dn1 @ rs)) (c + 1) =
      jsmn_loop js (mk_parser (length pre + length k + 3 + length (jren v)) (length dn2) (int (length dn)))
        (Some (dn2 @ drop (jcount v) rs)) (c + 1 + jcount v)"
    using 8(1) [OF js2, of "int (length dn)" dn1 rs "c + 1"] 8(4,7) ld by (simp add: rest dn2_def numeral_eq_Suc)
  show ?case
  proof (cases kvs)
    case Nil
    with k col v ld show ?thesis
      by (intro exI [of _ "int (length dn)"]) (simp add: dn2_def t1_def rest numeral_eq_Suc add.assoc)
  next
    case (Cons w ws)
    then have ne: "kvs \<noteq> []" by simp
    let ?pre = "pre @ DQUOTE # k @ DQUOTE # CHR '':'' # jren v"
    have js3: "js = ?pre @ CHR '','' # jren_kvs kvs @ ''}'' @ post" using js0 ne by (simp add: post1_def)
    have com: "jsmn_loop js (mk_parser (length pre + length k + 3 + length (jren v)) (length dn2) (int (length dn)))
          (Some (dn2 @ drop (jcount v) rs)) (c + 1 + jcount v) =
        jsmn_loop js (mk_parser (length (?pre @ '','')) (length dn2) (int m)) (Some (dn2 @ drop (jcount v) rs)) (c + 1 + jcount v)"
      using jsmn_loop_comma [OF js3, of "int (length dn)" "dn2 @ drop (jcount v) rs" "length dn2" "c + 1 + jcount v"] ld m2
      by (simp add: nth_append t1_def numeral_eq_Suc add.assoc)
    have js4: "js = (?pre @ '','') @ jren_kvs kvs @ ''}'' @ post" using js3 by simp
    have "m < length dn2" "tok_type (dn2 ! m) = JSMN_OBJECT" using 8(5,6) ld m2 by simp_all
    moreover have "jok_kvs kvs" "jcount_kvs kvs \<le> length (drop (jcount v) rs)" using 8(4,7) by (simp_all add: rest)
    ultimately obtain p where kvs: "jsmn_loop js (mk_parser (length (?pre @ '','')) (length dn2) (int m)) (Some (dn2 @ drop (jcount v) rs)) (c + 1 + jcount v) =
        jsmn_loop js (mk_parser (length (?pre @ '','') + length (jren_kvs kvs)) (length dn2 + jcount_kvs kvs) p)
          (Some (add_size (length kvs) (int m) dn2 @ jtoks_kvs kvs (length (?pre @ '','')) (length dn2) (int m) @
            drop (jcount_kvs kvs) (drop (jcount v) rs))) (c + 1 + jcount v + jcount_kvs kvs)"
      using 8(2) [OF ne js4] by blast
    have "add_size (length kvs) (int m) dn2 = add_size (length ((k, v) # kvs)) (int m) dn @
        t1 # jtoks v (length pre + length k + 3) (length dn + 1) (int (length dn))"
      using par by (simp add: dn2_def add_size_append add_size_add)
    with k col v com kvs ne ld show ?thesis
      by (intro exI [of _ p]) (simp add: rest t1_def ac_simps numeral_eq_Suc)
  qed
qed (auto simp: add_size_def)

section \<open>Texts\<close>

lemma jsmn_loop_done:
  "js ! p = NUL \<or> length js \<le> p \<Longrightarrow> jsmn_loop js (mk_parser p n par) toks c = Some (Inr (mk_parser p n par, toks, c))"
  by (subst jsmn_loop.simps) auto

lemma jsmn_loop_white:
  assumes "\<forall>w \<in> set ws. w \<in> {TAB, CR, LF, CHR '' ''}"
  shows "js = pre @ ws \<Longrightarrow> jsmn_loop js (mk_parser (length pre) n par) toks c = Some (Inr (mk_parser (length js) n par, toks, c))"
  using assms
proof (induction ws arbitrary: pre)
  case Nil
  then show ?case by (simp add: jsmn_loop_done)
next
  case (Cons w ws)
  then have d: "js ! length pre = w" "length pre < length js" "w \<in> {TAB, CR, LF, CHR '' ''}" by (auto simp: nth_append)
  then have "jsmn_round js (mk_parser (length pre) n par) toks c = Some (Inr (mk_parser (length pre) n par, toks, c))"
    by (auto simp: jsmn_round_def Let_def)
  from jsmn_loop_step [OF this] d Cons.IH [of "pre @ [w]"] Cons.prems show ?case by auto
qed

lemma inside_closed: "inside m n ts \<Longrightarrow> t \<in> set ts \<Longrightarrow> tok_end t \<noteq> -1"
  by (induction ts arbitrary: n) auto

lemma jtoks_closed: "t \<in> set (jtoks v p n par) \<Longrightarrow> tok_end t \<noteq> -1"
proof -
  have "inside 0 1 (jtoks v p' 1 0)" for p' by (rule jtoks_inside) simp_all
  assume t: "t \<in> set (jtoks v p n par)"
  show ?thesis
  proof (cases v)
    case (JArr vs)
    have "inside n (n + 1) (jtoks_list vs (p + 1) (n + 1) (int n))" by (rule jtoks_inside) simp_all
    with t JArr show ?thesis by (auto dest: inside_closed)
  next
    case (JObj kvs)
    have "inside n (n + 1) (jtoks_kvs kvs (p + 1) (n + 1) (int n))" by (rule jtoks_inside) simp_all
    with t JObj show ?thesis by (auto dest: inside_closed)
  qed (use t in auto)
qed

lemma jsmn_parse_text:
  assumes "jok v" "\<forall>w \<in> set ws. w \<in> {TAB, CR, LF, CHR '' ''}" "jcount v \<le> length cells"
  shows "jsmn_parse jsmn_init (jren v @ ws) (Some cells) =
    Some (Inr (jcount v, Some (jtoks v 0 0 (-1) @ drop (jcount v) cells)))"
proof -
  have "delim_next ws" using assms(2) by (cases ws) (auto simp: delim_next_def jdelims_def)
  with jsmn_loop_value(1) [of "jren v @ ws" "[]" v ws "-1" "[]" cells 0] assms(1,3)
  have l: "jsmn_loop (jren v @ ws) (mk_parser 0 0 (-1)) (Some cells) 0 =
      jsmn_loop (jren v @ ws) (mk_parser (length (jren v)) (jcount v) (-1))
        (Some (jtoks v 0 0 (-1) @ drop (jcount v) cells)) (jcount v)"
    by (simp add: par_ok_def add_size_def)
  have init: "jsmn_init = mk_parser 0 0 (-1)" by (simp add: jsmn_init_def mk_parser_def)
  have "\<not> jsmn_unmatched (jcount v) (jtoks v 0 0 (-1) @ drop (jcount v) cells)"
    using jtoks_closed [of _ v 0 0 "-1"] by (auto simp: jsmn_unmatched_def list_ex_iff)
  then show ?thesis
    using assms(3) l jsmn_loop_white [OF assms(2) refl, of "jren v" "jcount v" "-1"]
    by (simp add: jsmn_parse_def init)
qed

section \<open>Property\<close>

text \<open>C9. The text of a JSON value, numbers and strings without escapes in any nesting of arrays and
  objects, followed by white space, is turned into exactly the tokens of that value: the type, the
  extent, the number of elements and the parent of each, in the order of the text, whatever was in
  the array before, if only it has enough cells.\<close>

theorem jsmn_parse_json:
  assumes "jok v" "\<forall>w \<in> set ws. w \<in> {TAB, CR, LF, CHR '' ''}" "jcount v \<le> length cells"
  shows "jsmn_parse jsmn_init (jren v @ ws) (Some cells) =
    Some (Inr (jcount v, Some (jtoks v 0 0 (-1) @ drop (jcount v) cells)))"
  using assms by (rule jsmn_parse_text)

theorem jsmn_parse_json_witness:
  "jsmn_parse jsmn_init (''{\"bids\":[[1,20]]}'' @ [LF]) (Some (replicate 6 jsmntok0)) =
    Some (Inr (6, Some
      [mk_tok JSMN_OBJECT 0 17 1 (-1), mk_tok JSMN_STRING 2 6 1 0, mk_tok JSMN_ARRAY 8 16 1 1, mk_tok JSMN_ARRAY 9 15 2 2,
       mk_tok JSMN_PRIMITIVE 10 11 0 3, mk_tok JSMN_PRIMITIVE 12 14 0 3]))"
  using jsmn_parse_json [of "JObj [(''bids'', JArr [JArr [JPrim ''1'', JPrim ''20'']])]" "[LF]" "replicate 6 jsmntok0"]
  by (simp add: str_ok_def prim_ok_def prim_char_def jdelims_def)

end
