(* ===== verification/Text_Scan.thy ===== *)
theory Text_Scan
  imports Coin_Prelude
begin

text \<open>
  Text search and numbers: \<open>xmemmem\<close>, of which \<open>src/ws.c\<close> and most converters hold a copy,
  and the C library's \<open>strtoul\<close> as they use it. A pointer into a buffer is the rest of the
  buffer from there on. Plain \<open>char\<close> is signed, as on the platforms the program is built for.
\<close>

section \<open>The substring search\<close>

definition char_uint :: "byte \<Rightarrow> u32" where
  "char_uint b = scast b"

text \<open>
  The loop over the first window: \<open>hsum\<close> and \<open>nsum\<close> are the sums of haystack and needle,
  \<open>eqp\<close> says whether they agree so far.
\<close>

fun xmemmem_sums ::
  "byte list \<Rightarrow> byte list \<Rightarrow> u32 \<Rightarrow> u32 \<Rightarrow> bool \<Rightarrow> byte list \<times> byte list \<times> u32 \<times> u32 \<times> bool" where
  "xmemmem_sums (h # hp) (n # np) hsum nsum eqp =
     xmemmem_sums hp np (hsum XOR char_uint h) (nsum XOR char_uint n) (eqp \<and> h = n)"
| "xmemmem_sums hp np hsum nsum eqp = (hp, np, hsum, nsum, eqp)"

text \<open>The loop that slides the window: \<open>cand\<close> starts it, \<open>hp\<close> is behind its end.\<close>

fun xmemmem_slide :: "byte list \<Rightarrow> u32 \<Rightarrow> byte list \<Rightarrow> byte list \<Rightarrow> u32 \<Rightarrow> byte list option" where
  "xmemmem_slide ndl nsum cand [] hsum = None"
| "xmemmem_slide ndl nsum cand (h # hp) hsum =
     (let hsum1 = hsum XOR char_uint (hd cand) XOR char_uint h; cand1 = tl cand in
      if hsum1 = nsum \<and> take (length ndl - 1) cand1 = take (length ndl - 1) ndl
      then Some (drop (length ndl) cand1)
      else xmemmem_slide ndl nsum cand1 hp hsum1)"

definition xmemmem :: "byte list \<Rightarrow> byte list \<Rightarrow> byte list option" where
  "xmemmem hay0 ndl =
     (if ndl = [] then Some hay0
      else (case memchr (hd ndl) hay0 of
        None \<Rightarrow> None
      | Some hay \<Rightarrow>
          (case xmemmem_sums (tl hay) (tl ndl) (char_uint (hd hay)) (char_uint (hd hay)) True of
             (hp, np, hsum, nsum, eqp) \<Rightarrow>
               if np \<noteq> [] then None
               else if eqp then Some (drop (length ndl) hay)
               else xmemmem_slide ndl nsum hay hp hsum)))"

text \<open>What it computes: the text behind the first occurrence.\<close>

fun find_after :: "'a list \<Rightarrow> 'a list \<Rightarrow> 'a list option" where
  "find_after ndl [] = (if ndl = [] then Some [] else None)"
| "find_after ndl (h # hay) =
     (if prefix ndl (h # hay) then Some (drop (length ndl) (h # hay)) else find_after ndl hay)"

definition xsum :: "byte list \<Rightarrow> u32" where
  "xsum bs = foldr (\<lambda>b s. char_uint b XOR s) bs 0"

lemma xsum_simps [simp]: "xsum [] = 0" "xsum (b # bs) = char_uint b XOR xsum bs"
  by (simp_all add: xsum_def)

lemma xsum_append: "xsum (xs @ ys) = xsum xs XOR xsum ys"
  by (induction xs) (simp_all add: xor.assoc)

lemma ucast_char_uint: "(ucast (char_uint b) :: byte) = b"
proof (rule bit_word_eqI)
  fix n assume n: "n < LENGTH(8)"
  then have "n < 7 \<or> n = 7" by auto
  then show "bit (ucast (char_uint b) :: byte) n = bit b n"
    by (auto simp: char_uint_def bit_simps)
qed

lemma xor_cancel_left: "a XOR x = a XOR y \<longleftrightarrow> x = (y :: u32)"
proof
  assume "a XOR x = a XOR y"
  then have "a XOR (a XOR x) = a XOR (a XOR y)" by simp
  then show "x = y" by (simp add: xor.assoc [symmetric])
qed simp

lemma char_uint_inj: "char_uint a = char_uint b \<longleftrightarrow> a = b"
  using ucast_char_uint by metis

lemma xmemmem_sums_result:
  assumes "xmemmem_sums hp np hsum nsum eqp = (hp', np', hsum', nsum', eqp')"
  shows "hp' = drop (length np) hp \<and> np' = drop (length hp) np
    \<and> hsum' = hsum XOR xsum (take (length np) hp) \<and> nsum' = nsum XOR xsum (take (length hp) np)
    \<and> (length np \<le> length hp \<longrightarrow> eqp' = (eqp \<and> take (length np) hp = np))"
  using assms
  by (induction hp np hsum nsum eqp rule: xmemmem_sums.induct) (auto simp: xor.assoc)

text \<open>Equal sums and equal heads: the last bytes agree as well.\<close>

lemma xsum_window:
  assumes "length w = length ndl" "ndl \<noteq> []"
  shows "xsum w = xsum ndl \<and> take (length ndl - 1) w = take (length ndl - 1) ndl \<longleftrightarrow> w = ndl"
proof
  assume eq: "xsum w = xsum ndl \<and> take (length ndl - 1) w = take (length ndl - 1) ndl"
  have "w \<noteq> []" using assms by auto
  then have w: "w = take (length ndl - 1) w @ [last w]"
    using append_butlast_last_id [of w] assms(1) by (simp add: butlast_conv_take)
  have n: "ndl = take (length ndl - 1) ndl @ [last ndl]"
    using append_butlast_last_id [OF assms(2)] by (simp add: butlast_conv_take)
  have "xsum (take (length ndl - 1) w) XOR char_uint (last w)
      = xsum (take (length ndl - 1) ndl) XOR char_uint (last ndl)"
    using arg_cong [OF w, of xsum] arg_cong [OF n, of xsum] eq by (simp add: xsum_append)
  with eq have "char_uint (last w) = char_uint (last ndl)" by (simp add: xor_cancel_left)
  then have "last w = last ndl" by (simp add: char_uint_inj)
  with eq w n show "w = ndl" by metis
qed simp

lemma find_after_short: "length hay < length ndl \<Longrightarrow> find_after ndl hay = None"
  by (induction hay) (auto dest: prefix_length_le)

lemma find_after_length: "find_after ndl hay = Some r \<Longrightarrow> length r + length ndl \<le> length hay"
proof (induction ndl hay rule: find_after.induct)
  case (1 ndl)
  then show ?case by (auto split: if_split_asm)
next
  case (2 ndl h hay)
  from "2.prems" show ?case
  proof (cases "prefix ndl (h # hay)")
    case True
    then have "length ndl \<le> length (h # hay)" by (rule prefix_length_le)
    with True "2.prems" show ?thesis by auto
  next
    case False
    with 2 show ?thesis by auto
  qed
qed

lemma find_after_first:
  "ndl \<noteq> [] \<Longrightarrow> \<not> sublist ndl (a @ butlast ndl) \<Longrightarrow> find_after ndl (a @ ndl @ r) = Some r"
proof (induction a)
  case Nil
  then show ?case by (cases ndl) simp_all
next
  case (Cons x a)
  have "\<not> prefix ndl (x # a @ ndl @ r)"
  proof
    assume "prefix ndl (x # a @ ndl @ r)"
    moreover have "x # a @ ndl @ r = (x # a @ butlast ndl) @ last ndl # r" using Cons.prems(1) by simp
    moreover have "length ndl \<le> length (x # a @ butlast ndl)" by simp
    ultimately have "prefix ndl (x # a @ butlast ndl)" by (metis prefix_length_prefix prefixI)
    with Cons.prems(2) show False by (simp add: prefix_imp_sublist)
  qed
  moreover have "\<not> sublist ndl (a @ butlast ndl)" using Cons.prems(2) by (auto simp: sublist_Cons_right)
  ultimately show ?case using Cons by simp
qed

lemma find_after_None_iff: "find_after ndl s = None \<longleftrightarrow> \<not> sublist ndl s"
  by (induction ndl s rule: find_after.induct) (auto simp: sublist_Cons_right)

lemma find_after_skip: "c \<notin> set s \<Longrightarrow> find_after (c # ndl) (s @ r) = find_after (c # ndl) r"
  by (induction s) auto

lemma find_after_map: "inj f \<Longrightarrow> find_after (map f ndl) (map f s) = map_option (map f) (find_after ndl s)"
proof (induction ndl s rule: find_after.induct)
  case (2 ndl h s)
  have "prefix (map f ndl) (map f (h # s)) \<longleftrightarrow> prefix ndl (h # s)"
  proof
    assume "prefix (map f ndl) (map f (h # s))"
    then obtain p where "prefix p (h # s)" "map f ndl = map f p" by (rule prefix_map_rightE [THEN exE]) blast
    then show "prefix ndl (h # s)" using 2 by (simp add: inj_map_eq_map)
  qed (rule map_mono_prefix)
  moreover have "drop (length ndl) (map f (h # s)) = map f (drop (length ndl) (h # s))" by (rule drop_map)
  ultimately show ?case using 2 by simp
qed simp

lemma prefix_take_iff: "length ndl \<le> length xs \<Longrightarrow> prefix ndl xs \<longleftrightarrow> take (length ndl) xs = ndl"
  by (auto simp: prefix_def) (metis append_take_drop_id)

lemma xmemmem_slide_correct:
  assumes "ndl \<noteq> []" "length ndl \<le> length cand" "hp = drop (length ndl) cand"
    and "hsum = xsum (take (length ndl) cand)"
  shows "xmemmem_slide ndl (xsum ndl) cand hp hsum = find_after ndl (tl cand)"
  using assms(2-)
proof (induction hp arbitrary: cand hsum)
  case Nil
  then show ?case using assms(1) by (simp add: find_after_short)
next
  case (Cons h hp)
  let ?n = "length ndl"
  obtain c cand1 where c: "cand = c # cand1" using Cons.prems(1) assms(1) by (cases cand) auto
  have n: "0 < ?n" using assms(1) by simp
  have "?n < length cand" using Cons.prems(2) by (metis drop_all leI list.distinct(1))
  then have len: "?n \<le> length cand1" using c by simp
  have "drop ?n cand = drop (?n - 1) cand1" using c n by (cases ?n) auto
  also have "\<dots> = cand1 ! (?n - 1) # drop ?n cand1"
    using len n by (metis Cons_nth_drop_Suc Suc_diff_1 Suc_le_lessD)
  finally have h: "h = cand1 ! (?n - 1)" "hp = drop ?n cand1" using Cons.prems(2) by simp_all
  have tk: "take ?n cand1 = take (?n - 1) cand1 @ [h]"
    using h(1) len n by (metis Suc_diff_1 Suc_le_lessD take_Suc_conv_app_nth)
  have "take ?n cand = c # take (?n - 1) cand1" using c n by (cases ?n) auto
  then have sum: "hsum XOR char_uint (hd cand) XOR char_uint h = xsum (take ?n cand1)"
    using Cons.prems(3) c by (simp add: tk xsum_append xor.assoc xor.left_commute xor.commute)
  have "xsum (take ?n cand1) = xsum ndl \<and> take (?n - 1) (take ?n cand1) = take (?n - 1) ndl
      \<longleftrightarrow> take ?n cand1 = ndl"
    using len assms(1) by (intro xsum_window) auto
  then have test: "xsum (take ?n cand1) = xsum ndl \<and> take (?n - 1) cand1 = take (?n - 1) ndl
      \<longleftrightarrow> prefix ndl cand1"
    using len by (simp add: prefix_take_iff min_def)
  have ne: "cand1 \<noteq> []" using len n by auto
  show ?case
  proof (cases "prefix ndl cand1")
    case True
    with test sum c ne show ?thesis by (cases cand1) (simp_all add: Let_def)
  next
    case False
    have "xmemmem_slide ndl (xsum ndl) cand1 hp (xsum (take ?n cand1)) = find_after ndl (tl cand1)"
      by (rule Cons.IH) (use len h in auto)
    moreover have "find_after ndl cand1 = find_after ndl (tl cand1)" using False ne by (cases cand1) auto
    moreover have "\<not> (xsum (take ?n cand1) = xsum ndl \<and> take (?n - 1) cand1 = take (?n - 1) ndl)"
      using False test by blast
    ultimately show ?thesis unfolding c xmemmem_slide.simps Let_def using sum c by auto
  qed
qed

lemma memchr_find_after:
  assumes "ndl \<noteq> []"
  shows "find_after ndl hay = (case memchr (hd ndl) hay of None \<Rightarrow> None | Some p \<Rightarrow> find_after ndl p)"
proof (induction hay)
  case (Cons h hay)
  show ?case
  proof (cases "h = hd ndl")
    case False
    then have "\<not> prefix ndl (h # hay)" using assms by (cases ndl) auto
    with False Cons.IH show ?thesis by simp
  qed simp
qed (simp add: assms)

lemma xmemmem_correct: "xmemmem hay ndl = find_after ndl hay"
proof (cases ndl)
  case Nil
  then show ?thesis by (cases hay) (simp_all add: xmemmem_def)
next
  case ndl: (Cons n0 ns)
  then have ne: "ndl \<noteq> []" by simp
  show ?thesis
  proof (cases "memchr n0 hay")
    case None
    with ndl show ?thesis by (simp add: xmemmem_def memchr_find_after)
  next
    case (Some p)
    from memchr_SomeD [OF Some] obtain hp where p: "p = n0 # hp" by auto
    obtain hp' np' hsum nsum eqp where s: "xmemmem_sums hp ns (char_uint n0) (char_uint n0) True
        = (hp', np', hsum, nsum, eqp)" by (metis prod.exhaust)
    note r = xmemmem_sums_result [OF s]
    have unf: "xmemmem hay ndl = (if np' \<noteq> [] then None else if eqp then Some (drop (length ndl) p)
        else xmemmem_slide ndl nsum p hp' hsum)"
      using Some s by (simp add: xmemmem_def ndl p)
    have fa: "find_after ndl hay = find_after ndl p"
      using Some memchr_find_after [OF ne, of hay] by (simp add: ndl)
    show ?thesis
    proof (cases "length p < length ndl")
      case True
      then have "np' \<noteq> []" using r by (simp add: p ndl)
      with True show ?thesis unfolding unf fa by (simp add: find_after_short)
    next
      case False
      then have l: "length ns \<le> length hp" by (simp add: p ndl)
      with r have np: "np' = []" and eqp: "eqp \<longleftrightarrow> prefix ndl p"
        and nsum: "nsum = xsum ndl" and hsum: "hsum = xsum (take (length ndl) p)" "hp' = drop (length ndl) p"
        by (simp_all add: p ndl prefix_take_iff)
      have "xmemmem_slide ndl (xsum ndl) p hp' hsum = find_after ndl (tl p)"
        using False hsum ne by (intro xmemmem_slide_correct) simp_all
      moreover have "find_after ndl p = (if eqp then Some (drop (length ndl) p) else find_after ndl (tl p))"
        unfolding eqp p by simp
      ultimately show ?thesis unfolding unf fa np nsum by simp
    qed
  qed
qed

section \<open>Decimal numbers\<close>

text \<open>\<open>%lu\<close> of \<open>printf\<close>.\<close>

definition digit_char :: "nat \<Rightarrow> char" where
  "digit_char d = char_of (48 + d)"

fun dec_string :: "nat \<Rightarrow> string" where
  "dec_string n = (if n < 10 then [digit_char n] else dec_string (n div 10) @ [digit_char (n mod 10)])"

declare dec_string.simps [simp del]

text \<open>A number padded with zeros to a width.\<close>

definition zero_pad :: "nat \<Rightarrow> string \<Rightarrow> string" where
  "zero_pad k s = replicate (k - length s) CHR ''0'' @ s"

definition is_space :: "char \<Rightarrow> bool" where
  "is_space c \<longleftrightarrow> c \<in> {CHR '' '', TAB, LF, CHR 0x0B, CHR 0x0C, CR}"

definition digit_val :: "char \<Rightarrow> nat option" where
  "digit_val c = (let n = of_char c :: nat in
     if 48 \<le> n \<and> n \<le> 57 then Some (n - 48)
     else if 97 \<le> n \<and> n \<le> 122 then Some (n - 87)
     else if 65 \<le> n \<and> n \<le> 90 then Some (n - 55)
     else None)"

text \<open>The digits of a number: its value, how the digits begun with go on, and the rest.\<close>

fun scan_digits :: "nat \<Rightarrow> nat \<Rightarrow> string \<Rightarrow> nat \<times> string" where
  "scan_digits base acc [] = (acc, [])"
| "scan_digits base acc (c # s) =
     (case digit_val c of
        Some d \<Rightarrow> if d < base then scan_digits base (acc * base + d) s else (acc, c # s)
      | None \<Rightarrow> (acc, c # s))"

text \<open>
  \<open>strtoul(s, &on, base)\<close> of the C library, for \<open>base\<close> 10 and 16 and a 64 bit \<open>long\<close>: the value
  and what \<open>on\<close> points to. Blanks and a sign may precede the digits, \<open>0x\<close> those of base 16;
  without a digit the result is zero and \<open>on\<close> is \<open>s\<close>; a number too big gives the greatest.
\<close>

definition starts_number :: "nat \<Rightarrow> string \<Rightarrow> bool" where
  "starts_number base s \<longleftrightarrow>
     s \<noteq> [] \<and> (case digit_val (hd s) of Some d \<Rightarrow> d < base | None \<Rightarrow> False)"

definition strtoul_start :: "nat \<Rightarrow> string \<Rightarrow> bool \<times> string" where
  "strtoul_start base s =
     (let s1 = dropWhile is_space s;
          neg = (deref s1 = CHR ''-'');
          s2 = (if neg \<or> deref s1 = CHR ''+'' then tl s1 else s1);
          s3 = (if base = 16 \<and> deref s2 = CHR ''0'' \<and> (deref (tl s2) = CHR ''x'' \<or> deref (tl s2) = CHR ''X'')
                     \<and> starts_number base (drop 2 s2) then drop 2 s2 else s2)
      in (neg, s3))"

definition strtoul :: "nat \<Rightarrow> string \<Rightarrow> u64 \<times> string" where
  "strtoul base s =
     (case strtoul_start base s of (neg, s1) \<Rightarrow>
        if starts_number base s1
        then (case scan_digits base 0 s1 of
                (v, rest) \<Rightarrow> (if v \<ge> 2 ^ 64 then -1 else if neg then - of_nat v else of_nat v, rest))
        else (0, s))"

text \<open>
  The same in a buffer that no NUL need end: the character that stops the scan must be in it.
\<close>

definition char_of_byte :: "byte \<Rightarrow> char" where
  "char_of_byte b = char_of (unat b)"

definition text_of :: "byte list \<Rightarrow> string" where
  "text_of bs = map char_of_byte bs"

definition strtoul_buf :: "nat \<Rightarrow> byte list \<Rightarrow> (u64 \<times> byte list) option" where
  "strtoul_buf base p = do {
     check (snd (scan_digits base 0 (snd (strtoul_start base (text_of p)))) \<noteq> []);
     (case strtoul base (text_of p) of (v, rest) \<Rightarrow> Some (v, drop (length p - length rest) p)) }"

lemma digit_val_digit_char [simp]: "d < 10 \<Longrightarrow> digit_val (digit_char d) = Some d"
  by (simp add: digit_val_def digit_char_def)

lemma not_space_digit_char [simp]: "d < 10 \<Longrightarrow> \<not> is_space (digit_char d)"
proof -
  assume "d < 10"
  then have "of_char (digit_char d) = (48 + d :: nat)" by (simp add: digit_char_def)
  then show ?thesis using \<open>d < 10\<close> by (auto simp: is_space_def)
qed

lemma digit_char_neq:
  assumes "d < 10" "of_char c < (48 :: nat) \<or> of_char c > (57 :: nat)"
  shows "digit_char d \<noteq> c" "c \<noteq> digit_char d"
  using assms by (auto simp: digit_char_def)

lemma dec_string_nonempty [simp]: "dec_string n \<noteq> []"
  by (subst dec_string.simps) simp

lemma dec_string_digits: "set (dec_string n) \<subseteq> digit_char ` {..<10}"
proof (induction n rule: dec_string.induct)
  case (1 n)
  then show ?case by (subst dec_string.simps) auto
qed

lemma dec_string_notin:
  assumes "of_char c < (48 :: nat) \<or> of_char c > (57 :: nat)"
  shows "c \<notin> set (dec_string n)"
  using dec_string_digits [of n] digit_char_neq [OF _ assms] by auto

lemma dec_string_hd: "\<exists>d < 10. hd (dec_string n) = digit_char d"
proof -
  have "hd (dec_string n) \<in> set (dec_string n)" by simp
  with dec_string_digits show ?thesis by blast
qed

lemma scan_digits_append:
  "scan_digits 10 acc (dec_string n @ rest) = scan_digits 10 (acc * 10 ^ length (dec_string n) + n) rest"
proof (induction n arbitrary: acc rest rule: dec_string.induct)
  case (1 n)
  show ?case
  proof (cases "n < 10")
    case True
    then show ?thesis by (simp add: dec_string.simps [of n])
  next
    case False
    let ?k = "length (dec_string (n div 10))"
    have "scan_digits 10 acc (dec_string n @ rest)
        = scan_digits 10 (acc * 10 ^ ?k + n div 10) (digit_char (n mod 10) # rest)"
      using False "1.IH" by (simp add: dec_string.simps [of n])
    also have "\<dots> = scan_digits 10 ((acc * 10 ^ ?k + n div 10) * 10 + n mod 10) rest" by simp
    also have "(acc * 10 ^ ?k + n div 10) * 10 + n mod 10 = acc * 10 ^ Suc ?k + n"
      by (simp add: algebra_simps)
    finally show ?thesis using False by (simp add: dec_string.simps [of n])
  qed
qed

definition ends_number :: "string \<Rightarrow> bool" where
  "ends_number rest \<longleftrightarrow> \<not> starts_number 10 rest"

lemma scan_digits_stop: "ends_number rest \<Longrightarrow> scan_digits 10 acc rest = (acc, rest)"
  by (cases rest) (auto simp: ends_number_def starts_number_def split: option.splits)

text \<open>What is left is the end of what there was.\<close>

lemma scan_digits_suffix: "suffix (snd (scan_digits base acc s)) s"
  by (induction base acc s rule: scan_digits.induct) (auto intro: suffix_ConsI split: option.split)

lemma strtoul_start_suffix: "suffix (snd (strtoul_start base s)) s"
proof -
  have sp: "suffix (dropWhile is_space s) s" by (rule suffix_dropWhile)
  have "suffix (tl (dropWhile is_space s)) s" using sp by (rule suffix_order.trans [OF suffix_tl])
  with sp show ?thesis
    by (auto simp: strtoul_start_def Let_def intro: suffix_order.trans [OF suffix_drop])
qed

lemma strtoul_suffix: "strtoul base s = (v, r) \<Longrightarrow> suffix r s"
  using scan_digits_suffix [of base 0 "snd (strtoul_start base s)"] strtoul_start_suffix [of base s]
  by (auto simp: strtoul_def split: prod.split_asm if_split_asm intro: suffix_order.trans)

lemma strtoul_rest_le: "strtoul base s = (v, r) \<Longrightarrow> length r \<le> length s"
  by (rule suffix_length_le [OF strtoul_suffix])

text \<open>Reading any digits, and what \<open>printf\<close> writes.\<close>

definition digits_value :: "nat list \<Rightarrow> nat" where
  "digits_value ds = foldl (\<lambda>a d. a * 10 + d) 0 ds"

lemma scan_digits_list:
  "\<forall>d \<in> set ds. d < 10 \<Longrightarrow>
    scan_digits 10 acc (map digit_char ds @ rest) = scan_digits 10 (foldl (\<lambda>a d. a * 10 + d) acc ds) rest"
  by (induction ds arbitrary: acc) simp_all

lemma strtoul_start_digit:
  assumes "d < 10"
  shows "strtoul_start 10 (digit_char d # s) = (False, digit_char d # s)" "starts_number 10 (digit_char d # s)"
  using assms digit_char_neq(1) [OF assms, of "CHR ''-''"] digit_char_neq(1) [OF assms, of "CHR ''+''"]
  by (simp_all add: strtoul_start_def starts_number_def)

lemma strtoul_digits:
  assumes "ds \<noteq> []" "\<forall>d \<in> set ds. d < 10" "digits_value ds < 2 ^ 64" "ends_number rest"
  shows "strtoul 10 (map digit_char ds @ rest) = (of_nat (digits_value ds), rest)"
proof -
  have "scan_digits 10 0 (map digit_char ds @ rest) = (digits_value ds, rest)"
    using scan_digits_list [OF assms(2), of 0 rest] scan_digits_stop [OF assms(4)] by (simp add: digits_value_def)
  moreover obtain d s where "map digit_char ds @ rest = digit_char d # s" "d < 10"
    using assms(1,2) by (cases ds) auto
  ultimately show ?thesis using assms(3) by (simp add: strtoul_def strtoul_start_digit)
qed

lemma strtoul_dec_string:
  assumes "n < 2 ^ 64" "ends_number rest"
  shows "strtoul 10 (dec_string n @ rest) = (of_nat n, rest)"
proof -
  obtain d where d: "d < 10" "hd (dec_string n) = digit_char d" using dec_string_hd by blast
  then obtain s where s: "dec_string n @ rest = digit_char d # s" by (cases "dec_string n") auto
  have "scan_digits 10 0 (dec_string n @ rest) = (n, rest)"
    using scan_digits_append [of 0 n rest] scan_digits_stop [OF assms(2)] by simp
  with s show ?thesis using assms(1) by (simp add: strtoul_def strtoul_start_digit [OF d(1)])
qed

text \<open>What is printed has few digits, and padding does not change its value.\<close>

lemma dec_string_length: "n < 10 ^ Suc k \<Longrightarrow> length (dec_string n) \<le> Suc k"
proof (induction k arbitrary: n)
  case 0
  then show ?case by (simp add: dec_string.simps [of n])
next
  case (Suc k)
  from Suc.prems have "n div 10 < 10 ^ Suc k" by (simp add: div_less_iff_less_mult)
  from Suc.IH [OF this] show ?case by (subst dec_string.simps) simp
qed

lemma dec_string_value: "\<exists>ds. dec_string n = map digit_char ds \<and> ds \<noteq> [] \<and> (\<forall>d \<in> set ds. d < 10) \<and> digits_value ds = n"
proof (induction n rule: dec_string.induct)
  case (1 n)
  show ?case
  proof (cases "n < 10")
    case True
    then show ?thesis by (intro exI [of _ "[n]"]) (simp add: dec_string.simps [of n] digits_value_def)
  next
    case False
    with "1.IH" obtain ds where "dec_string (n div 10) = map digit_char ds" "ds \<noteq> []" "\<forall>d \<in> set ds. d < 10"
        "digits_value ds = n div 10" by blast
    with False show ?thesis
      by (intro exI [of _ "ds @ [n mod 10]"]) (simp add: dec_string.simps [of n] digits_value_def)
  qed
qed

lemma digits_value_zeros: "digits_value (replicate k 0 @ ds) = digits_value ds"
  by (induction k) (simp_all add: digits_value_def)

lemma strtoul_zero_pad:
  assumes "n < 2 ^ 64" "ends_number rest"
  shows "strtoul 10 (zero_pad k (dec_string n) @ rest) = (of_nat n, rest)"
proof -
  obtain ds where ds: "dec_string n = map digit_char ds" "ds \<noteq> []" "\<forall>d \<in> set ds. d < 10" "digits_value ds = n"
    using dec_string_value by blast
  have "digit_char 0 = CHR ''0''" by code_simp
  then have "zero_pad k (dec_string n) = map digit_char (replicate (k - length ds) 0 @ ds)"
    by (simp add: zero_pad_def ds(1))
  moreover have "\<forall>d \<in> set (replicate (k - length ds) 0 @ ds). d < 10" using ds(3) by auto
  ultimately show ?thesis
    using strtoul_digits [of "replicate (k - length ds) 0 @ ds" rest] assms ds(2,4)
    by (simp add: digits_value_zeros)
qed

lemma zero_pad_length: "length s \<le> k \<Longrightarrow> length (zero_pad k s) = k"
  by (simp add: zero_pad_def)

end
