(* ===== verification/Ws_Frame.thy ===== *)
theory Ws_Frame
  imports Text_Scan
begin

text \<open>
  The websocket framing of \<open>src/ws.c\<close>: \<open>ws_recv\<close>, which unpacks frames in place in the
  caller's buffer, \<open>ws_send\<close>, \<open>ws_ping\<close> and \<open>ws_pong\<close>. The socket is the environment: a call is
  given the bytes that \<open>recv\<close> (or \<open>tls_recv\<close>) delivers, none when it fails, and yields the
  bytes it hands to \<open>send\<close>. An access outside a buffer is \<open>None\<close>.
\<close>

section \<open>Data\<close>

datatype ws_proto_t = WS_PROTO_RAW | WS_PROTO_WAMP | WS_PROTO_SIO1 | WS_PROTO_SIO3 | WS_PROTO_REST

text \<open>
  \<open>struct ws_s\<close>. \<open>ws_ssl\<close> says whether the context \<open>c\<close> is set; \<open>frml\<close> are the 14 bytes of the
  frame header (for the REST protocol the union holds \<open>ws_host\<close> instead).
\<close>

record ws_s =
  ws_p :: ws_proto_t
  ws_ssl :: bool
  togo :: u64
  sdone :: nat
  ws_state :: nat
  frml :: "byte list"
  ws_host :: string

text \<open>The bit fields of \<open>wsfr_t\<close>, least significant first, and its multi-byte members.\<close>

definition fr_code :: "byte list \<Rightarrow> nat" where
  "fr_code fr = unat (fr ! 0 AND 0x0F)"

definition fr_finp :: "byte list \<Rightarrow> bool" where
  "fr_finp fr \<longleftrightarrow> bit (fr ! 0) 7"

definition fr_plen :: "byte list \<Rightarrow> nat" where
  "fr_plen fr = unat (fr ! 1 AND 0x7F)"

definition fr_mask :: "byte list \<Rightarrow> bool" where
  "fr_mask fr \<longleftrightarrow> bit (fr ! 1) 7"

text \<open>\<open>be16toh\<close> and \<open>be64toh\<close>: the number whose bytes, most significant first, are these.\<close>

definition be_num :: "byte list \<Rightarrow> u64" where
  "be_num bs = foldl (\<lambda>n b. n * 256 + ucast b) 0 bs"

text \<open>Copying in and out of a buffer, within its bounds.\<close>

definition buf_put :: "'a list \<Rightarrow> nat \<Rightarrow> 'a list \<Rightarrow> 'a list option" where
  "buf_put buf i xs =
     (if i + length xs \<le> length buf then Some (take i buf @ xs @ drop (i + length xs) buf) else None)"

definition buf_get :: "'a list \<Rightarrow> nat \<Rightarrow> nat \<Rightarrow> 'a list option" where
  "buf_get buf i n = (if i + n \<le> length buf then Some (take n (drop i buf)) else None)"

definition min_z :: "nat \<Rightarrow> nat \<Rightarrow> nat" where
  "min_z z1 z2 = (if z1 < z2 then z1 else z2)"

text \<open>A difference of two \<open>size_t\<close>.\<close>

definition size_diff :: "nat \<Rightarrow> nat \<Rightarrow> nat" where
  "size_diff a b = (if b \<le> a then a - b else 2 ^ 64 + a - b)"

section \<open>Control frames\<close>

definition ping_empty :: "byte list" where
  "ping_empty = [0x89, 0x80, 0x00, 0x00, 0x00, 0x00]"

definition pong_empty :: "byte list" where
  "pong_empty = [0x8a, 0x80, 0x00, 0x00, 0x00, 0x00]"

text \<open>The frames sent; with a message, the opcode of both is the one of a pong.\<close>

definition ws_ping :: "byte list \<Rightarrow> byte list" where
  "ws_ping msg =
     (if 0 < length msg
      then (let msz = (if 125 < length msg then 125 else length msg) in
            [0x8a, 0x80 XOR of_nat msz, 0, 0, 0, 0] @ take msz msg)
      else ping_empty)"

definition ws_pong :: "byte list \<Rightarrow> byte list" where
  "ws_pong msg =
     (if 0 < length msg
      then (let msz = (if 125 < length msg then 125 else length msg) in
            [0x8a, 0x80 XOR of_nat msz, 0, 0, 0, 0] @ take msz msg)
      else pong_empty)"

section \<open>Receiving\<close>

datatype ws_abort = WS_HUH | WS_BUGGERY

text \<open>Where the unpacking stands: connection, buffer, payload pointer, result length, frames sent.\<close>

type_synonym ws_recving = "ws_s \<times> byte list \<times> nat \<times> nat \<times> byte list list"

text \<open>From \<open>again:\<close> to \<open>unpkd:\<close>, the header of a frame.\<close>

definition ws_unpack_header :: "ws_recving \<Rightarrow> ws_recving option" where
  "ws_unpack_header = (\<lambda>(ws, buf, pp, rp, sent). do {
     fr \<leftarrow> buf_get buf pp 14;
     buf1 \<leftarrow> buf_put buf rp [0x0A];
     (let rp1 = rp + ws_state ws;
          (tg, hz) = (if fr_plen fr = 126 then (be_num (take 2 (drop 2 fr)), 4)
                      else if fr_plen fr = 127 then (be_num (take 8 (drop 2 fr)), 10)
                      else (of_nat (fr_plen fr), 2));
          pp1 = pp + hz + (if fr_mask fr then 4 else 0)
      in Some (ws\<lparr>frml := fr, togo := tg\<rparr>, buf1, pp1, rp1, sent)) })"

text \<open>From \<open>unpkd:\<close> to the advance of the payload pointer.\<close>

definition ws_unpack_payload :: "nat \<Rightarrow> ws_recving \<Rightarrow> (ws_abort + ws_recving) option" where
  "ws_unpack_payload nrd = (\<lambda>(ws, buf, pp, rp, sent).
     (let pz = min_z (unat (togo ws)) (size_diff nrd pp);
          ws1 = ws\<lparr>togo := togo ws - of_nat pz\<rparr>;
          code = fr_code (frml ws) in
      if code \<in> {0x0, 0x1, 0x2, 0x8} then do {
        pay \<leftarrow> buf_get buf pp pz;
        buf1 \<leftarrow> buf_put buf rp pay;
        Some (Inr (ws1\<lparr>ws_state := (if (togo ws1 = 0 \<and> fr_finp (frml ws)) \<or> code = 0x8 then 1 else 0)\<rparr>,
          buf1, pp + pz, rp + pz, sent)) }
      else if code = 0x9 then do {
        pay \<leftarrow> buf_get buf pp pz;
        buf1 \<leftarrow> buf_put buf rp pay;
        Some (Inr (ws1\<lparr>ws_state := 1\<rparr>, buf1, pp + pz, rp + pz, sent @ [ws_pong pay])) }
      else if code = 0xA then Some (Inr (ws1\<lparr>ws_state := 0\<rparr>, buf, pp + pz, rp, sent))
      else Some (Inl WS_HUH)))"

lemma ws_unpack_header_pp:
  "ws_unpack_header (ws, buf, pp, rp, sent) = Some (ws1, buf1, pp1, rp1, sent1) \<Longrightarrow> pp + 2 \<le> pp1"
  by (auto simp: ws_unpack_header_def Let_def split: if_splits elim!: bindE)

lemma ws_unpack_payload_pp:
  "ws_unpack_payload nrd (ws, buf, pp, rp, sent) = Some (Inr (ws1, buf1, pp1, rp1, sent1)) \<Longrightarrow> pp \<le> pp1"
  by (auto simp: ws_unpack_payload_def Let_def split: if_splits elim!: bindE)

text \<open>The loop over the frames: a payload, then more frames while a whole header is left.\<close>

function ws_unpack :: "nat \<Rightarrow> ws_recving \<Rightarrow> (ws_abort + ws_recving) option" where
  "ws_unpack nrd r = do {
     p \<leftarrow> ws_unpack_payload nrd r;
     case p of
       Inl a \<Rightarrow> Some (Inl a)
     | Inr (ws, buf, pp, rp, sent) \<Rightarrow>
         if pp + 14 < nrd
         then do { r1 \<leftarrow> ws_unpack_header (ws, buf, pp, rp, sent); ws_unpack nrd r1 }
         else Some (Inr (ws, buf, pp, rp, sent)) }"
  by pat_completeness auto
termination
proof (relation "measure (\<lambda>(nrd, (ws, buf, pp, rp, sent)). nrd - pp)", goal_cases)
  case (2 nrd r p y ws ybuf buf ypp pp yrp rp sent r1)
  obtain ws0 buf0 pp0 rp0 sent0 where r: "r = (ws0, buf0, pp0, rp0, sent0)" by (rule prod_cases5)
  obtain ws2 buf2 pp2 rp2 sent2 where r1: "r1 = (ws2, buf2, pp2, rp2, sent2)" by (rule prod_cases5)
  have "pp0 \<le> pp" "pp + 2 \<le> pp2"
    using 2 ws_unpack_payload_pp [of nrd ws0 buf0 pp0 rp0 sent0] ws_unpack_header_pp
    unfolding r r1 by blast+
  with 2 show ?case by (simp add: r r1)
qed simp

declare ws_unpack.simps [simp del]

text \<open>
  From \<open>stash:\<close> on: what is left over is kept in \<open>frml\<close>, the output is finalised. The result is
  the connection, the buffer, the length returned and the frames sent.
\<close>

type_synonym ws_received = "ws_s \<times> byte list \<times> nat \<times> byte list list"

definition ws_stash :: "nat \<Rightarrow> ws_recving \<Rightarrow> (ws_abort + ws_received) option" where
  "ws_stash nrd = (\<lambda>(ws, buf, pp, rp, sent).
     if pp > nrd then Some (Inl WS_BUGGERY)
     else do {
       lo \<leftarrow> buf_get buf pp (nrd - pp);
       fr \<leftarrow> buf_put (frml ws) 0 lo;
       buf1 \<leftarrow> buf_put buf rp [0x0A];
       Some (Inr (ws\<lparr>frml := fr, sdone := nrd - pp\<rparr>, buf1, rp + ws_state ws, sent)) })"

text \<open>\<open>rcv\<close> is what \<open>recv\<close> puts behind the bytes unstashed; \<open>Inr None\<close> is the return of -1.\<close>

definition ws_recv ::
  "ws_s \<Rightarrow> byte list \<Rightarrow> byte list \<Rightarrow> (ws_abort + ws_received option) option" where
  "ws_recv ws buf rcv = do {
     st \<leftarrow> buf_get (frml ws) 0 (sdone ws);
     buf1 \<leftarrow> buf_put buf 0 st;
     buf2 \<leftarrow> buf_put buf1 (sdone ws) rcv;
     if rcv = [] then Some (Inr None)
     else
       (let nrd = length rcv + sdone ws in do {
          u \<leftarrow> (if nrd < 14 \<and> togo ws = 0 then Some (Inr (ws, buf2, 0, 0, []))
                else if togo ws \<noteq> 0 then ws_unpack nrd (ws, buf2, 0, 0, [])
                else do { r \<leftarrow> ws_unpack_header (ws, buf2, 0, 0, []); ws_unpack nrd r });
          case u of
            Inl a \<Rightarrow> Some (Inl a)
          | Inr r \<Rightarrow> do {
              s \<leftarrow> ws_stash nrd r;
              case s of Inl a \<Rightarrow> Some (Inl a) | Inr x \<Rightarrow> Some (Inr (Some x)) } }) }"

section \<open>Sending\<close>

text \<open>The global buffer \<open>gbuf\<close>: whether there is one, its size and its users.\<close>

record ws_globals =
  gbuf :: bool
  gbsz :: nat
  gbrc :: nat

text \<open>\<open>htobe16\<close> and \<open>htobe64\<close> of a number, as bytes in memory.\<close>

definition be_bytes :: "nat \<Rightarrow> nat \<Rightarrow> byte list" where
  "be_bytes k n = map (\<lambda>i. of_nat (n div 256 ^ i)) (rev [0..<k])"

text \<open>
  The header. In the longest form the code stores the 16 bit groups of \<open>htobe64(bsz)\<close> from the
  most significant one down; on a little-endian host these are its last two bytes, the two
  before, and so on.
\<close>

definition ws_send_header :: "nat \<Rightarrow> byte list" where
  "ws_send_header bsz =
     (if bsz \<ge> 65536
      then (let b = be_bytes 8 bsz in
            [0x81, 0xFF] @ drop 6 b @ take 2 (drop 4 b) @ take 2 (drop 2 b) @ take 2 b @ [0, 0, 0, 0])
      else if bsz \<ge> 126 then [0x81, 0xFE] @ be_bytes 2 bsz @ [0, 0, 0, 0]
      else [0x81, 0x80 OR of_nat bsz, 0, 0, 0, 0])"

text \<open>\<open>mok\<close> says whether \<open>malloc\<close> succeeds; \<open>None\<close> is the return of -1 with nothing sent.\<close>

definition ws_send :: "ws_globals \<Rightarrow> bool \<Rightarrow> byte list \<Rightarrow> ws_globals \<times> byte list option" where
  "ws_send g mok msg =
     (let hd = ws_send_header (length msg); z = length hd + length msg in
      if gbsz g < z
      then (if mok then (g\<lparr>gbuf := True, gbsz := (z div 256 + 1) * 256\<rparr>, Some (hd @ msg))
            else (g\<lparr>gbuf := False, gbsz := 0\<rparr>, None))
      else (g, Some (hd @ msg)))"

end
