(* ===== verification/Ws_Spec.thy ===== *)
theory Ws_Spec
  imports Ws_Frame
begin

text \<open>
  What the framing promises: the unpacking in place computes what unpacking from a list of
  bytes into another computes, never leaves its buffer when it has one byte to spare, and
  reads back every frame that \<open>ws_send\<close> builds for a message shorter than 65536 bytes.
\<close>

section \<open>Unpacking as a function on lists\<close>

text \<open>The connection, the bytes still to be read, the result so far, the frames sent.\<close>

type_synonym ws_pure = "ws_s \<times> byte list \<times> byte list \<times> byte list list"

definition frame_togo :: "byte list \<Rightarrow> u64" where
  "frame_togo fr = (if fr_plen fr = 126 then be_num (take 2 (drop 2 fr))
     else if fr_plen fr = 127 then be_num (take 8 (drop 2 fr)) else of_nat (fr_plen fr))"

definition frame_header_length :: "byte list \<Rightarrow> nat" where
  "frame_header_length fr = (if fr_plen fr = 126 then 4 else if fr_plen fr = 127 then 10 else 2)
     + (if fr_mask fr then 4 else 0)"

definition pure_header :: "ws_pure \<Rightarrow> ws_pure" where
  "pure_header = (\<lambda>(ws, xs, out, sent).
     (ws\<lparr>frml := take 14 xs, togo := frame_togo (take 14 xs)\<rparr>, drop (frame_header_length (take 14 xs)) xs,
      out @ replicate (ws_state ws) 0x0A, sent))"

definition pure_payload :: "ws_pure \<Rightarrow> ws_abort + ws_pure" where
  "pure_payload = (\<lambda>(ws, xs, out, sent).
     (let pz = min (unat (togo ws)) (length xs);
          tg = togo ws - of_nat pz; code = fr_code (frml ws); rest = drop pz xs; pay = take pz xs in
      if code \<in> {0x0, 0x1, 0x2, 0x8}
      then Inr (ws\<lparr>togo := tg, ws_state := (if (tg = 0 \<and> fr_finp (frml ws)) \<or> code = 0x8 then 1 else 0)\<rparr>,
                rest, out @ pay, sent)
      else if code = 0x9 then Inr (ws\<lparr>togo := tg, ws_state := 1\<rparr>, rest, out @ pay, sent @ [ws_pong pay])
      else if code = 0xA then Inr (ws\<lparr>togo := tg, ws_state := 0\<rparr>, rest, out, sent)
      else Inl WS_HUH))"

lemma pure_payload_rest:
  "pure_payload (ws, xs, out, sent) = Inr (ws1, xs1, out1, sent1) \<Longrightarrow>
    xs1 = drop (min (unat (togo ws)) (length xs)) xs"
  by (auto simp: pure_payload_def Let_def split: if_splits)

lemma frame_header_bounds: "2 \<le> frame_header_length fr" "frame_header_length fr \<le> 14"
  by (simp_all add: frame_header_length_def)

function pure_unpack :: "ws_pure \<Rightarrow> ws_abort + ws_pure" where
  "pure_unpack r =
     (case pure_payload r of
        Inl a \<Rightarrow> Inl a
      | Inr (ws, xs, out, sent) \<Rightarrow>
          if 14 < length xs then pure_unpack (pure_header (ws, xs, out, sent)) else Inr (ws, xs, out, sent))"
  by pat_completeness auto
termination
proof (relation "measure (\<lambda>(ws, xs, out, sent). length xs)", goal_cases)
  case (2 r y ws z xs w out sent)
  obtain ws0 xs0 out0 sent0 where r: "r = (ws0, xs0, out0, sent0)" by (rule prod_cases4)
  have "length xs \<le> length xs0"
    using 2 pure_payload_rest [of ws0 xs0 out0 sent0] unfolding r by auto
  moreover have "length (drop (frame_header_length (take 14 xs)) xs) < length xs"
    using 2 frame_header_bounds(1) [of "take 14 xs"] by simp
  ultimately show ?case by (simp add: r pure_header_def)
qed simp

declare pure_unpack.simps [simp del]

definition pure_recv :: "ws_s \<Rightarrow> byte list \<Rightarrow> ws_abort + ws_s \<times> byte list \<times> byte list list" where
  "pure_recv ws rcv =
     (let xs = take (sdone ws) (frml ws) @ rcv in
      case (if length xs < 14 \<and> togo ws = 0 then Inr (ws, xs, [], [])
            else if togo ws \<noteq> 0 then pure_unpack (ws, xs, [], [])
            else pure_unpack (pure_header (ws, xs, [], []))) of
        Inl a \<Rightarrow> Inl a
      | Inr (ws1, ys, out, sent) \<Rightarrow>
          Inr (ws1\<lparr>frml := ys @ drop (length ys) (frml ws1), sdone := length ys\<rparr>,
               out @ replicate (ws_state ws1) 0x0A, sent))"

section \<open>The buffer\<close>

definition in_place :: "nat \<Rightarrow> nat \<Rightarrow> ws_recving \<Rightarrow> ws_pure \<Rightarrow> bool" where
  "in_place z nrd = (\<lambda>(ws, buf, pp, rp, sent) (ws', xs, out, sent').
     ws = ws' \<and> sent = sent' \<and> length buf = z \<and> nrd < z \<and> pp \<le> nrd \<and> rp \<le> pp \<and> ws_state ws \<le> 1
     \<and> length (frml ws) = 14 \<and> xs = take (nrd - pp) (drop pp buf) \<and> out = take rp buf)"

lemma buf_put_Some: "i + length xs \<le> length buf \<Longrightarrow> buf_put buf i xs = Some (take i buf @ xs @ drop (i + length xs) buf)"
  by (simp add: buf_put_def)

lemma buf_get_Some: "i + n \<le> length buf \<Longrightarrow> buf_get buf i n = Some (take n (drop i buf))"
  by (simp add: buf_get_def)

lemma drop_put:
  assumes "i + length xs \<le> k" "i \<le> length buf"
  shows "drop k (take i buf @ xs @ drop (i + length xs) buf) = drop k buf"
proof -
  have "k - (i + length xs) + (i + length xs) = k" using assms(1) by simp
  moreover have "k - min (length buf) i - length xs = k - (i + length xs)" using assms(2) by simp
  ultimately show ?thesis using assms by (simp add: drop_append)
qed

lemma header_in_place:
  assumes "in_place z nrd (ws, buf, pp, rp, sent) (ws, xs, out, sent)" "14 \<le> length xs"
  shows "\<exists>r. ws_unpack_header (ws, buf, pp, rp, sent) = Some r
    \<and> in_place z nrd r (pure_header (ws, xs, out, sent))"
proof -
  from assms have a: "length buf = z" "nrd < z" "pp + 14 \<le> nrd" "rp \<le> pp" "ws_state ws \<le> 1"
    "xs = take (nrd - pp) (drop pp buf)" "out = take rp buf"
    by (auto simp: in_place_def)
  let ?fr = "take 14 xs" and ?buf = "take rp buf @ [0x0A] @ drop (rp + 1) buf"
  let ?h = "frame_header_length ?fr"
  have g: "buf_get buf pp 14 = Some ?fr" using a by (simp add: buf_get_Some min_def)
  have p: "buf_put buf rp [0x0A] = Some ?buf" using a by (simp add: buf_put_Some)
  have u: "ws_unpack_header (ws, buf, pp, rp, sent)
      = Some (ws\<lparr>frml := ?fr, togo := frame_togo ?fr\<rparr>, ?buf, pp + ?h, rp + ws_state ws, sent)"
    unfolding ws_unpack_header_def using g p
    by (simp add: frame_togo_def frame_header_length_def Let_def)
  have h: "2 \<le> ?h" "?h \<le> 14" by (rule frame_header_bounds)+
  have "take (rp + ws_state ws) ?buf = take rp buf @ replicate (ws_state ws) 0x0A"
    using a by (cases "ws_state ws = 0") (auto simp: le_Suc_eq take_Cons')
  moreover have "drop (pp + ?h) ?buf = drop (pp + ?h) buf"
    using a h drop_put [of rp "[0x0A]" "pp + ?h" buf] by simp
  then have "take (nrd - (pp + ?h)) (drop (pp + ?h) ?buf) = drop ?h xs"
    using a by (simp add: drop_take add.commute)
  moreover have "length ?buf = z" using a by simp
  ultimately have "in_place z nrd (ws\<lparr>frml := ?fr, togo := frame_togo ?fr\<rparr>, ?buf, pp + ?h, rp + ws_state ws, sent)
      (pure_header (ws, xs, out, sent))"
    using a h assms(2) unfolding in_place_def pure_header_def by simp
  with u show ?thesis by blast
qed

lemma payload_in_place:
  assumes "in_place z nrd (ws, buf, pp, rp, sent) (ws, xs, out, sent)"
  shows "case pure_payload (ws, xs, out, sent) of
      Inl a \<Rightarrow> ws_unpack_payload nrd (ws, buf, pp, rp, sent) = Some (Inl a)
    | Inr p \<Rightarrow> \<exists>r. ws_unpack_payload nrd (ws, buf, pp, rp, sent) = Some (Inr r) \<and> in_place z nrd r p
        \<and> length (fst (snd p)) = nrd - fst (snd (snd r))"
proof -
  from assms have a: "length buf = z" "nrd < z" "pp \<le> nrd" "rp \<le> pp" "ws_state ws \<le> 1" "length (frml ws) = 14"
    "xs = take (nrd - pp) (drop pp buf)" "out = take rp buf"
    by (auto simp: in_place_def)
  have len: "length xs = nrd - pp" using a by simp
  define pz where "pz = min (unat (togo ws)) (length xs)"
  have pz: "min_z (unat (togo ws)) (size_diff nrd pp) = pz" "pz \<le> nrd - pp"
    using a(3) len by (auto simp: pz_def min_z_def size_diff_def)
  let ?pay = "take pz xs" and ?buf = "take rp buf @ take pz xs @ drop (rp + pz) buf"
  have g: "buf_get buf pp pz = Some ?pay" using a pz(2) by (simp add: buf_get_Some min_def)
  have pl: "length ?pay = pz" using pz(2) len by simp
  have "buf_put buf rp ?pay = Some ?buf"
    using a pz(2) pl buf_put_Some [of rp ?pay buf] by simp
  moreover have "drop (pp + pz) ?buf = drop (pp + pz) buf"
    using a pz(2) pl drop_put [of rp ?pay "pp + pz" buf] by simp
  then have "take (nrd - (pp + pz)) (drop (pp + pz) ?buf) = drop pz xs"
    using a by (simp add: drop_take add.commute)
  moreover have "take (rp + pz) ?buf = out @ ?pay" "length ?buf = z" using a pz(2) len pl by simp_all
  ultimately obtain buf1 where p: "buf_put buf rp ?pay = Some buf1"
    and rest: "take (nrd - (pp + pz)) (drop (pp + pz) buf1) = drop pz xs"
    and out: "take (rp + pz) buf1 = out @ ?pay" "length buf1 = z" by blast
  have le: "pp + pz \<le> nrd" using a(3) pz(2) by simp
  have pong: "take (nrd - (pp + pz)) (drop (pp + pz) buf) = drop pz xs"
    using a by (simp add: drop_take add.commute)
  let ?code = "fr_code (frml ws)"
  consider "?code \<in> {0x0, 0x1, 0x2, 0x8}" | "?code = 0x9" | "?code = 0xA"
    | "?code \<notin> {0x0, 0x1, 0x2, 0x8, 0x9, 0xA}" by blast
  then show ?thesis
  proof cases
    case 1
    then show ?thesis
      unfolding ws_unpack_payload_def pure_payload_def Let_def prod.case pz(1) pz_def [symmetric]
      using a(1-6) le rest out len by (simp add: in_place_def g p)
  next
    case 2
    then have "?code \<notin> {0x0, 0x1, 0x2, 0x8}" by simp
    with 2 show ?thesis
      unfolding ws_unpack_payload_def pure_payload_def Let_def prod.case pz(1) pz_def [symmetric]
      using a(1-6) le rest out len by (simp add: in_place_def g p)
  next
    case 3
    then have "?code \<notin> {0x0, 0x1, 0x2, 0x8}" "?code \<noteq> 0x9" by simp_all
    with 3 show ?thesis
      unfolding ws_unpack_payload_def pure_payload_def Let_def prod.case pz(1) pz_def [symmetric]
      using a(1-6) a(8) [symmetric] le pong len by (simp add: in_place_def)
  next
    case 4
    then show ?thesis
      unfolding ws_unpack_payload_def pure_payload_def Let_def prod.case pz(1) pz_def [symmetric] g p
      by simp
  qed
qed

lemma unpack_in_place:
  assumes "in_place z nrd r p"
  shows "case pure_unpack p of
      Inl a \<Rightarrow> ws_unpack nrd r = Some (Inl a)
    | Inr p' \<Rightarrow> \<exists>r'. ws_unpack nrd r = Some (Inr r') \<and> in_place z nrd r' p' \<and> length (fst (snd p')) \<le> 14
        \<and> length (fst (snd p')) = nrd - fst (snd (snd r'))"
  using assms
proof (induction p arbitrary: r rule: pure_unpack.induct)
  case (1 p)
  obtain ws xs out sent where p: "p = (ws, xs, out, sent)" by (rule prod_cases4)
  obtain ws' buf pp rp sent' where r: "r = (ws', buf, pp, rp, sent')" by (rule prod_cases5)
  have eq: "ws' = ws" "sent' = sent" using "1.prems" unfolding p r by (simp_all add: in_place_def)
  note pay = payload_in_place [OF "1.prems" [unfolded p r eq]]
  show ?case
  proof (cases "pure_payload (ws, xs, out, sent)")
    case (Inl a)
    with pay show ?thesis by (simp add: p r eq pure_unpack.simps [of "(ws, xs, out, sent)"] ws_unpack.simps [of nrd])
  next
    case (Inr p1)
    obtain ws1 xs1 out1 sent1 where p1: "p1 = (ws1, xs1, out1, sent1)" by (rule prod_cases4)
    from pay Inr obtain r1 where r1: "ws_unpack_payload nrd (ws, buf, pp, rp, sent) = Some (Inr r1)"
      "in_place z nrd r1 p1" "length xs1 = nrd - fst (snd (snd r1))" by (auto simp: p1)
    obtain buf1 pp1 rp1 where r1': "r1 = (ws1, buf1, pp1, rp1, sent1)"
      using r1(2) by (cases r1) (auto simp: p1 in_place_def)
    have len: "length xs1 = nrd - pp1" "pp1 \<le> nrd" using r1(2,3) by (auto simp: p1 r1' in_place_def)
    show ?thesis
    proof (cases "14 < length xs1")
      case True
      then have more: "pp1 + 14 < nrd" using len by simp
      from header_in_place [OF r1(2) [unfolded r1' p1]] True
      obtain r2 where r2: "ws_unpack_header (ws1, buf1, pp1, rp1, sent1) = Some r2"
        "in_place z nrd r2 (pure_header (ws1, xs1, out1, sent1))" by auto
      have e1: "ws_unpack nrd r = ws_unpack nrd r2"
        unfolding r eq ws_unpack.simps [of nrd "(ws, buf, pp, rp, sent)"] using r1(1) r2(1) more
        by (simp add: r1')
      have e2: "pure_unpack p = pure_unpack (pure_header (ws1, xs1, out1, sent1))"
        unfolding p pure_unpack.simps [of "(ws, xs, out, sent)"] using Inr True by (simp add: p1)
      show ?thesis
        unfolding e1 e2 by (rule "1.IH" [OF Inr [folded p, unfolded p1] refl refl refl True r2(2)])
    next
      case False
      then have "\<not> pp1 + 14 < nrd" using len by simp
      with r1 False Inr show ?thesis
        by (simp add: p r eq p1 r1' pure_unpack.simps [of "(ws, xs, out, sent)"]
            ws_unpack.simps [of nrd "(ws, buf, pp, rp, sent)"])
    qed
  qed
qed

section \<open>A call of \<open>ws_recv\<close>\<close>

text \<open>The connection between two calls; nothing is left over within a payload.\<close>

definition ws_ok :: "ws_s \<Rightarrow> bool" where
  "ws_ok ws \<longleftrightarrow> length (frml ws) = 14 \<and> sdone ws \<le> 14 \<and> ws_state ws \<le> 1 \<and> (togo ws \<noteq> 0 \<longrightarrow> sdone ws = 0)"

lemma togo_left:
  assumes "togo ws \<noteq> of_nat (min (unat (togo ws)) n)"
  shows "n \<le> unat (togo ws)"
proof (rule ccontr)
  assume "\<not> n \<le> unat (togo ws)"
  then have "min (unat (togo ws)) n = unat (togo ws)" by simp
  with assms show False by simp
qed

lemma pure_payload_left:
  "pure_payload (ws, xs, out, sent) = Inr (ws1, xs1, out1, sent1) \<Longrightarrow> togo ws1 \<noteq> 0 \<Longrightarrow> xs1 = []"
  by (auto simp: pure_payload_def Let_def split: if_splits dest!: togo_left)

lemma pure_unpack_left:
  "pure_unpack p = Inr (ws1, xs1, out1, sent1) \<Longrightarrow> togo ws1 = 0 \<or> xs1 = []"
proof (induction p rule: pure_unpack.induct)
  case (1 p)
  obtain ws xs out sent where p: "p = (ws, xs, out, sent)" by (rule prod_cases4)
  from "1.prems" obtain ws2 xs2 out2 sent2 where q: "pure_payload (ws, xs, out, sent) = Inr (ws2, xs2, out2, sent2)"
    unfolding p pure_unpack.simps [of "(ws, xs, out, sent)"] by (auto split: sum.splits)
  show ?case
  proof (cases "14 < length xs2")
    case True
    with "1.prems" q have "pure_unpack (pure_header (ws2, xs2, out2, sent2)) = Inr (ws1, xs1, out1, sent1)"
      unfolding p pure_unpack.simps [of "(ws, xs, out, sent)"] by simp
    with "1.IH" [OF q [folded p] refl refl refl True] show ?thesis .
  next
    case False
    with "1.prems" q have "ws1 = ws2" "xs1 = xs2"
      unfolding p pure_unpack.simps [of "(ws, xs, out, sent)"] by simp_all
    with pure_payload_left [OF q] show ?thesis by blast
  qed
qed

lemma stash_in_place:
  assumes "in_place z nrd r (ws, xs, out, sent)" "length xs \<le> 14" "length xs = nrd - fst (snd (snd r))"
  shows "\<exists>buf. ws_stash nrd r = Some (Inr (ws\<lparr>frml := xs @ drop (length xs) (frml ws), sdone := length xs\<rparr>,
      buf, length (out @ replicate (ws_state ws) 0x0A), sent))
    \<and> length buf = z \<and> take (length (out @ replicate (ws_state ws) 0x0A)) buf = out @ replicate (ws_state ws) 0x0A"
proof -
  obtain ws' buf pp rp sent' where r: "r = (ws', buf, pp, rp, sent')" by (rule prod_cases5)
  from assms have a: "ws' = ws" "sent' = sent" "length buf = z" "nrd < z" "pp \<le> nrd" "rp \<le> pp" "ws_state ws \<le> 1"
    "length (frml ws) = 14" "out = take rp buf" "xs = take (nrd - pp) (drop pp buf)" "length xs = nrd - pp"
    by (auto simp: in_place_def r)
  let ?buf = "take rp buf @ [0x0A] @ drop (rp + 1) buf"
  have g: "buf_get buf pp (nrd - pp) = Some xs" using a by (simp add: buf_get_Some)
  have f: "buf_put (frml ws) 0 xs = Some (xs @ drop (length xs) (frml ws))"
    using a(8) assms(2) by (simp add: buf_put_Some)
  have p: "buf_put buf rp [0x0A] = Some ?buf" using a by (simp add: buf_put_Some)
  have "length (out @ replicate (ws_state ws) 0x0A) = rp + ws_state ws" "length ?buf = z" using a by simp_all
  moreover have "take (rp + ws_state ws) ?buf = out @ replicate (ws_state ws) 0x0A"
    using a by (cases "ws_state ws = 0") (auto simp: le_Suc_eq take_Cons')
  moreover have "ws_stash nrd r = Some (Inr (ws\<lparr>frml := xs @ drop (length xs) (frml ws), sdone := nrd - pp\<rparr>,
      ?buf, rp + ws_state ws, sent))"
    using a(5) unfolding ws_stash_def r a(1,2) by (simp add: g f p)
  ultimately show ?thesis using a(11) by auto
qed

lemma ws_recv_in_place:
  assumes "ws_ok ws" "sdone ws + length rcv < length buf" "rcv \<noteq> []"
  shows "case pure_recv ws rcv of
      Inl a \<Rightarrow> ws_recv ws buf rcv = Some (Inl a)
    | Inr (ws', out, sent) \<Rightarrow> \<exists>buf'. ws_recv ws buf rcv = Some (Inr (Some (ws', buf', length out, sent)))
        \<and> length buf' = length buf \<and> take (length out) buf' = out \<and> ws_ok ws'"
proof -
  let ?st = "take (sdone ws) (frml ws)"
  let ?xs = "?st @ rcv" and ?nrd = "length rcv + sdone ws"
  let ?buf = "?xs @ drop ?nrd buf"
  from assms(1) have ok: "length (frml ws) = 14" "sdone ws \<le> 14" "ws_state ws \<le> 1" "length ?st = sdone ws"
    by (simp_all add: ws_ok_def)
  have b1: "buf_get (frml ws) 0 (sdone ws) = Some ?st" using ok by (simp add: buf_get_Some)
  have b2: "buf_put buf 0 ?st = Some (?st @ drop (sdone ws) buf)"
    using ok assms(2) buf_put_Some [of 0 ?st buf] by simp
  have b3: "buf_put (?st @ drop (sdone ws) buf) (sdone ws) rcv = Some ?buf"
    using ok assms(2) buf_put_Some [of "sdone ws" rcv "?st @ drop (sdone ws) buf"] by (simp add: add.commute)
  have start: "in_place (length buf) ?nrd (ws, ?buf, 0, 0, []) (ws, ?xs, [], [])"
    using ok assms(2) by (simp add: in_place_def)
  let ?p = "if length ?xs < 14 \<and> togo ws = 0 then Inr (ws, ?xs, [], [])
            else if togo ws \<noteq> 0 then pure_unpack (ws, ?xs, [], [])
            else pure_unpack (pure_header (ws, ?xs, [], []))"
  let ?u = "if ?nrd < 14 \<and> togo ws = 0 then Some (Inr (ws, ?buf, 0, 0, []))
            else if togo ws \<noteq> 0 then ws_unpack ?nrd (ws, ?buf, 0, 0, [])
            else do { r \<leftarrow> ws_unpack_header (ws, ?buf, 0, 0, []); ws_unpack ?nrd r }"
  have recv: "ws_recv ws buf rcv = do { u \<leftarrow> ?u;
          case u of
            Inl a \<Rightarrow> Some (Inl a)
          | Inr r \<Rightarrow> do {
              s \<leftarrow> ws_stash ?nrd r;
              case s of Inl a \<Rightarrow> Some (Inl a) | Inr x \<Rightarrow> Some (Inr (Some x)) } }"
    by (simp only: ws_recv_def b1 b2 b3 bind.bind_lunit Let_def assms(3) if_False)
  have len: "length ?xs = ?nrd" using ok by simp
  have step: "case ?p of Inl a \<Rightarrow> ?u = Some (Inl a)
    | Inr p' \<Rightarrow> \<exists>r'. ?u = Some (Inr r') \<and> in_place (length buf) ?nrd r' p' \<and> length (fst (snd p')) \<le> 14
        \<and> length (fst (snd p')) = ?nrd - fst (snd (snd r')) \<and> (togo (fst p') = 0 \<or> fst (snd p') = [])"
  proof (cases "?nrd < 14 \<and> togo ws = 0")
    case True
    with start len show ?thesis by simp
  next
    case False
    obtain r p where rp: "in_place (length buf) ?nrd r p" "?u = ws_unpack ?nrd r" "?p = pure_unpack p"
    proof (cases "togo ws = 0")
      case True
      with False len have "14 \<le> length ?xs" by simp
      from header_in_place [OF start this] obtain r0 where
        r0: "ws_unpack_header (ws, ?buf, 0, 0, []) = Some r0" "in_place (length buf) ?nrd r0 (pure_header (ws, ?xs, [], []))"
        by blast
      show thesis by (rule that [OF r0(2)]) (use True False len r0(1) in simp_all)
    next
      case togo: False
      show thesis by (rule that [OF start]) (use togo in simp_all)
    qed
    show ?thesis
      unfolding rp(2,3) using unpack_in_place [OF rp(1)] pure_unpack_left [of p]
      by (cases "pure_unpack p") fastforce+
  qed
  show ?thesis
  proof (cases "?p")
    case (Inl a)
    with step have "?u = Some (Inl a)" by simp
    with Inl show ?thesis unfolding pure_recv_def Let_def recv by simp
  next
    case (Inr p')
    obtain ws1 ys out sent where p': "p' = (ws1, ys, out, sent)" by (rule prod_cases4)
    from step Inr obtain r' where r': "?u = Some (Inr r')" "in_place (length buf) ?nrd r' (ws1, ys, out, sent)"
      "length ys \<le> 14" "length ys = ?nrd - fst (snd (snd r'))" "togo ws1 = 0 \<or> ys = []" by (auto simp: p')
    have "ws_state ws1 \<le> 1" "length (frml ws1) = 14" using r'(2) by (auto simp: in_place_def)
    with r'(3,5) have "ws_ok (ws1\<lparr>frml := ys @ drop (length ys) (frml ws1), sdone := length ys\<rparr>)"
      by (auto simp: ws_ok_def)
    with stash_in_place [OF r'(2-4)] r'(1) Inr show ?thesis
      unfolding pure_recv_def Let_def recv by (auto simp: p')
  qed
qed

section \<open>Frames that were sent\<close>

definition ws_frame :: "byte list \<Rightarrow> byte list" where
  "ws_frame msg = ws_send_header (length msg) @ msg"

lemma ucast_of_nat_byte: "(ucast (of_nat k :: byte) :: u64) = of_nat (k mod 256)"
  by (simp add: unsigned_of_nat take_bit_eq_mod)

lemma be_bytes_2: "be_bytes 2 n = [of_nat (n div 256), of_nat n]"
  by (simp add: be_bytes_def numeral_2_eq_2)

lemma be_bytes_8: "be_bytes 8 n = [of_nat (n div 256 ^ 7), of_nat (n div 256 ^ 6), of_nat (n div 256 ^ 5),
    of_nat (n div 256 ^ 4), of_nat (n div 256 ^ 3), of_nat (n div 256 ^ 2), of_nat (n div 256), of_nat n]"
proof -
  have "rev [0..<8] = [7, 6, 5, 4, 3, 2, 1, 0 :: nat]" by code_simp
  then show ?thesis by (simp add: be_bytes_def)
qed

lemma be_num_bytes_2:
  assumes "n < 65536"
  shows "be_num (be_bytes 2 n) = of_nat n"
proof -
  have "be_num (be_bytes 2 n) = of_nat (n div 256) * 256 + of_nat (n mod 256)"
    using assms by (simp add: be_bytes_2 be_num_def ucast_of_nat_byte)
  also have "\<dots> = of_nat (n div 256 * 256 + n mod 256)"
    by (simp only: of_nat_add of_nat_mult of_nat_numeral)
  finally show ?thesis by simp
qed

lemma short_length_byte:
  assumes "n < 126"
  shows "unat ((0x80 OR of_nat n) AND 0x7F :: byte) = n" "bit (0x80 OR of_nat n :: byte) 7"
proof -
  have "(0x80 OR of_nat n :: byte) AND 0x7F = take_bit 7 (0x80 OR of_nat n)"
    by (simp add: take_bit_eq_mask mask_eq_exp_minus_1)
  also have "\<dots> = take_bit 7 (of_nat n)" by (simp only: take_bit_or) simp
  finally have "unat ((0x80 OR of_nat n) AND 0x7F :: byte) = take_bit 7 (unat (of_nat n :: byte))"
    by (simp add: unsigned_take_bit_eq)
  also have "\<dots> = n" using assms by (simp add: unat_of_nat take_bit_eq_mod)
  finally show "unat ((0x80 OR of_nat n) AND 0x7F :: byte) = n" .
  show "bit (0x80 OR of_nat n :: byte) 7" by (simp add: bit_or_iff)
qed

lemma short_length_xor:
  assumes "n < 126"
  shows "0x80 XOR of_nat n = (0x80 OR of_nat n :: byte)"
proof (rule bit_word_eqI)
  fix i assume "i < LENGTH(8)"
  have "take_bit 7 n = n" using assms by (simp add: take_bit_eq_mod)
  then have "\<not> bit n 7" by (metis bit_take_bit_iff less_irrefl)
  moreover have "bit (0x80 :: byte) i \<Longrightarrow> i = 7"
    using \<open>i < LENGTH(8)\<close> bit_push_bit_iff [of 7 "1 :: byte" i] by (simp add: bit_1_iff)
  ultimately show "bit (0x80 XOR of_nat n :: byte) i = bit (0x80 OR of_nat n :: byte) i"
    by (auto simp: bit_xor_iff bit_or_iff bit_of_nat_iff)
qed

lemma sent_header:
  assumes "length msg < 65536" "14 \<le> length (ws_frame msg @ rest)"
  defines "fr \<equiv> take 14 (ws_frame msg @ rest)"
  shows "frame_togo fr = of_nat (length msg)" "frame_header_length fr = length (ws_send_header (length msg))"
    "fr_code fr = 1" "fr_finp fr" "length fr = 14"
proof -
  show "length fr = 14" using assms(2) by (simp add: fr_def)
  consider "length msg < 126" | "126 \<le> length msg" "length msg < 65536" using assms(1) by linarith
  then have "frame_togo fr = of_nat (length msg) \<and> frame_header_length fr = length (ws_send_header (length msg))
    \<and> fr_code fr = 1 \<and> fr_finp fr"
  proof cases
    case 1
    let ?b = "0x80 OR of_nat (length msg) :: byte"
    have h: "ws_send_header (length msg) = [0x81, ?b, 0, 0, 0, 0]" using 1 by (simp add: ws_send_header_def)
    have fr: "fr ! 0 = 0x81" "fr ! Suc 0 = ?b" by (simp_all add: fr_def ws_frame_def h)
    have pl: "fr_plen fr = length msg" "fr_mask fr"
      using short_length_byte [OF 1] by (simp_all add: fr_plen_def fr_mask_def fr)
    have "fr_code fr = 1" "fr_finp fr" by (simp_all add: fr_code_def fr_finp_def fr)
    with 1 pl show ?thesis by (simp add: frame_togo_def frame_header_length_def h)
  next
    case 2
    have h: "ws_send_header (length msg) = [0x81, 0xFE] @ be_bytes 2 (length msg) @ [0, 0, 0, 0]"
      using 2 by (simp add: ws_send_header_def)
    have fr: "fr ! 0 = 0x81" "fr ! Suc 0 = 0xFE" "take 2 (drop 2 fr) = be_bytes 2 (length msg)"
      by (simp_all add: fr_def ws_frame_def h be_bytes_2)
    have "fr_plen fr = 126" "fr_mask fr" "fr_code fr = 1" "fr_finp fr"
      by (simp_all add: fr_plen_def fr_mask_def fr_code_def fr_finp_def fr)
    with 2 fr(3) show ?thesis
      by (simp add: frame_togo_def frame_header_length_def h be_bytes_2 be_num_bytes_2 [unfolded be_bytes_2])
  qed
  then show "frame_togo fr = of_nat (length msg)" "frame_header_length fr = length (ws_send_header (length msg))"
    "fr_code fr = 1" "fr_finp fr" by blast+
qed

lemma pure_unpack_frame:
  assumes "length msg < 65536" "14 \<le> length (ws_frame msg @ rest)"
  shows "\<exists>ws1. togo ws1 = 0 \<and> ws_state ws1 = 1 \<and> length (frml ws1) = 14 \<and>
    pure_unpack (pure_header (ws, ws_frame msg @ rest, out, sent)) =
      (let p = (ws1, rest, out @ replicate (ws_state ws) 0x0A @ msg, sent) in
       if 14 < length rest then pure_unpack (pure_header p) else Inr p)"
proof -
  define fr where "fr = take 14 (ws_frame msg @ rest)"
  note h = sent_header [OF assms, folded fr_def]
  define ws0 where "ws0 = ws\<lparr>frml := fr, togo := of_nat (length msg)\<rparr>"
  define ws1 where "ws1 = ws0\<lparr>togo := 0, ws_state := 1\<rparr>"
  let ?out = "out @ replicate (ws_state ws) 0x0A"
  have hdr: "pure_header (ws, ws_frame msg @ rest, out, sent) = (ws0, msg @ rest, ?out, sent)"
    unfolding pure_header_def prod.case fr_def [symmetric] h(1,2) by (simp add: ws_frame_def ws0_def)
  have "unat (of_nat (length msg) :: u64) = length msg"
    using assms(1) by (simp add: unat_of_nat take_bit_nat_eq_self)
  then have "pure_payload (ws0, msg @ rest, ?out, sent) = Inr (ws1, rest, ?out @ msg, sent)"
    using h(3,4) by (simp add: pure_payload_def Let_def ws0_def ws1_def)
  then have "pure_unpack (ws0, msg @ rest, ?out, sent) = (let p = (ws1, rest, ?out @ msg, sent) in
       if 14 < length rest then pure_unpack (pure_header p) else Inr p)"
    by (simp add: pure_unpack.simps [of "(ws0, msg @ rest, ?out, sent)"] Let_def)
  with hdr h(5) show ?thesis
    by (intro exI [of _ ws1]) (simp add: ws1_def ws0_def)
qed

definition ws_lines :: "byte list list \<Rightarrow> byte list" where
  "ws_lines msgs = concat (map (\<lambda>m. m @ [0x0A]) msgs)"

lemma ws_send_header_length: "6 \<le> length (ws_send_header n)"
  by (simp add: ws_send_header_def be_bytes_def Let_def)

lemma pure_unpack_frames:
  assumes "\<forall>m \<in> set (msg # msgs). 9 \<le> length m \<and> length m < 65536"
  shows "\<exists>ws1. togo ws1 = 0 \<and> ws_state ws1 = 1 \<and> length (frml ws1) = 14 \<and>
    pure_unpack (pure_header (ws, concat (map ws_frame (msg # msgs)), out, sent))
      = Inr (ws1, [], butlast (out @ replicate (ws_state ws) 0x0A @ ws_lines (msg # msgs)), sent)"
  using assms
proof (induction msgs arbitrary: msg ws out)
  case Nil
  have "14 \<le> length (ws_frame msg @ [])"
    using Nil ws_send_header_length [of "length msg"] by (simp add: ws_frame_def)
  from pure_unpack_frame [OF _ this, of ws out sent] Nil show ?case
    by (auto simp: ws_lines_def butlast_append)
next
  case (Cons msg2 msgs)
  let ?rest = "concat (map ws_frame (msg2 # msgs))"
  have fl: "15 \<le> length (ws_frame m)" if "9 \<le> length m" for m
    using that ws_send_header_length [of "length m"] by (simp add: ws_frame_def)
  have "15 \<le> length (ws_frame msg2)" "15 \<le> length (ws_frame msg)"
    using Cons.prems by (auto intro!: fl)
  then have r: "14 < length ?rest" "14 \<le> length (ws_frame msg @ ?rest)" by simp_all
  from pure_unpack_frame [OF _ r(2), of ws out sent] Cons.prems r(1)
  obtain ws1 where 1: "ws_state ws1 = 1" "pure_unpack (pure_header (ws, ws_frame msg @ ?rest, out, sent))
      = pure_unpack (pure_header (ws1, ?rest, out @ replicate (ws_state ws) 0x0A @ msg, sent))"
    by (auto simp: Let_def)
  from Cons.IH [of msg2 ws1 "out @ replicate (ws_state ws) 0x0A @ msg"] Cons.prems 1 show ?case
    by (auto simp: ws_lines_def butlast_append)
qed

section \<open>Properties\<close>

definition ws0 :: ws_s where
  "ws0 = \<lparr>ws_p = WS_PROTO_RAW, ws_ssl = False, togo = 0, sdone = 0, ws_state = 0,
          frml = replicate 14 0, ws_host = []\<rparr>"

lemma ws_ok0 [simp]: "ws_ok ws0"
  by (simp add: ws_ok_def ws0_def)

lemma pure_unpack_huh: "pure_unpack p = Inl a \<Longrightarrow> a = WS_HUH"
proof (induction p rule: pure_unpack.induct)
  case (1 p)
  show ?case
  proof (cases "pure_payload p")
    case (Inl b)
    then have "b = WS_HUH" by (cases p) (auto simp: pure_payload_def Let_def split: if_splits)
    with "1.prems" Inl show ?thesis by (simp add: pure_unpack.simps [of p])
  next
    case (Inr q)
    obtain ws xs out sent where q: "q = (ws, xs, out, sent)" by (rule prod_cases4)
    show ?thesis
    proof (cases "14 < length xs")
      case True
      with "1.prems" Inr q have "pure_unpack (pure_header (ws, xs, out, sent)) = Inl a"
        by (simp add: pure_unpack.simps [of p])
      with "1.IH" [OF Inr [unfolded q] refl refl refl True] show ?thesis .
    next
      case False
      with "1.prems" Inr q show ?thesis by (simp add: pure_unpack.simps [of p])
    qed
  qed
qed

text \<open>What a read of whole messages yields: the newline of the state, then the lines.\<close>

definition ws_read :: "ws_s \<Rightarrow> byte list list \<Rightarrow> byte list" where
  "ws_read ws msgs = replicate (ws_state ws) 0x0A @ ws_lines msgs"

lemma pure_recv_frames:
  assumes "togo ws = 0" "sdone ws = 0" "msgs \<noteq> []"
    and "\<forall>m \<in> set msgs. 9 \<le> length m \<and> length m < 65536"
  shows "\<exists>ws'. pure_recv ws (concat (map ws_frame msgs)) = Inr (ws', ws_read ws msgs, [])
    \<and> togo ws' = 0 \<and> sdone ws' = 0 \<and> ws_state ws' = 1"
proof -
  obtain msg ms where m: "msgs = msg # ms" using assms(3) by (cases msgs) auto
  obtain ws1 where u: "togo ws1 = 0" "ws_state ws1 = 1" "pure_unpack (pure_header (ws, concat (map ws_frame msgs), [], []))
      = Inr (ws1, [], butlast (ws_read ws msgs), [])"
    using pure_unpack_frames [of msg ms ws "[]" "[]"] assms(4) m by (auto simp: ws_read_def)
  have "15 \<le> length (ws_frame msg)"
    using assms(4) ws_send_header_length [of "length msg"] by (simp add: m ws_frame_def)
  then have "\<not> length (concat (map ws_frame msgs)) < 14" by (simp add: m)
  moreover have "butlast (ws_read ws msgs) @ [0x0A] = ws_read ws msgs"
  proof -
    have "ws_lines msgs \<noteq> []" "last (ws_lines msgs) = 0x0A" if "msgs \<noteq> []" for msgs
      using that by (induction msgs) (auto simp: ws_lines_def)
    then have "ws_read ws msgs \<noteq> []" "last (ws_read ws msgs) = 0x0A" using assms(3) by (simp_all add: ws_read_def)
    then show ?thesis using append_butlast_last_id by metis
  qed
  ultimately show ?thesis using u assms(1-2) by (simp add: pure_recv_def Let_def)
qed

text \<open>
  C11. In a buffer with one byte to spare, \<open>ws_recv\<close> never accesses memory outside the
  buffer or the stash and never reaches the BUGGERY abort: it computes, in place, the result
  of unpacking the bytes as lists, and leaves the connection fit for the next call.
\<close>

theorem ws_recv_refines:
  assumes "ws_ok ws" "sdone ws + length rcv < length buf" "rcv \<noteq> []"
  shows "(\<exists>a. pure_recv ws rcv = Inl WS_HUH \<and> ws_recv ws buf rcv = Some (Inl WS_HUH)) \<or>
    (\<exists>ws' out sent buf'. pure_recv ws rcv = Inr (ws', out, sent)
       \<and> ws_recv ws buf rcv = Some (Inr (Some (ws', buf', length out, sent)))
       \<and> length buf' = length buf \<and> take (length out) buf' = out \<and> ws_ok ws')"
proof -
  have "pure_recv ws rcv \<noteq> Inl WS_BUGGERY"
    by (auto simp: pure_recv_def Let_def split: sum.split_asm if_split_asm dest!: pure_unpack_huh)
  then have "\<And>a. pure_recv ws rcv = Inl a \<Longrightarrow> a = WS_HUH" by (metis ws_abort.exhaust)
  with ws_recv_in_place [OF assms] show ?thesis by (cases "pure_recv ws rcv") auto
qed

theorem ws_recv_refines_witness:
  "\<exists>ws' out sent buf'. pure_recv ws0 (ws_frame (replicate 9 7)) = Inr (ws', out, sent)
     \<and> ws_recv ws0 (replicate 20 0) (ws_frame (replicate 9 7)) = Some (Inr (Some (ws', buf', length out, sent)))"
proof -
  have "\<not> pure_recv ws0 (ws_frame (replicate 9 7)) = Inl WS_HUH"
    using pure_unpack_frames [of "replicate 9 7" "[]" ws0 "[]" "[]"] pure_recv_frames [of ws0 "[replicate 9 7]"]
    by (auto simp: ws0_def)
  with ws_recv_refines [of ws0 "ws_frame (replicate 9 7)" "replicate 20 0"] show ?thesis
    by (auto simp: ws0_def ws_ok_def ws_frame_def ws_send_header_def)
qed

text \<open>
  C12. Messages of 9 to 65535 bytes that \<open>ws_send\<close> frames and that arrive in one read, nothing being
  left over from the one before, come out as one line each, in order, and nothing is left over
  again. The state says what is in front of them: nothing on a new connection, an empty
  line for every read that follows one that ended with a complete message, such as this one.
\<close>

theorem ws_send_recv_roundtrip:
  assumes "ws_ok ws" "togo ws = 0" "sdone ws = 0" "msgs \<noteq> []"
    and "\<forall>m \<in> set msgs. 9 \<le> length m \<and> length m < 65536" "length (concat (map ws_frame msgs)) < length buf"
  defines "out \<equiv> replicate (ws_state ws) 0x0A @ concat (map (\<lambda>m. m @ [0x0A]) msgs)"
  shows "\<exists>ws' buf'. ws_recv ws buf (concat (map ws_frame msgs)) = Some (Inr (Some (ws', buf', length out, [])))
    \<and> take (length out) buf' = out \<and> ws_ok ws' \<and> togo ws' = 0 \<and> sdone ws' = 0 \<and> ws_state ws' = 1"
proof -
  have out: "ws_read ws msgs = out" by (simp add: out_def ws_read_def ws_lines_def)
  obtain ws' where p: "pure_recv ws (concat (map ws_frame msgs)) = Inr (ws', out, [])"
    "togo ws' = 0" "sdone ws' = 0" "ws_state ws' = 1"
    using pure_recv_frames [OF assms(2-5)] unfolding out by blast
  obtain m ms where "msgs = m # ms" using assms(4) by (cases msgs) auto
  then have "concat (map ws_frame msgs) \<noteq> []" using assms(5) by (auto simp: ws_frame_def)
  from ws_recv_in_place [OF assms(1) _ this, of buf] assms(3,6) p show ?thesis by auto
qed

text \<open>Two reads, one after the other.\<close>

theorem ws_send_recv_roundtrip_witness:
  "\<exists>ws1 buf1 ws2 buf2. ws_recv ws0 (replicate 60 0) (ws_frame (replicate 9 7) @ ws_frame (replicate 20 8))
      = Some (Inr (Some (ws1, buf1, 31, [])))
    \<and> take 31 buf1 = replicate 9 7 @ [0x0A] @ replicate 20 8 @ [0x0A]
    \<and> ws_recv ws1 (replicate 60 0) (ws_frame (replicate 10 9)) = Some (Inr (Some (ws2, buf2, 12, [])))
    \<and> take 12 buf2 = [0x0A] @ replicate 10 9 @ [0x0A]"
proof -
  have len: "length (ws_frame m) = length m + 6" if "length m < 126" for m
    using that by (simp add: ws_frame_def ws_send_header_def)
  obtain ws1 buf1 where 1: "ws_recv ws0 (replicate 60 0) (ws_frame (replicate 9 7) @ ws_frame (replicate 20 8))
      = Some (Inr (Some (ws1, buf1, 31, [])))" "take 31 buf1 = replicate 9 7 @ [0x0A] @ replicate 20 8 @ [0x0A]"
    "ws_ok ws1" "togo ws1 = 0" "sdone ws1 = 0" "ws_state ws1 = 1"
    using ws_send_recv_roundtrip [of ws0 "[replicate 9 7, replicate 20 8]" "replicate 60 0"]
    by (auto simp: ws0_def ws_ok_def len)
  from ws_send_recv_roundtrip [OF 1(3-5), of "[replicate 10 9]" "replicate 60 0"] 1(6) have
    "\<exists>ws2 buf2. ws_recv ws1 (replicate 60 0) (ws_frame (replicate 10 9)) = Some (Inr (Some (ws2, buf2, 12, [])))
    \<and> take 12 buf2 = [0x0A] @ replicate 10 9 @ [0x0A]"
    by (auto simp: len)
  with 1(1,2) show ?thesis by blast
qed

text \<open>
  C13. The byte to spare is needed: when a call fills the whole buffer with payload, the
  newline that finalises the output is written one byte behind the end of the buffer.
\<close>

theorem ws_recv_overrun:
  assumes "ws_ok ws" "0 < length buf" "length rcv = length buf" "length rcv \<le> unat (togo ws)"
    and "fr_code (frml ws) = 1"
  shows "ws_recv ws buf rcv = None"
proof -
  have z: "togo ws \<noteq> 0" "sdone ws = 0" using assms by (auto simp: ws_ok_def)
  have ne: "rcv \<noteq> []" using assms(2,3) by auto
  have pay: "min_z (unat (togo ws)) (size_diff (length rcv) 0) = length rcv"
    using assms(4) by (simp add: min_z_def size_diff_def)
  obtain ws1 where "ws_unpack_payload (length rcv) (ws, rcv, 0, 0, []) = Some (Inr (ws1, rcv, length rcv, length rcv, []))"
    using assms(5) pay by (simp add: ws_unpack_payload_def Let_def buf_get_def buf_put_def)
  then have "ws_unpack (length rcv) (ws, rcv, 0, 0, []) = Some (Inr (ws1, rcv, length rcv, length rcv, []))"
    by (simp add: ws_unpack.simps [of "length rcv"])
  moreover have "ws_stash (length rcv) (ws1, rcv, length rcv, length rcv, []) = None"
    by (auto simp: ws_stash_def buf_get_def buf_put_def split: bind_splits)
  moreover have "buf_put (take 0 buf @ [] @ drop (0 + length []) buf) 0 rcv = Some rcv"
    using assms(3) by (simp add: buf_put_def)
  ultimately show ?thesis
    using z ne by (simp add: ws_recv_def buf_get_def buf_put_def [of _ _ "[]"] Let_def)
qed

theorem ws_recv_overrun_witness:
  "ws_recv (ws0\<lparr>frml := 0x81 # replicate 13 0, togo := 100\<rparr>) (replicate 16 0) (replicate 16 7) = None"
  by (rule ws_recv_overrun) (simp_all add: ws0_def ws_ok_def fr_code_def)

text \<open>
  A message of 65536 bytes is framed with a wrong length: the 16 bit groups of its length
  are stored in reverse order, and the receiver expects 4294967296 bytes.
\<close>

theorem ws_send_long_length:
  assumes "length msg = 65536"
  shows "frame_togo (take 14 (ws_frame msg)) = 4294967296"
proof -
  have "ws_send_header 65536 = [0x81, 0xFF, 0, 0, 0, 1, 0, 0, 0, 0, 0, 0, 0, 0]"
    by (simp add: ws_send_header_def be_bytes_8)
  with assms have "take 14 (ws_frame msg) = [0x81, 0xFF, 0, 0, 0, 1, 0, 0, 0, 0, 0, 0, 0, 0]"
    by (simp add: ws_frame_def)
  moreover have "frame_togo [0x81, 0xFF, 0, 0, 0, 1, 0, 0, 0, 0, 0, 0, 0, 0] = 4294967296"
    by (simp add: frame_togo_def fr_plen_def be_num_def)
  ultimately show ?thesis by simp
qed

theorem ws_send_long_length_witness:
  "frame_togo (take 14 (ws_frame (replicate 65536 7))) = 4294967296"
  by (rule ws_send_long_length) (rule length_replicate)

text \<open>
  A pong, also the one that answers a ping, is a complete masked control frame with the
  opcode of a pong that carries the message up to 125 bytes of it.
\<close>

theorem ws_pong_frame:
  "fr_code (ws_pong msg) = 0xA \<and> fr_finp (ws_pong msg) \<and> fr_mask (ws_pong msg)
     \<and> frame_togo (ws_pong msg) = of_nat (min 125 (length msg))
     \<and> drop (frame_header_length (ws_pong msg)) (ws_pong msg) = take 125 msg"
proof (cases "msg = []")
  case True
  then show ?thesis
    by (simp add: ws_pong_def pong_empty_def fr_code_def fr_finp_def fr_mask_def fr_plen_def frame_togo_def
        frame_header_length_def)
next
  case False
  define n where "n = min 125 (length msg)"
  have n: "n < 126" "ws_pong msg = [0x8a, 0x80 XOR of_nat n, 0, 0, 0, 0] @ take 125 msg"
    using False by (auto simp: ws_pong_def n_def min_def Let_def)
  have x: "0x80 XOR of_nat n = (0x80 OR of_nat n :: byte)"
    using short_length_xor [OF n(1)] .
  have "fr_plen (ws_pong msg) = n" "fr_mask (ws_pong msg)" "fr_code (ws_pong msg) = 0xA" "fr_finp (ws_pong msg)"
    using short_length_byte [OF n(1)] by (simp_all add: n(2) x fr_plen_def fr_mask_def fr_code_def fr_finp_def)
  with n show ?thesis by (simp add: frame_togo_def frame_header_length_def flip: n_def)
qed

end
