(* ===== verification/Ws.thy ===== *)
theory Ws
  imports Ws_Spec
begin

text \<open>
  The rest of \<open>src/ws.c\<close>: \<open>ws_open\<close> with the parsing of the URL, the requests and the
  handshakes, \<open>ws_close\<close>, and the REST variants \<open>rest_recv\<close> and \<open>rest_send\<close>. Host names,
  sockets and TLS are the environment: it says whether a connection is made and what each
  read delivers. Requests are strings of characters; what goes over the wire are bytes.
\<close>

section \<open>The URL\<close>

abbreviation CRLF :: string where "CRLF \<equiv> [CR, LF]"

text \<open>\<open>s[k]\<close> for a NUL-terminated \<open>s\<close>; further on there is no character.\<close>

definition char_at :: "string \<Rightarrow> nat \<Rightarrow> char option" where
  "char_at s k = (if k < length s then Some (s ! k) else if k = length s then Some NUL else None)"

text \<open>One alternative of \<open>guess_proto\<close>: the host and whether the scheme ends in \<open>s\<close>.\<close>

definition guess_scheme :: "string \<Rightarrow> string \<Rightarrow> nat \<Rightarrow> (string \<times> bool) option option" where
  "guess_scheme url scheme k =
     (if prefix scheme url
      then do {
        c \<leftarrow> char_at url k;
        (let sslp = (c = CHR ''s''); r = drop (if sslp then k + 1 else k) url in
         Some (if prefix ''://'' r then Some (drop 3 r, sslp) else None)) }
      else Some None)"

definition guess_proto :: "string \<Rightarrow> (ws_proto_t \<times> string \<times> bool) option" where
  "guess_proto url = do {
     r \<leftarrow> guess_scheme url ''ws'' 2;
     case r of Some (host, sslp) \<Rightarrow> Some (WS_PROTO_RAW, host, sslp)
     | None \<Rightarrow> do {
     r \<leftarrow> guess_scheme url ''wamp'' 4;
     case r of Some (host, sslp) \<Rightarrow> Some (WS_PROTO_WAMP, host, sslp)
     | None \<Rightarrow> do {
     r \<leftarrow> guess_scheme url ''http'' 4;
     case r of Some (host, sslp) \<Rightarrow> Some (WS_PROTO_REST, host, sslp)
     | None \<Rightarrow> do {
     r \<leftarrow> guess_scheme url ''sio'' 4;
     case r of
       Some (host, sslp) \<Rightarrow>
         Some (if url ! 3 = CHR ''1'' then WS_PROTO_SIO1 else WS_PROTO_SIO3, host, sslp)
     | None \<Rightarrow> Some (WS_PROTO_RAW, url, False) } } } }"

text \<open>\<open>u_hostport\<close> is the host with the port put back, \<open>u_rsrc\<close> what follows the first slash.\<close>

record ws_url =
  u_proto :: ws_proto_t
  u_ssl :: bool
  u_host :: string
  u_hostport :: string
  u_port :: nat
  u_rsrc :: string

text \<open>The first part of \<open>ws_open\<close>; \<open>Some None\<close> is the way to \<open>nil\<close>.\<close>

definition ws_parse_url :: "string \<Rightarrow> ws_url option option" where
  "ws_parse_url url = do {
     (p, r, sslp) \<leftarrow> guess_proto url;
     (let (hp, rsrc) = (case memchr (CHR ''/'') r of
                          None \<Rightarrow> (r, [])
                        | Some on \<Rightarrow> (take (length r - length on) r, tl on)) in
      case memchr (CHR '':'') hp of
        None \<Rightarrow> Some (Some \<lparr>u_proto = p, u_ssl = sslp, u_host = hp, u_hostport = hp,
                   u_port = (if sslp then 443 else 80), u_rsrc = rsrc\<rparr>)
      | Some on \<Rightarrow>
          (let x = unat (fst (strtoul 10 (tl on))) in
           if x = 0 then Some None
           else if x \<ge> 65536 then Some None
           else Some (Some \<lparr>u_proto = p, u_ssl = sslp, u_host = take (length hp - length on) hp,
                  u_hostport = hp, u_port = x, u_rsrc = rsrc\<rparr>))) }"

section \<open>The requests\<close>

definition sio_request :: "ws_proto_t \<Rightarrow> string \<Rightarrow> string \<Rightarrow> string" where
  "sio_request p host rsrc =
     (let r0 = ''GET '' @ (if deref rsrc \<noteq> CHR ''/'' then ''/'' else []) @ rsrc;
          r1 = (if last r0 \<noteq> CHR ''/'' then r0 @ ''/'' else r0);
          r2 = r1 @ (if p = WS_PROTO_SIO1 then ''socket.io/1/ HTTP/1.1'' @ CRLF @ ''Host: ''
                     else if p = WS_PROTO_SIO3
                     then ''socket.io/?EIO=3&transport=polling HTTP/1.1'' @ CRLF @ ''Host: ''
                     else [])
      in r2 @ host @ CRLF @ ''User-Agent: Dark Ninja Secret/1.0'' @ CRLF @ ''Accept: */*'' @ CRLF @ CRLF)"

definition CRLF2 :: "byte list" where
  "CRLF2 = [0x0D, 0x0A, 0x0D, 0x0A]"

text \<open>
  Reading up to the end of the header: the body that came with it, or else the next read;
  \<open>None\<close> when a read fails.
\<close>

fun sio_read :: "byte list list \<Rightarrow> (byte list \<times> byte list list) option" where
  "sio_read [] = None"
| "sio_read (r # rs) =
     (if r = [] then None
      else (case xmemmem r CRLF2 of
              None \<Rightarrow> sio_read rs
            | Some body \<Rightarrow>
                if body \<noteq> [] then Some (body, rs)
                else (case rs of
                        [] \<Rightarrow> None
                      | r2 # rs2 \<Rightarrow> if r2 = [] then None else Some (r2, rs2))))"

fun skip_through :: "'a \<Rightarrow> 'a list \<Rightarrow> 'a list" where
  "skip_through c [] = []"
| "skip_through c (x # xs) = (if x = c then xs else skip_through c xs)"

text \<open>The session id in the body, \<open>NULL\<close> being \<open>None\<close>.\<close>

definition sio_sid :: "ws_proto_t \<Rightarrow> byte list \<Rightarrow> byte list option" where
  "sio_sid p body =
     (if p = WS_PROTO_SIO1
      then (case memchr (byte_of_char CHR '':'') body of
              None \<Rightarrow> None
            | Some eos \<Rightarrow> Some (rev (takeWhile (\<lambda>b. b \<noteq> 0x0A) (rev (take (length body - length eos) body)))))
      else (case xmemmem body (bytes_of [DQUOTE, CHR ''s'', CHR ''i'', CHR ''d'', DQUOTE]) of
              None \<Rightarrow> None
            | Some r \<Rightarrow>
                (let sid = takeWhile (\<lambda>b. b \<noteq> byte_of_char DQUOTE)
                       (skip_through (byte_of_char DQUOTE) (skip_through (byte_of_char CHR '':'') r))
                 in if sid = [] then None else Some sid)))"

text \<open>
  \<open>_sioi\<close> for the two socket.io protocols: what is sent, and the resource to open, \<open>None\<close> for
  -1, with the reads that are left. The request and the resource are built in \<open>gbuf\<close>; the test
  of the last byte of an empty resource would look before it.
\<close>

definition ws_sioi ::
  "nat \<Rightarrow> ws_proto_t \<Rightarrow> string \<Rightarrow> string \<Rightarrow> byte list list
    \<Rightarrow> (byte list list \<times> (byte list \<times> byte list list) option) option" where
  "ws_sioi gz p host rsrc reads = do {
     check (length (sio_request p host rsrc) \<le> gz);
     (let sent = [bytes_of (sio_request p host rsrc)] in
      case sio_read reads of
        None \<Rightarrow> Some (sent, None)
      | Some (body, rs) \<Rightarrow>
          (case sio_sid p body of
             None \<Rightarrow> Some (sent, None)
           | Some sid \<Rightarrow>
               if length sid \<ge> 64 \<or> length sid \<ge> gz then Some (sent, None)
               else do {
                 check (rsrc \<noteq> []);
                 (let r = bytes_of ((if last rsrc \<noteq> CHR ''/'' then rsrc @ ''/'' else rsrc)
                     @ (if p = WS_PROTO_SIO1 then ''socket.io/1/websocket/''
                        else ''socket.io/?EIO=3&transport=websocket&t=1234567890000&sid='')) @ sid
                  in do { check (length r + 1 \<le> gz); Some (sent, Some (r, rs)) }) })) }"

definition ws_key_lines :: string where
  "ws_key_lines = ''Sec-WebSocket-Version: 13'' @ CRLF @ ''Sec-WebSocket-Key: e8w+o5wQsV0rXFezPUS8XQ=='' @ CRLF"

definition init_request :: "ws_proto_t \<Rightarrow> string \<Rightarrow> byte list \<Rightarrow> byte list" where
  "init_request p host rsrc =
     bytes_of (''GET '' @ (if rsrc = [] \<or> hd rsrc \<noteq> byte_of_char CHR ''/'' then ''/'' else [])) @ rsrc
     @ bytes_of ('' HTTP/1.1'' @ CRLF @ ''Host: '' @ host @ CRLF
         @ (case p of
              WS_PROTO_WAMP \<Rightarrow> ws_key_lines @ ''Sec-WebSocket-Protocol: wamp.2.json'' @ CRLF
                @ ''Upgrade: websocket'' @ CRLF @ ''Connection: Upgrade'' @ CRLF @ CRLF
            | WS_PROTO_REST \<Rightarrow> ''User-Agent: Mozilla/4.0'' @ CRLF @ CRLF
            | _ \<Rightarrow> ws_key_lines @ ''Upgrade: websocket'' @ CRLF @ ''Connection: Upgrade'' @ CRLF @ CRLF))"

text \<open>
  \<open>_init\<close>: the request; whether the protocol switch is confirmed in what the first read peeks
  at (the request is what \<open>gbuf\<close> holds behind it); and how many bytes are taken off the wire.
\<close>

definition ws_init ::
  "nat \<Rightarrow> ws_proto_t \<Rightarrow> string \<Rightarrow> byte list \<Rightarrow> byte list list \<Rightarrow> (byte list \<times> bool \<times> nat) option" where
  "ws_init gz p host rsrc reads =
     (let req = init_request p host rsrc in do {
        check (length req \<le> gz);
        (case reads of
           [] \<Rightarrow> Some (req, False, 0)
         | pk # _ \<Rightarrow>
             if pk = [] then Some (req, False, 0)
             else Some (req, take 12 (pk @ drop (length pk) req) = bytes_of ''HTTP/1.1 101'',
               (case xmemmem pk CRLF2 of None \<Rightarrow> 0 | Some rest \<Rightarrow> length pk - length rest))) })"

section \<open>Opening and closing\<close>

text \<open>
  The environment of \<open>ws_open\<close>: does \<open>malloc\<close> find memory for \<open>gbuf\<close>, does \<open>_open\<close> connect,
  what do the reads deliver.
\<close>

record ws_env =
  e_malloc :: bool
  e_conn :: bool
  e_reads :: "byte list list"

definition ws_close :: "ws_globals \<Rightarrow> ws_globals" where
  "ws_close g =
     (if gbuf g
      then (let rc = (if gbrc g = 0 then 2 ^ 64 - 1 else gbrc g - 1) in
            if rc = 0 then \<lparr>gbuf = False, gbsz = 0, gbrc = 0\<rparr> else g\<lparr>gbrc := rc\<rparr>)
      else g)"

definition ws_new :: "ws_url \<Rightarrow> ws_s" where
  "ws_new u = \<lparr>ws_p = u_proto u, ws_ssl = u_ssl u, togo = 0, sdone = 0, ws_state = 0,
     frml = replicate 14 0, ws_host = (if u_proto u = WS_PROTO_REST then u_host u else [])\<rparr>"

text \<open>The connection (\<open>None\<close> for \<open>NULL\<close>), the globals and what was sent.\<close>

definition ws_open ::
  "ws_globals \<Rightarrow> ws_env \<Rightarrow> string \<Rightarrow> (ws_s option \<times> ws_globals \<times> byte list list) option" where
  "ws_open g env url = do {
     pu \<leftarrow> ws_parse_url url;
     case pu of
       None \<Rightarrow> Some (None, g, [])
     | Some u \<Rightarrow>
         if gbsz g < 4096 \<and> \<not> e_malloc env then Some (None, g\<lparr>gbuf := False, gbsz := 4096\<rparr>, [])
         else
           (let g1 = (if gbsz g < 4096 then g\<lparr>gbuf := True, gbsz := 4096\<rparr> else g);
                g2 = g1\<lparr>gbrc := gbrc g1 + 1\<rparr>;
                ws = ws_new u in
            if \<not> e_conn env then Some (None, g2, [])
            else if u_proto u = WS_PROTO_REST then Some (Some ws, g2, [])
            else if u_proto u = WS_PROTO_SIO1 \<or> u_proto u = WS_PROTO_SIO3
            then do {
              check (gbuf g2);
              (sent, r) \<leftarrow> ws_sioi (gbsz g2) (u_proto u) (u_host u) (u_rsrc u) (e_reads env);
              case r of
                None \<Rightarrow> Some (None, ws_close g2, sent)
              | Some (rsrc, reads) \<Rightarrow> do {
                  (req, ok, n) \<leftarrow> ws_init (gbsz g2) (u_proto u) (u_hostport u) rsrc reads;
                  Some (if ok then Some ws else None, if ok then g2 else ws_close g2, sent @ [req]) } }
            else do {
              check (gbuf g2);
              (req, ok, n) \<leftarrow> ws_init (gbsz g2) (u_proto u) (u_hostport u) (bytes_of (u_rsrc u)) (e_reads env);
              Some (if ok then Some ws else None, if ok then g2 else ws_close g2, [req]) }) }"

section \<open>REST\<close>

text \<open>Bits of \<open>ws_state\<close>: 0 is \<open>HDR_SEEN\<close>, 1 is \<open>LEN_SEEN\<close>, 2 is \<open>ENC_SEEN\<close>.\<close>

definition clen1 :: "byte list" where
  "clen1 = bytes_of ''Content-Length:''"

definition clen2 :: "byte list" where
  "clen2 = bytes_of ''Transfer-Encoding:''"

text \<open>The first block of \<open>rest_recv\<close>; \<open>nrd\<close> bytes of \<open>buf\<close> are new.\<close>

definition rest_headers :: "ws_s \<Rightarrow> byte list \<Rightarrow> nat \<Rightarrow> ws_s option" where
  "rest_headers ws buf nrd =
     (if ws_state ws = 0
      then (case xmemmem (take nrd buf) clen1 of
              Some p \<Rightarrow> do {
                (v, _) \<leftarrow> strtoul_buf 10 (p @ drop nrd buf);
                Some (ws\<lparr>togo := v, ws_state := ws_state ws OR 2\<rparr>) }
            | None \<Rightarrow>
                (case xmemmem (take nrd buf) clen2 of
                   Some p \<Rightarrow> Some (ws\<lparr>togo := 0, ws_state := ws_state ws OR 4\<rparr>)
                 | None \<Rightarrow> Some ws))
      else Some ws)"

text \<open>From \<open>if (ws->state & LEN_SEEN)\<close> on: the length returned, the connection, the buffer.\<close>

definition rest_body :: "ws_s \<Rightarrow> byte list \<Rightarrow> nat \<Rightarrow> (int \<times> ws_s \<times> byte list) option" where
  "rest_body ws buf nrd =
     (if bit (ws_state ws) 1
      then (if int nrd < sint (togo ws)
            then Some (int nrd, ws\<lparr>togo := togo ws - of_nat nrd\<rparr>, buf)
            else do {
              check (0 \<le> sint (togo ws));
              buf1 \<leftarrow> buf_put buf (unat (togo ws)) [0x0A];
              Some (int (unat (togo ws)) + 1, ws\<lparr>togo := 0, ws_state := 0\<rparr>, buf1) })
      else if bit (ws_state ws) 2
      then do {
        r \<leftarrow> (if togo ws = 0
              then do {
                (v, on) \<leftarrow> strtoul_buf 16 buf;
                c0 \<leftarrow> (if v = 0 then Some 0 else at on 0);
                c1 \<leftarrow> (if v = 0 \<or> c0 \<noteq> 0x0D then Some 0 else at on 1);
                if v = 0 \<or> c0 \<noteq> 0x0D \<or> c1 \<noteq> 0x0A
                then do { buf1 \<leftarrow> buf_put buf 0 [0x0A]; Some (Inl (ws\<lparr>togo := v, ws_state := 0\<rparr>, buf1)) }
                else (let i = length buf - length on + 2 in do {
                  check (i \<le> nrd);
                  mv \<leftarrow> buf_get buf i (nrd - i);
                  buf1 \<leftarrow> buf_put buf 0 mv;
                  Some (Inr (nrd - i, ws\<lparr>togo := v\<rparr>, buf1)) }) }
              else Some (Inr (nrd, ws, buf)));
        case r of
          Inl (ws1, buf1) \<Rightarrow> Some (1, ws1, buf1)
        | Inr (n, ws1, buf1) \<Rightarrow>
            Some (if int n < sint (togo ws1) then (int n, ws1\<lparr>togo := togo ws1 - of_nat n\<rparr>, buf1)
                  else (sint (togo ws1), ws1\<lparr>togo := 0\<rparr>, buf1)) }
      else Some (int nrd, ws, buf))"

definition rest_recv :: "ws_s \<Rightarrow> byte list \<Rightarrow> byte list \<Rightarrow> (int \<times> ws_s \<times> byte list) option" where
  "rest_recv ws buf rcv = do {
     buf1 \<leftarrow> buf_put buf 0 rcv;
     if rcv = [] then Some (-1, ws, buf1)
     else do {
       ws1 \<leftarrow> rest_headers ws buf1 (length rcv);
       if bit (ws_state ws1) 0 then rest_body ws1 buf1 (length rcv)
       else (case xmemmem rcv CRLF2 of
               None \<Rightarrow> Some (0, ws1, buf1)
             | Some p \<Rightarrow>
                 if p = [] then rest_body ws1 buf1 0
                 else do {
                   buf2 \<leftarrow> buf_put buf1 0 p;
                   rest_body (ws1\<lparr>ws_state := ws_state ws1 OR 1\<rparr>) buf2 (length p) }) } }"

text \<open>The request sent; \<open>None\<close> in the sum is the return of -1.\<close>

definition rest_send :: "ws_globals \<Rightarrow> ws_s \<Rightarrow> string \<Rightarrow> (string option \<times> ws_s) option" where
  "rest_send g ws url =
     (if ws_p ws \<noteq> WS_PROTO_REST then Some (None, ws)
      else
        (let req = ''GET '' @ url @ '' HTTP/1.1'' @ CRLF @ ''Host: '' @ ws_host ws @ CRLF
               @ ''User-Agent: Mozilla/4.0'' @ CRLF @ CRLF in do {
           check (gbuf g \<and> length req \<le> gbsz g);
           Some (Some req, ws\<lparr>ws_state := 0, togo := 0\<rparr>) }))"

end
