(* ===== verification/Wssnarf.thy ===== *)
theory Wssnarf
  imports Ws Inflate
begin

text \<open>
  The daemon core \<open>src/wssnarf.c\<close>: up to four connections, each a small state machine that
  \<open>prepare\<close> drives before every wait, the handlers of data, timers and signals, and the line
  log. Every handler is a function of the context. The event loop, the clock, the reads and
  what the clients' hooks do are the environment. \<open>max_inact\<close> is in whole seconds.
\<close>

section \<open>Data\<close>

datatype coin_st_t = COIN_ST_UNK | COIN_ST_CONN | COIN_ST_CONND | COIN_ST_AUTH | COIN_ST_AUTHD
  | COIN_ST_JOIN | COIN_ST_JOIND | COIN_ST_NODATA | COIN_ST_INTR | COIN_ST_FINI

text \<open>\<open>st += 1\<close>.\<close>

fun coin_st_succ :: "coin_st_t \<Rightarrow> coin_st_t" where
  "coin_st_succ COIN_ST_UNK = COIN_ST_CONN"
| "coin_st_succ COIN_ST_CONN = COIN_ST_CONND"
| "coin_st_succ COIN_ST_CONND = COIN_ST_AUTH"
| "coin_st_succ COIN_ST_AUTH = COIN_ST_AUTHD"
| "coin_st_succ COIN_ST_AUTHD = COIN_ST_JOIN"
| "coin_st_succ COIN_ST_JOIN = COIN_ST_JOIND"
| "coin_st_succ COIN_ST_JOIND = COIN_ST_NODATA"
| "coin_st_succ COIN_ST_NODATA = COIN_ST_INTR"
| "coin_st_succ COIN_ST_INTR = COIN_ST_FINI"
| "coin_st_succ COIN_ST_FINI = COIN_ST_FINI"

record wssnarf_param_t =
  p_url :: string
  p_heartbeat :: int
  p_max_inact :: int
  p_inflate :: bool

text \<open>The callback that the watcher of a connection runs, none when it is stopped.\<close>

datatype coin_cb = WS_CB | REST_CB | SIO3_CB

text \<open>
  One of the four slots: state, connection, buffer (as long as its size \<open>z\<close>), fill \<open>n\<close>, the
  second of the last activity, the parameters and the watcher.
\<close>

record coin =
  c_st :: coin_st_t
  c_ws :: "ws_s option"
  c_buf :: "byte list"
  c_n :: nat
  c_last :: int
  c_par :: wssnarf_param_t
  c_cb :: "coin_cb option"
  c_timer :: bool

text \<open>
  The context: the slots in use, the size of the inflate buffer, the clock last read, the log
  and those rotated away, whether the loop is told to stop, and the buffer of \<open>src/ws.c\<close>.
\<close>

record wssnarf_s =
  coins :: "coin list"
  infz :: nat
  tsp_sec :: int
  wlog :: "byte list"
  rotated :: "byte list list"
  brk :: bool
  wsg :: ws_globals

text \<open>
  The hooks of a client. A hook that gets a connection calls \<open>ws_send\<close> (with whether \<open>malloc\<close> would
  succeed), \<open>rest_send\<close> and \<open>wssnarf_log\<close>, in this order or another, and answers; none of the hooks
  looks at what these calls return. A hook that gets text answers, or changes the text.
  Hooks keep statics, so that the next call may do something else: a value of this type is what the
  hooks do when they are called once, and every handler below is given its own.
\<close>

type_synonym clock = "nat \<times> nat"

datatype hook_call = WS_SEND "byte list" bool | REST_SEND string | WSSNARF_LOG clock "byte list"

type_synonym hook_does = "hook_call list \<times> int"

record client =
  conn_coin :: "ws_s \<Rightarrow> hook_does"
  auth_coin :: "ws_s \<Rightarrow> hook_does"
  join_coin :: "ws_s \<Rightarrow> hook_does"
  heartbeat :: "ws_s option \<Rightarrow> hook_does"
  connd_coin :: "byte list \<Rightarrow> int"
  authd_coin :: "byte list \<Rightarrow> int"
  joind_coin :: "byte list \<Rightarrow> int"
  massage :: "byte list \<Rightarrow> byte list"

text \<open>The weak definitions that a client may leave alone.\<close>

definition weak_client :: client where
  "weak_client = \<lparr>conn_coin = (\<lambda>_. ([], 1)), auth_coin = (\<lambda>_. ([], 1)), join_coin = (\<lambda>_. ([], 1)),
     heartbeat = (\<lambda>_. ([], 0)), connd_coin = (\<lambda>_. 1), authd_coin = (\<lambda>_. 1), joind_coin = (\<lambda>_. 1), massage = (\<lambda>s. s)\<rparr>"

definition INI_GBOF :: nat where
  "INI_GBOF = 21"

section \<open>The log\<close>

text \<open>\<open>hrclock_print\<close>: seconds, a dot and nine digits of nanoseconds.\<close>

definition pad9 :: "nat \<Rightarrow> string" where
  "pad9 n = replicate (9 - length (dec_string n)) CHR ''0'' @ dec_string n"

definition hrclock_print :: "clock \<Rightarrow> byte list" where
  "hrclock_print now = bytes_of (dec_string (fst now) @ ''.'' @ pad9 (snd now))"

definition log_prefix :: "clock \<Rightarrow> byte list" where
  "log_prefix now = hrclock_print now @ [0x09]"

text \<open>\<open>loghim\<close>: what is written; the array on the stack has room for a prefix of 21 bytes.\<close>

definition loghim :: "clock \<Rightarrow> byte list \<Rightarrow> byte list option" where
  "loghim now msg = do {
     check (length (log_prefix now) \<le> INI_GBOF);
     Some (log_prefix now @ msg @ [0x0A]) }"

text \<open>\<open>memchr(lp, '\n', ep - lp)\<close> by position in the buffer.\<close>

function find_eol :: "byte list \<Rightarrow> nat \<Rightarrow> nat \<Rightarrow> nat option option" where
  "find_eol mem lp ep =
     (if lp < ep
      then (if lp < length mem then (if mem ! lp = 0x0A then Some (Some lp) else find_eol mem (lp + 1) ep)
            else None)
      else Some None)"
  by pat_completeness auto
termination by (relation "measure (\<lambda>(mem, lp, ep). ep - lp)") auto

declare find_eol.simps [simp del]

lemma find_eol_range: "find_eol mem lp ep = Some (Some e) \<Longrightarrow> lp \<le> e \<and> e < ep"
proof (induction mem lp ep rule: find_eol.induct)
  case (1 mem lp ep)
  from "1.prems" "1.IH" show ?case unfolding find_eol.simps [of mem lp ep] by (auto split: if_splits)
qed

text \<open>
  The loop of \<open>logwss\<close>, by position in the buffer: every line is moved behind the prefix of
  \<open>prfz\<close> bytes, given its newline, massaged and written.
\<close>

function logwss_loop ::
  "(byte list \<Rightarrow> byte list) \<Rightarrow> nat \<Rightarrow> byte list \<Rightarrow> nat \<Rightarrow> nat \<Rightarrow> byte list
    \<Rightarrow> (byte list \<times> byte list \<times> nat) option" where
  "logwss_loop mas prfz mem lp ep out =
     (if lp < ep
      then do {
        e \<leftarrow> find_eol mem lp ep;
        case e of
          None \<Rightarrow> Some (mem, out, lp)
        | Some eol \<Rightarrow> do {
            line \<leftarrow> buf_get mem lp (eol - lp);
            mem1 \<leftarrow> buf_put mem prfz line;
            mem2 \<leftarrow> buf_put mem1 (prfz + length line) [0x0A];
            mem3 \<leftarrow> buf_put mem2 prfz (mas (line @ [0x0A]));
            wr \<leftarrow> buf_get mem3 0 (prfz + length (mas (line @ [0x0A])));
            logwss_loop mas prfz mem3 (eol + 1) ep (out @ wr) } }
      else Some (mem, out, lp))"
  by pat_completeness auto
termination
  by (relation "measure (\<lambda>(mas, prfz, mem, lp, ep, out). ep - lp)") (auto dest!: find_eol_range)

declare logwss_loop.simps [simp del]

text \<open>
  \<open>logwss(logfd, xp + INI_GBOF, len)\<close> in the buffer \<open>xp\<close>: buffer, bytes written, bytes used up.
\<close>

definition logwss ::
  "(byte list \<Rightarrow> byte list) \<Rightarrow> clock \<Rightarrow> byte list \<Rightarrow> nat \<Rightarrow> (byte list \<times> byte list \<times> nat) option" where
  "logwss mas now mem len = do {
     mem0 \<leftarrow> buf_put mem 0 (log_prefix now);
     (mem1, out, lp) \<leftarrow> logwss_loop mas (length (log_prefix now)) mem0 INI_GBOF (INI_GBOF + len) [];
     Some (mem1, out, lp - INI_GBOF) }"

text \<open>\<open>rotate_outfile\<close>; the new name is built in 256 bytes, the old log is closed and renamed.\<close>

definition rotate_outfile :: "clock \<Rightarrow> nat \<Rightarrow> nat \<Rightarrow> wssnarf_s \<Rightarrow> wssnarf_s option" where
  "rotate_outfile now lnz hnz ctx = do {
     check (lnz + hnz + 2 \<le> 256);
     msg \<leftarrow> loghim now (bytes_of ''rotate...midnight'');
     Some (ctx\<lparr>rotated := rotated ctx @ [wlog ctx @ msg], wlog := [], tsp_sec := int (fst now)\<rparr>) }"

section \<open>Data from the sockets\<close>

text \<open>Room for more bytes: the buffer is doubled; what \<open>realloc\<close> adds holds \<open>fill\<close>.\<close>

definition snarf_room :: "byte \<Rightarrow> nat \<Rightarrow> nat \<Rightarrow> byte list \<Rightarrow> byte list" where
  "snarf_room fill need n buf =
     (if length buf < n + need
      then buf @ replicate ((if length buf = 0 then 4096 else length buf * 2) - length buf) fill
      else buf)"

text \<open>Logging the complete lines of a buffer of \<open>xn\<close> bytes and moving the rest to the front.\<close>

definition snarf_log ::
  "client \<Rightarrow> clock \<Rightarrow> byte list \<Rightarrow> nat \<Rightarrow> (byte list \<times> byte list \<times> nat) option" where
  "snarf_log cl now mem xn = do {
     check (INI_GBOF \<le> xn);
     (mem1, out, npr) \<leftarrow> logwss (massage cl) now mem (xn - INI_GBOF);
     mv \<leftarrow> buf_get mem1 (INI_GBOF + npr) (xn - npr);
     mem2 \<leftarrow> buf_put mem1 INI_GBOF mv;
     Some (mem2, out, xn - npr) }"

text \<open>
  What the state asks for when data has come: log it, log and leave, or drop it. The answer
  of the hook decides about the next state.
\<close>

datatype snarf_act = SNARF_LOG | SNARF_LOGUNR | SNARF_WEIRD

definition snarf_ask :: "(byte list \<Rightarrow> int) \<Rightarrow> byte list \<Rightarrow> coin_st_t \<Rightarrow> snarf_act \<times> coin_st_t" where
  "snarf_ask hook msg st =
     (if hook msg < 0 then (SNARF_LOGUNR, st)
      else (SNARF_LOG, if hook msg > 0 then coin_st_succ st else st))"

fun snarf_state :: "client \<Rightarrow> byte list \<Rightarrow> coin_st_t \<Rightarrow> snarf_act \<times> coin_st_t" where
  "snarf_state cl msg COIN_ST_UNK = snarf_ask (connd_coin cl) msg COIN_ST_CONN"
| "snarf_state cl msg COIN_ST_CONN = snarf_ask (connd_coin cl) msg COIN_ST_CONN"
| "snarf_state cl msg COIN_ST_CONND = (SNARF_LOG, COIN_ST_CONND)"
| "snarf_state cl msg COIN_ST_AUTH = snarf_ask (authd_coin cl) msg COIN_ST_AUTH"
| "snarf_state cl msg COIN_ST_AUTHD = (SNARF_LOG, COIN_ST_AUTHD)"
| "snarf_state cl msg COIN_ST_JOIN = snarf_ask (joind_coin cl) msg COIN_ST_JOIN"
| "snarf_state cl msg COIN_ST_JOIND = (SNARF_LOG, COIN_ST_JOIND)"
| "snarf_state cl msg st = (SNARF_WEIRD, st)"

text \<open>
  Inflating the last \<open>nrd\<close> of \<open>xn\<close> bytes in place: \<open>None\<close> in the option inside when the data
  are bad; else buffer and fill. \<open>d0\<close> is the uninitialised state of the inflater.
\<close>

definition snarf_inflate ::
  "tinf_data \<Rightarrow> byte \<Rightarrow> nat \<Rightarrow> byte list \<Rightarrow> nat \<Rightarrow> nat \<Rightarrow> (byte list \<times> nat) option option" where
  "snarf_inflate d0 fill iz mem xn nrd = do {
     b \<leftarrow> at mem (xn - nrd);
     (let sk = (if b = 0x0A then 1 else 0); xn1 = xn - nrd + sk in do {
        check (sk \<le> nrd);
        src \<leftarrow> buf_get mem xn1 (nrd - sk);
        (rc, out) \<leftarrow> tinf_uncompress d0 iz src;
        if rc \<noteq> TINF_OK then Some None
        else
          (let mem1 = (if xn1 + length out \<ge> length mem then mem @ replicate (xn1 + length out) fill else mem) in do {
             mem2 \<leftarrow> buf_put mem1 xn1 out;
             Some (Some (mem2, xn1 + length out)) }) }) }"

text \<open>The part of the context that a slot does not hold, updated for that slot.\<close>

definition put_coin :: "wssnarf_s \<Rightarrow> nat \<Rightarrow> coin \<Rightarrow> wssnarf_s" where
  "put_coin ctx i c = ctx\<lparr>coins := (coins ctx)[i := c]\<rparr>"

text \<open>\<open>unroll:\<close>\<close>

definition snarf_unroll :: "clock \<Rightarrow> wssnarf_s \<Rightarrow> wssnarf_s option" where
  "snarf_unroll now ctx = do {
     msg \<leftarrow> loghim now (bytes_of ''restart'');
     Some (ctx\<lparr>wlog := wlog ctx @ msg, tsp_sec := int (fst now), brk := True\<rparr>) }"

text \<open>
  The environment of a read: the clock, the bytes delivered, what new memory holds, the
  inflater's initial state and whether \<open>malloc\<close> succeeds.
\<close>

record read_env =
  r_now :: clock
  r_rcv :: "byte list"
  r_fill :: byte
  r_tinf :: tinf_data
  r_malloc :: bool

text \<open>
  \<open>ws_cb\<close> and \<open>sio3_cb\<close> (\<open>sio3\<close>), which differ in two answers sent and in the inflating. From
  the label \<open>log:\<close> on, for a slot \<open>c\<close> whose buffer holds \<open>xn\<close> bytes, the last \<open>nrd\<close> of them new:
\<close>

definition snarf_ws_log ::
  "bool \<Rightarrow> client \<Rightarrow> read_env \<Rightarrow> wssnarf_s \<Rightarrow> nat \<Rightarrow> coin \<Rightarrow> nat \<Rightarrow> nat \<Rightarrow> wssnarf_s option" where
  "snarf_ws_log sio3 cl env ctx i c xn nrd =
     (let inflating = (\<not> sio3 \<and> p_inflate (c_par c));
          iz = (if inflating \<and> infz ctx < 10 * xn then 10 * xn else infz ctx) in do {
        inf \<leftarrow> (if inflating then snarf_inflate (r_tinf env) (r_fill env) iz (c_buf c) xn nrd
               else Some (Some (c_buf c, xn)));
        case inf of
          None \<Rightarrow> Some ((put_coin ctx i (c\<lparr>c_n := INI_GBOF\<rparr>))\<lparr>infz := iz\<rparr>)
        | Some (mem1, xn1) \<Rightarrow> do {
            (mem2, out, n) \<leftarrow> snarf_log cl (r_now env) mem1 xn1;
            Some ((put_coin ctx i (c\<lparr>c_buf := mem2, c_n := n, c_last := int (fst (r_now env))\<rparr>))
              \<lparr>infz := iz, tsp_sec := int (fst (r_now env)), wlog := wlog ctx @ out\<rparr>) } })"

text \<open>The answers of \<open>sio3_cb\<close>, of which the model keeps what sending does to the buffer.\<close>

definition snarf_answer :: "bool \<Rightarrow> bool \<Rightarrow> coin_st_t \<Rightarrow> ws_globals \<Rightarrow> ws_globals" where
  "snarf_answer sio3 mok st g =
     (if sio3 \<and> st \<in> {COIN_ST_UNK, COIN_ST_CONN, COIN_ST_CONND}
      then fst (ws_send g mok (bytes_of ''2probe''))
      else if sio3 \<and> st \<in> {COIN_ST_AUTH, COIN_ST_AUTHD} then fst (ws_send g mok (bytes_of ''5''))
      else g)"

text \<open>The \<open>switch\<close> on the state.\<close>

definition snarf_ws_switch ::
  "bool \<Rightarrow> client \<Rightarrow> read_env \<Rightarrow> wssnarf_s \<Rightarrow> nat \<Rightarrow> coin \<Rightarrow> nat \<Rightarrow> nat \<Rightarrow> wssnarf_s option" where
  "snarf_ws_switch sio3 cl env ctx i c xn nrd = do {
     check (c_st c \<in> {COIN_ST_UNK, COIN_ST_CONN, COIN_ST_AUTH, COIN_ST_JOIN} \<longrightarrow> INI_GBOF \<le> xn);
     case snarf_state cl (take (xn - INI_GBOF) (drop INI_GBOF (c_buf c))) (c_st c) of
       (SNARF_WEIRD, st) \<Rightarrow> Some (put_coin ctx i (c\<lparr>c_st := st, c_n := INI_GBOF\<rparr>))
     | (SNARF_LOGUNR, st) \<Rightarrow> do {
         (mem1, out, npr) \<leftarrow> logwss (massage cl) (r_now env) (c_buf c) (xn + nrd - INI_GBOF);
         snarf_unroll (r_now env) ((put_coin ctx i (c\<lparr>c_buf := mem1, c_st := st\<rparr>))\<lparr>wlog := wlog ctx @ out\<rparr>) }
     | (SNARF_LOG, st) \<Rightarrow>
         snarf_ws_log sio3 cl env (ctx\<lparr>wsg := snarf_answer sio3 (r_malloc env) (c_st c) (wsg ctx)\<rparr>) i
           (c\<lparr>c_st := st\<rparr>) xn nrd }"

text \<open>An unknown frame aborts the process; a read that fails ends the loop.\<close>

definition snarf_ws_cb ::
  "bool \<Rightarrow> client \<Rightarrow> read_env \<Rightarrow> wssnarf_s \<Rightarrow> nat \<Rightarrow> (ws_abort + wssnarf_s) option" where
  "snarf_ws_cb sio3 cl env ctx i = do {
     c \<leftarrow> at (coins ctx) i;
     (let buf = snarf_room (r_fill env) 4000 (c_n c) (c_buf c) in do {
        check (c_n c \<le> length buf);
        ws \<leftarrow> c_ws c;
        r \<leftarrow> ws_recv ws (drop (c_n c) buf) (r_rcv env);
        case r of
          Inl a \<Rightarrow> Some (Inl a)
        | Inr None \<Rightarrow> do {
            ctx1 \<leftarrow> snarf_unroll (r_now env) (put_coin ctx i (c\<lparr>c_buf := buf\<rparr>));
            Some (Inr ctx1) }
        | Inr (Some (ws1, buf1, nrd, sent)) \<Rightarrow> do {
            ctx1 \<leftarrow> snarf_ws_switch sio3 cl env ctx i
              (c\<lparr>c_ws := Some ws1, c_buf := take (c_n c) buf @ buf1\<rparr>) (c_n c + nrd) nrd;
            Some (Inr ctx1) } }) }"

definition ws_cb :: "client \<Rightarrow> read_env \<Rightarrow> wssnarf_s \<Rightarrow> nat \<Rightarrow> (ws_abort + wssnarf_s) option" where
  "ws_cb = snarf_ws_cb False"

definition sio3_cb :: "client \<Rightarrow> read_env \<Rightarrow> wssnarf_s \<Rightarrow> nat \<Rightarrow> (ws_abort + wssnarf_s) option" where
  "sio3_cb = snarf_ws_cb True"

text \<open>\<open>rest_cb\<close>: when the connection is lost the slot starts over.\<close>

definition snarf_rest_cb :: "client \<Rightarrow> read_env \<Rightarrow> wssnarf_s \<Rightarrow> nat \<Rightarrow> wssnarf_s option" where
  "snarf_rest_cb cl env ctx i = do {
     c \<leftarrow> at (coins ctx) i;
     (let now = r_now env; buf = snarf_room (r_fill env) 4096 (c_n c) (c_buf c); c1 = c\<lparr>c_buf := buf\<rparr> in do {
        check (c_n c \<le> length buf);
        ws \<leftarrow> c_ws c;
        (nrd, ws1, buf1) \<leftarrow> rest_recv ws (drop (c_n c) buf) (r_rcv env);
        (let mem = take (c_n c) buf @ buf1 in
         if nrd < 0
         then Some ((put_coin ctx i (c1\<lparr>c_ws := None, c_buf := mem, c_cb := None, c_st := COIN_ST_UNK, c_n := INI_GBOF\<rparr>))
                \<lparr>wsg := ws_close (wsg ctx)\<rparr>)
         else do {
           (mem1, out, n) \<leftarrow> snarf_log cl now mem (c_n c + nat nrd);
           Some ((put_coin ctx i (c1\<lparr>c_ws := Some ws1, c_buf := mem1, c_n := n\<rparr>))
             \<lparr>tsp_sec := int (fst now), wlog := wlog ctx @ out\<rparr>) }) }) }"

section \<open>Hooks\<close>

definition wssnarf_log :: "clock \<Rightarrow> wssnarf_s \<Rightarrow> byte list \<Rightarrow> wssnarf_s option" where
  "wssnarf_log now ctx msg = do {
     m \<leftarrow> loghim now msg;
     Some (ctx\<lparr>wlog := wlog ctx @ m, tsp_sec := int (fst now)\<rparr>) }"

text \<open>A call that a hook makes for the connection of slot \<open>i\<close>; all of them; and the hook.\<close>

fun hook_run :: "nat \<Rightarrow> hook_call \<Rightarrow> wssnarf_s \<Rightarrow> wssnarf_s option" where
  "hook_run i (WS_SEND msg mok) ctx = do {
     c \<leftarrow> at (coins ctx) i;
     ws \<leftarrow> c_ws c;
     Some (ctx\<lparr>wsg := fst (ws_send (wsg ctx) mok msg)\<rparr>) }"
| "hook_run i (REST_SEND url) ctx = do {
     c \<leftarrow> at (coins ctx) i;
     ws \<leftarrow> c_ws c;
     (req, ws1) \<leftarrow> rest_send (wsg ctx) ws url;
     Some (put_coin ctx i (c\<lparr>c_ws := Some ws1\<rparr>)) }"
| "hook_run i (WSSNARF_LOG now msg) ctx = wssnarf_log now ctx msg"

fun hook_runs :: "nat \<Rightarrow> hook_call list \<Rightarrow> wssnarf_s \<Rightarrow> wssnarf_s option" where
  "hook_runs i [] ctx = Some ctx"
| "hook_runs i (k # ks) ctx = do { ctx \<leftarrow> hook_run i k ctx; hook_runs i ks ctx }"

definition call_hook :: "hook_does \<Rightarrow> wssnarf_s \<Rightarrow> nat \<Rightarrow> (int \<times> wssnarf_s) option" where
  "call_hook h ctx i = do { ctx1 \<leftarrow> hook_runs i (fst h) ctx; Some (snd h, ctx1) }"

definition set_coin :: "wssnarf_s \<Rightarrow> nat \<Rightarrow> (coin \<Rightarrow> coin) \<Rightarrow> wssnarf_s" where
  "set_coin ctx i f = put_coin ctx i (f (coins ctx ! i))"

section \<open>Timers and signals\<close>

definition hbeat_cb :: "client \<Rightarrow> clock \<Rightarrow> wssnarf_s \<Rightarrow> nat \<Rightarrow> wssnarf_s option" where
  "hbeat_cb cl now ctx i = do {
     c \<leftarrow> at (coins ctx) i;
     ctx \<leftarrow> wssnarf_log now ctx (bytes_of ''HEARTBEAT'');
     (r, ctx) \<leftarrow> call_hook (heartbeat cl (c_ws c)) ctx i;
     Some (if r < 0 then set_coin ctx i (c_st_update (\<lambda>_. COIN_ST_NODATA))
           else if tsp_sec ctx - c_last c > p_max_inact (c_par c)
           then set_coin ctx i (c_st_update (\<lambda>_. COIN_ST_NODATA))
           else ctx) }"

definition sigint_cb :: "clock \<Rightarrow> wssnarf_s \<Rightarrow> wssnarf_s option" where
  "sigint_cb now ctx = do {
     msg \<leftarrow> loghim now (bytes_of ''C-c'');
     Some (ctx\<lparr>wlog := wlog ctx @ msg, tsp_sec := int (fst now),
               coins := map (\<lambda>c. c\<lparr>c_st := COIN_ST_INTR\<rparr>) (coins ctx)\<rparr>) }"

section \<open>Opening, closing and \<open>prepare\<close>\<close>

text \<open>\<open>open_coin\<close>: the result and the context; without a connection the slot has none.\<close>

definition open_coin :: "ws_env \<Rightarrow> wssnarf_s \<Rightarrow> nat \<Rightarrow> (int \<times> wssnarf_s) option" where
  "open_coin env ctx i = do {
     c \<leftarrow> at (coins ctx) i;
     (w, g, sent) \<leftarrow> ws_open (wsg ctx) env (p_url (c_par c));
     (let ctx1 = ctx\<lparr>wsg := g\<rparr> in
      case w of
        None \<Rightarrow> Some (-1, put_coin ctx1 i (c\<lparr>c_ws := None\<rparr>))
      | Some ws \<Rightarrow>
          Some (1, put_coin ctx1 i (c\<lparr>c_ws := Some ws, c_st := COIN_ST_UNK,
            c_cb := Some (case ws_p ws of WS_PROTO_REST \<Rightarrow> REST_CB | WS_PROTO_SIO3 \<Rightarrow> SIO3_CB | _ \<Rightarrow> WS_CB)\<rparr>))) }"

definition fini_coin :: "wssnarf_s \<Rightarrow> nat \<Rightarrow> wssnarf_s option" where
  "fini_coin ctx i = do {
     c \<leftarrow> at (coins ctx) i;
     Some ((put_coin ctx i (c\<lparr>c_cb := None, c_ws := None\<rparr>))
       \<lparr>wsg := (if c_ws c = None then wsg ctx else ws_close (wsg ctx))\<rparr>) }"

text \<open>
  The cases of \<open>prepare\<close> for slot \<open>i\<close>, each falling through to the next. A hook is called on
  the connection there is; \<open>ws_proto\<close> needs one.
\<close>

definition prep_disc :: "wssnarf_s \<Rightarrow> nat \<Rightarrow> wssnarf_s option" where
  "prep_disc ctx i = do {
     ctx1 \<leftarrow> fini_coin ctx i;
     Some ((set_coin ctx1 i (c_st_update (\<lambda>_. COIN_ST_FINI)))\<lparr>brk := True\<rparr>) }"

definition prep_joind :: "wssnarf_s \<Rightarrow> nat \<Rightarrow> wssnarf_s option" where
  "prep_joind ctx i = do {
     c \<leftarrow> at (coins ctx) i;
     ws \<leftarrow> c_ws c;
     if ws_p ws = WS_PROTO_REST then Some ctx
     else if tsp_sec ctx - c_last c < p_max_inact (c_par c) then Some ctx
     else prep_disc ctx i }"

definition prep_join :: "client \<Rightarrow> wssnarf_s \<Rightarrow> nat \<Rightarrow> wssnarf_s option" where
  "prep_join cl ctx i = do {
     c \<leftarrow> at (coins ctx) i;
     ws \<leftarrow> c_ws c;
     (r, ctx) \<leftarrow> (if ws_p ws = WS_PROTO_REST then Some (1, ctx) else call_hook (join_coin cl ws) ctx i);
     if r < 0 then Some (set_coin ctx i (c_st_update (\<lambda>_. COIN_ST_AUTHD)))
     else if r = 0 then Some ctx
     else prep_joind (set_coin ctx i (c_st_update (\<lambda>_. COIN_ST_JOIND))) i }"

definition prep_authd :: "client \<Rightarrow> wssnarf_s \<Rightarrow> nat \<Rightarrow> wssnarf_s option" where
  "prep_authd cl ctx i = prep_join cl (set_coin ctx i (\<lambda>c. c\<lparr>c_n := INI_GBOF, c_st := COIN_ST_JOIN\<rparr>)) i"

definition prep_auth :: "client \<Rightarrow> wssnarf_s \<Rightarrow> nat \<Rightarrow> wssnarf_s option" where
  "prep_auth cl ctx i = do {
     c \<leftarrow> at (coins ctx) i;
     ws \<leftarrow> c_ws c;
     (r, ctx) \<leftarrow> (if ws_p ws = WS_PROTO_REST then Some (1, ctx) else call_hook (auth_coin cl ws) ctx i);
     if r < 0 then Some (set_coin ctx i (c_st_update (\<lambda>_. COIN_ST_CONND)))
     else if r = 0 then Some ctx
     else prep_authd cl ctx i }"

definition prep_connd :: "client \<Rightarrow> wssnarf_s \<Rightarrow> nat \<Rightarrow> wssnarf_s option" where
  "prep_connd cl ctx i = prep_auth cl (set_coin ctx i (\<lambda>c. c\<lparr>c_n := INI_GBOF, c_st := COIN_ST_AUTH\<rparr>)) i"

definition prep_conn :: "client \<Rightarrow> wssnarf_s \<Rightarrow> nat \<Rightarrow> wssnarf_s option" where
  "prep_conn cl ctx i = do {
     c \<leftarrow> at (coins ctx) i;
     ws \<leftarrow> c_ws c;
     (r, ctx) \<leftarrow> call_hook (conn_coin cl ws) ctx i;
     if r < 0 then prep_disc ctx i
     else if r = 0 then Some ctx
     else prep_connd cl ctx i }"

definition prep_unk :: "client \<Rightarrow> ws_env \<Rightarrow> wssnarf_s \<Rightarrow> nat \<Rightarrow> wssnarf_s option" where
  "prep_unk cl env ctx i = do {
     (r, ctx1) \<leftarrow> open_coin env ctx i;
     if r < 0 then prep_disc ctx1 i
     else prep_conn cl (set_coin ctx1 i (\<lambda>c. c\<lparr>c_n := INI_GBOF, c_st := COIN_ST_CONN, c_last := tsp_sec ctx\<rparr>)) i }"

definition prep_slot :: "client \<Rightarrow> ws_env \<Rightarrow> wssnarf_s \<Rightarrow> nat \<Rightarrow> wssnarf_s option" where
  "prep_slot cl env ctx i = do {
     c \<leftarrow> at (coins ctx) i;
     case c_st c of
       COIN_ST_UNK \<Rightarrow> prep_unk cl env ctx i
     | COIN_ST_CONN \<Rightarrow> prep_conn cl ctx i
     | COIN_ST_CONND \<Rightarrow> prep_connd cl ctx i
     | COIN_ST_AUTH \<Rightarrow> prep_auth cl ctx i
     | COIN_ST_AUTHD \<Rightarrow> prep_authd cl ctx i
     | COIN_ST_JOIN \<Rightarrow> prep_join cl ctx i
     | COIN_ST_JOIND \<Rightarrow> prep_joind ctx i
     | COIN_ST_NODATA \<Rightarrow> prep_disc ctx i
     | COIN_ST_INTR \<Rightarrow> prep_disc ctx i
     | COIN_ST_FINI \<Rightarrow> Some (ctx\<lparr>brk := True\<rparr>) }"

text \<open>\<open>prepare\<close>: the slots from \<open>i\<close> on, each with what the hooks do for it; slot 0 is looked at even
  when none is in use.\<close>

function prepare_from :: "(nat \<Rightarrow> client) \<Rightarrow> (nat \<Rightarrow> ws_env) \<Rightarrow> wssnarf_s \<Rightarrow> nat \<Rightarrow> nat \<Rightarrow> wssnarf_s option" where
  "prepare_from cl env ctx i ns = do {
     ctx1 \<leftarrow> prep_slot (cl i) (env i) ctx i;
     if i + 1 < ns then prepare_from cl env ctx1 (i + 1) ns else Some ctx1 }"
  by pat_completeness auto
termination by (relation "measure (\<lambda>(cl, env, ctx, i, ns). ns - i)") auto

declare prepare_from.simps [simp del]

definition prepare :: "(nat \<Rightarrow> client) \<Rightarrow> (nat \<Rightarrow> ws_env) \<Rightarrow> wssnarf_s \<Rightarrow> wssnarf_s option" where
  "prepare cl env ctx = prepare_from cl env ctx 0 (length (coins ctx))"

section \<open>Making a context\<close>

definition make_wssnarf :: wssnarf_s where
  "make_wssnarf = \<lparr>coins = [], infz = 0, tsp_sec = 0, wlog = [], rotated = [], brk = False,
     wsg = \<lparr>gbuf = False, gbsz = 0, gbrc = 0\<rparr>\<rparr>"

text \<open>The inactivity that is never reached, \<open>1e48\<close> seconds.\<close>

definition INACT_NEVER :: int where
  "INACT_NEVER = 10 ^ 48"

text \<open>There are four slots; adding a fifth connection would write behind them.\<close>

definition add_wssnarf :: "wssnarf_s \<Rightarrow> wssnarf_param_t \<Rightarrow> wssnarf_s option" where
  "add_wssnarf ctx prm = do {
     check (length (coins ctx) < 4);
     (let prm1 = (if p_max_inact prm \<le> 0 then prm\<lparr>p_max_inact := INACT_NEVER\<rparr> else prm) in
      Some (ctx\<lparr>coins := coins ctx @ [\<lparr>c_st = COIN_ST_UNK, c_ws = None, c_buf = [], c_n = 0, c_last = 0,
        c_par = prm1, c_cb = None, c_timer = (p_heartbeat prm > 0)\<rparr>]\<rparr>)) }"

definition run_wssnarf :: "clock \<Rightarrow> wssnarf_s \<Rightarrow> wssnarf_s" where
  "run_wssnarf now ctx = ctx\<lparr>tsp_sec := int (fst now)\<rparr>"

end
