(* ===== verification/Wssnarf_Props.thy ===== *)
theory Wssnarf_Props
  imports Wssnarf Ws_Spec Ws_Props Inflate_Spec
begin

text \<open>
  The daemon core as a state machine: its steps are the handlers the event loop runs, each
  guarded by the watcher or timer that must be active. What every reachable context satisfies,
  what an interrupt leads to, and what the line log writes.
\<close>

section \<open>The order of the states\<close>

text \<open>The numbers of the enumeration, which the code increments and prints.\<close>

fun coin_st_num :: "coin_st_t \<Rightarrow> nat" where
  "coin_st_num COIN_ST_UNK = 0"
| "coin_st_num COIN_ST_CONN = 1"
| "coin_st_num COIN_ST_CONND = 2"
| "coin_st_num COIN_ST_AUTH = 3"
| "coin_st_num COIN_ST_AUTHD = 4"
| "coin_st_num COIN_ST_JOIN = 5"
| "coin_st_num COIN_ST_JOIND = 6"
| "coin_st_num COIN_ST_NODATA = 7"
| "coin_st_num COIN_ST_INTR = 8"
| "coin_st_num COIN_ST_FINI = 9"

lemma coin_st_num_inj: "coin_st_num s = coin_st_num t \<Longrightarrow> s = t"
  by (cases s; cases t) simp_all

instantiation coin_st_t :: linorder
begin

definition less_eq_coin_st_t :: "coin_st_t \<Rightarrow> coin_st_t \<Rightarrow> bool" where
  "less_eq_coin_st_t s t \<longleftrightarrow> coin_st_num s \<le> coin_st_num t"

definition less_coin_st_t :: "coin_st_t \<Rightarrow> coin_st_t \<Rightarrow> bool" where
  "less_coin_st_t s t \<longleftrightarrow> coin_st_num s < coin_st_num t"

instance
  by standard (auto simp: less_eq_coin_st_t_def less_coin_st_t_def intro: coin_st_num_inj)

end

lemmas coin_st_order = less_eq_coin_st_t_def less_coin_st_t_def

lemma coin_st_succ_num: "s \<noteq> COIN_ST_FINI \<Longrightarrow> coin_st_num (coin_st_succ s) = coin_st_num s + 1"
  by (cases s) simp_all

section \<open>What the receiver keeps\<close>

lemma buf_put_length: "buf_put buf i xs = Some buf1 \<Longrightarrow> length buf1 = length buf \<and> i + length xs \<le> length buf"
  by (auto simp: buf_put_def split: if_split_asm)

lemma buf_get_length: "buf_get buf i n = Some xs \<Longrightarrow> length xs = n \<and> i + n \<le> length buf"
  by (auto simp: buf_get_def split: if_split_asm)

definition recv_kept :: "ws_recving \<Rightarrow> ws_recving \<Rightarrow> bool" where
  "recv_kept = (\<lambda>(ws, buf, pp, rp, sent) (ws1, buf1, pp1, rp1, sent1).
     ws_p ws1 = ws_p ws \<and> length buf1 = length buf \<and>
     (length (frml ws) = 14 \<and> ws_state ws \<le> 1 \<longrightarrow> length (frml ws1) = 14 \<and> ws_state ws1 \<le> 1))"

lemma recv_kept_refl [simp]: "recv_kept r r"
  by (simp add: recv_kept_def split: prod.split)

lemma recv_kept_trans: "recv_kept r s \<Longrightarrow> recv_kept s t \<Longrightarrow> recv_kept r t"
  by (auto simp: recv_kept_def)

lemma header_kept: "ws_unpack_header r = Some r1 \<Longrightarrow> recv_kept r r1"
  by (cases r) (auto simp: ws_unpack_header_def recv_kept_def Let_def split: if_split_asm elim!: bindE
      dest!: buf_put_length buf_get_length)

lemma payload_kept: "ws_unpack_payload nrd r = Some (Inr r1) \<Longrightarrow> recv_kept r r1"
  by (cases r) (auto simp: ws_unpack_payload_def recv_kept_def Let_def split: if_split_asm elim!: bindE
      dest: buf_put_length)

text \<open>A run of the unpacking: a payload, and a header with a further run when there is more.\<close>

lemma ws_unpack_cases:
  assumes "ws_unpack nrd r = Some (Inr r1)"
  obtains (last) ws buf pp rp sent where
      "ws_unpack_payload nrd r = Some (Inr (ws, buf, pp, rp, sent))" "\<not> pp + 14 < nrd" "r1 = (ws, buf, pp, rp, sent)"
    | (more_frames) ws buf pp rp sent s where
      "ws_unpack_payload nrd r = Some (Inr (ws, buf, pp, rp, sent))" "pp + 14 < nrd"
      "ws_unpack_header (ws, buf, pp, rp, sent) = Some s" "ws_unpack nrd s = Some (Inr r1)"
proof (cases "ws_unpack_payload nrd r")
  case None
  with assms have False by (simp add: ws_unpack.simps [of nrd r])
  then show thesis ..
next
  case (Some p)
  show thesis
  proof (cases p)
    case (Inl a)
    with Some assms have False by (simp add: ws_unpack.simps [of nrd r])
    then show thesis ..
  next
    case (Inr q)
    obtain ws buf pp rp sent where q: "q = (ws, buf, pp, rp, sent)" by (rule prod_cases5)
    note eq = assms [unfolded ws_unpack.simps [of nrd r] Some Inr q, simplified]
    show thesis
    proof (cases "pp + 14 < nrd")
      case True
      with eq obtain s where "ws_unpack_header (ws, buf, pp, rp, sent) = Some s" "ws_unpack nrd s = Some (Inr r1)"
        by (auto elim: bindE)
      with Some Inr q True show thesis by (intro that(2)) simp_all
    next
      case False
      with eq have r1: "r1 = (ws, buf, pp, rp, sent)" by simp
      from Some Inr q False show thesis by (intro that(1) [OF _ _ r1]) simp_all
    qed
  qed
qed

lemma unpack_kept: "ws_unpack nrd r = Some (Inr r1) \<Longrightarrow> recv_kept r r1"
proof (induction nrd r rule: ws_unpack.induct)
  case (1 nrd r)
  from "1.prems" show ?case
  proof (cases rule: ws_unpack_cases)
    case (last ws buf pp rp sent)
    then show ?thesis using payload_kept by simp
  next
    case (more_frames ws buf pp rp sent s)
    from "1.IH" [OF more_frames(1) refl refl refl refl refl more_frames(2,3,4)]
    show ?thesis by (rule recv_kept_trans [OF payload_kept [OF more_frames(1)] recv_kept_trans [OF header_kept [OF more_frames(3)]]])
  qed
qed

text \<open>A frame whose payload is not complete has used up all that was read.\<close>

lemma payload_left:
  assumes "ws_unpack_payload nrd (ws, buf, pp, rp, sent) = Some (Inr (ws1, buf1, pp1, rp1, sent1))"
    and "togo ws1 \<noteq> 0"
  shows "nrd \<le> pp1"
proof -
  let ?pz = "min_z (unat (togo ws)) (size_diff nrd pp)"
  from assms(1) have "togo ws1 = togo ws - of_nat ?pz" "pp1 = pp + ?pz"
    by (auto simp: ws_unpack_payload_def Let_def split: if_split_asm elim!: bindE)
  moreover from this(1) assms(2) have "?pz \<noteq> unat (togo ws)" by auto
  ultimately have "pp1 = pp + size_diff nrd pp" by (simp add: min_z_def split: if_split_asm)
  then show ?thesis by (simp add: size_diff_def split: if_split_asm)
qed

lemma unpack_left:
  "ws_unpack nrd r = Some (Inr (ws1, buf1, pp1, rp1, sent1)) \<Longrightarrow> togo ws1 = 0 \<or> nrd \<le> pp1"
proof (induction nrd r rule: ws_unpack.induct)
  case (1 nrd r)
  from "1.prems" show ?case
  proof (cases rule: ws_unpack_cases)
    case (last ws buf pp rp sent)
    then show ?thesis by (cases r) (auto dest: payload_left)
  next
    case (more_frames ws buf pp rp sent s)
    from "1.IH" [OF more_frames(1) refl refl refl refl refl more_frames(2,3,4)] show ?thesis .
  qed
qed

lemma stash_kept:
  assumes "ws_stash nrd (ws, buf, pp, rp, sent) = Some (Inr (ws1, buf1, n, sent1))"
  shows "pp \<le> nrd" "nrd - pp \<le> length (frml ws)" "length buf1 = length buf" "rp + 1 \<le> length buf"
    "n = rp + ws_state ws" "\<exists>fr. length fr = length (frml ws) \<and> ws1 = ws\<lparr>frml := fr, sdone := nrd - pp\<rparr>"
proof -
  have pp: "pp \<le> nrd" using assms by (simp add: ws_stash_def split: if_split_asm)
  from assms [unfolded ws_stash_def] pp obtain lo fr b1 where
      a: "buf_get buf pp (nrd - pp) = Some lo" "buf_put (frml ws) 0 lo = Some fr" "buf_put buf rp [0x0A] = Some b1"
        "ws1 = ws\<lparr>frml := fr, sdone := nrd - pp\<rparr>" "buf1 = b1" "n = rp + ws_state ws"
    by (simp add: linorder_not_less [symmetric]) (elim bindE, simp)
  show "pp \<le> nrd" by (rule pp)
  from a show "nrd - pp \<le> length (frml ws)" "length buf1 = length buf" "rp + 1 \<le> length buf" "n = rp + ws_state ws"
    using buf_get_length [OF a(1)] buf_put_length [OF a(2)] buf_put_length [OF a(3)] by simp_all
  from a(4) buf_put_length [OF a(2)]
  show "\<exists>fr. length fr = length (frml ws) \<and> ws1 = ws\<lparr>frml := fr, sdone := nrd - pp\<rparr>" by blast
qed

lemma ws_recv_kept:
  assumes "ws_recv ws buf rcv = Some (Inr (Some (ws1, buf1, n, sent)))"
  shows "ws_p ws1 = ws_p ws" "length buf1 = length buf" "ws_ok ws \<Longrightarrow> ws_ok ws1 \<and> n \<le> length buf"
proof -
  define nrd where "nrd = length rcv + sdone ws"
  let ?u = "\<lambda>b2. if nrd < 14 \<and> togo ws = 0 then Some (Inr (ws, b2, 0, 0, []))
      else if togo ws \<noteq> 0 then ws_unpack nrd (ws, b2, 0, 0, [])
      else do { r \<leftarrow> ws_unpack_header (ws, b2, 0, 0, []); ws_unpack nrd r }"
  from assms obtain st b1 b2 where b: "buf_put buf 0 st = Some b1" "buf_put b1 (sdone ws) rcv = Some b2"
    and rest: "rcv \<noteq> []" "(do { u \<leftarrow> ?u b2; case u of Inl a \<Rightarrow> Some (Inl a) | Inr r \<Rightarrow> do {
        s \<leftarrow> ws_stash nrd r; case s of Inl a \<Rightarrow> Some (Inl a) | Inr x \<Rightarrow> Some (Inr (Some x)) } })
      = Some (Inr (Some (ws1, buf1, n, sent)))"
    unfolding ws_recv_def Let_def nrd_def [symmetric] by (elim bindE) (simp split: if_split_asm)
  from rest(2) obtain p where p: "?u b2 = Some p" and "(case p of Inl a \<Rightarrow> Some (Inl a) | Inr r \<Rightarrow> do {
        s \<leftarrow> ws_stash nrd r; case s of Inl a \<Rightarrow> Some (Inl a) | Inr x \<Rightarrow> Some (Inr (Some x)) })
      = Some (Inr (Some (ws1, buf1, n, sent)))"
    by (rule bindE)
  then obtain r where u: "?u b2 = Some (Inr r)" and s: "ws_stash nrd r = Some (Inr (ws1, buf1, n, sent))"
    by (cases p) (auto elim!: bindE split: sum.split_asm)
  consider "nrd < 14 \<and> togo ws = 0" "r = (ws, b2, 0, 0, [])"
    | "ws_unpack nrd (ws, b2, 0, 0, []) = Some (Inr r)"
    | h where "ws_unpack_header (ws, b2, 0, 0, []) = Some h" "ws_unpack nrd h = Some (Inr r)"
    using u by (fastforce split: if_split_asm elim: bindE)
  note runs = this
  have kept: "recv_kept (ws, b2, 0, 0, []) r"
  proof (cases rule: runs)
    case 3
    then show ?thesis by (rule recv_kept_trans [OF header_kept unpack_kept])
  qed (simp_all add: unpack_kept)
  obtain ws2 buf2 pp rp sent2 where r: "r = (ws2, buf2, pp, rp, sent2)" by (rule prod_cases5)
  have left: "togo ws2 = 0 \<or> nrd \<le> pp"
    by (cases rule: runs) (use unpack_left r in auto)
  note st = stash_kept [OF s [unfolded r]]
  from st(6) obtain fr where fr: "length fr = length (frml ws2)" "ws1 = ws2\<lparr>frml := fr, sdone := nrd - pp\<rparr>"
    by blast
  have len: "length b2 = length buf" using buf_put_length [OF b(1)] buf_put_length [OF b(2)] by simp
  show "ws_p ws1 = ws_p ws" "length buf1 = length buf"
    using kept r len st(3) fr by (simp_all add: recv_kept_def)
  show "ws_ok ws \<Longrightarrow> ws_ok ws1 \<and> n \<le> length buf"
  proof -
    assume "ws_ok ws"
    with kept r have "length (frml ws2) = 14" "ws_state ws2 \<le> 1" "length buf2 = length b2"
      by (simp_all add: recv_kept_def ws_ok_def)
    with fr left st(2,4,5) len show "ws_ok ws1 \<and> n \<le> length buf" by (auto simp: ws_ok_def)
  qed
qed

lemma uint_less_length: "Suc (unat w) \<le> k \<Longrightarrow> uint w + 1 \<le> int k"
  using of_nat_mono [of "Suc (unat w)" k, where 'a = int] by simp

lemma rest_chunk_kept:
  assumes "do {
      (v, on) \<leftarrow> strtoul_buf 16 buf;
      c0 \<leftarrow> (if v = 0 then Some 0 else at on 0);
      c1 \<leftarrow> (if v = 0 \<or> c0 \<noteq> 0x0D then Some 0 else at on 1);
      if v = 0 \<or> c0 \<noteq> 0x0D \<or> c1 \<noteq> 0x0A
      then do { buf1 \<leftarrow> buf_put buf 0 [0x0A]; Some (Inl (ws\<lparr>togo := v, ws_state := 0\<rparr>, buf1)) }
      else (let i = length buf - length on + 2 in do {
        check (i \<le> nrd);
        mv \<leftarrow> buf_get buf i (nrd - i);
        buf1 \<leftarrow> buf_put buf 0 mv;
        Some (Inr (nrd - i, ws\<lparr>togo := v\<rparr>, buf1)) }) } = Some r"
  shows "case r of Inl (ws1, buf1) \<Rightarrow> ws_p ws1 = ws_p ws \<and> length buf1 = length buf \<and> 1 \<le> length buf
    | Inr (n, ws1, buf1) \<Rightarrow> ws_p ws1 = ws_p ws \<and> length buf1 = length buf \<and> n \<le> nrd"
proof (rule bind_pairE [OF assms], goal_cases)
  case (1 v on)
  note tail = 1(2)
  show ?case
  proof (rule bindE [OF tail], goal_cases)
    case (1 c0)
    note tail = 1(2)
    show ?case
    proof (rule bindE [OF tail], goal_cases)
      case (1 c1)
      from 1(2) show ?case
        by (auto simp: Let_def split: if_split_asm elim!: bind_elims dest!: buf_put_length)
    qed
  qed
qed

lemma rest_body_kept:
  assumes "rest_body ws buf nrd = Some (n, ws1, buf1)" "nrd \<le> length buf"
  shows "ws_p ws1 = ws_p ws \<and> length buf1 = length buf \<and> n \<le> int (length buf)"
proof (cases "bit (ws_state ws) 1")
  case True
  with assms show ?thesis unfolding rest_body_def
    by (auto split: if_split_asm elim!: bind_elims dest!: buf_put_length uint_less_length)
next
  case no_len: False
  show ?thesis
  proof (cases "bit (ws_state ws) 2")
    case False
    with no_len assms show ?thesis by (simp add: rest_body_def)
  next
    case True
    note rest = assms(1) [unfolded rest_body_def if_not_P [OF no_len] if_P [OF True]]
    show ?thesis
    proof (rule bindE [OF rest], goal_cases)
      case (1 r)
      have "case r of Inl (ws1, buf1) \<Rightarrow> ws_p ws1 = ws_p ws \<and> length buf1 = length buf \<and> 1 \<le> length buf
          | Inr (n, ws1, buf1) \<Rightarrow> ws_p ws1 = ws_p ws \<and> length buf1 = length buf \<and> n \<le> nrd"
      proof (cases "togo ws = 0")
        case True
        show ?thesis by (rule rest_chunk_kept [OF 1(1) [unfolded if_P [OF True]]])
      next
        case False
        with 1(1) have "r = Inr (nrd, ws, buf)" by simp
        then show ?thesis by simp
      qed
      with 1(2) assms(2) show ?case by (auto split: sum.split_asm prod.split_asm if_split_asm)
    qed
  qed
qed

lemma rest_headers_kept: "rest_headers ws buf nrd = Some ws1 \<Longrightarrow> ws_p ws1 = ws_p ws"
  by (auto simp: rest_headers_def split: if_split_asm option.split_asm elim!: bind_elims)

lemma rest_recv_kept:
  assumes "rest_recv ws buf rcv = Some (n, ws1, buf1)"
  shows "ws_p ws1 = ws_p ws" "length buf1 = length buf" "n \<le> int (length buf)"
proof -
  have "ws_p ws1 = ws_p ws \<and> length buf1 = length buf \<and> n \<le> int (length buf)"
    using assms unfolding rest_recv_def
    by (auto split: if_split_asm option.split_asm elim!: bind_elims
        dest!: buf_put_length rest_body_kept rest_headers_kept)
  then show "ws_p ws1 = ws_p ws" "length buf1 = length buf" "n \<le> int (length buf)" by auto
qed

section \<open>What the log keeps\<close>

lemma logwss_loop_kept:
  "logwss_loop mas prfz mem lp ep out = Some (mem1, out1, lp1) \<Longrightarrow> lp \<le> ep \<Longrightarrow>
    length mem1 = length mem \<and> lp \<le> lp1 \<and> lp1 \<le> ep"
proof (induction mas prfz mem lp ep out rule: logwss_loop.induct)
  case (1 mas prfz mem lp ep out)
  note step = "1.prems"(1) [unfolded logwss_loop.simps [of mas prfz mem lp ep out]]
  show ?case
  proof (cases "lp < ep")
    case False
    with step "1.prems"(2) show ?thesis by simp
  next
    case True
    from step [unfolded if_P [OF True]] obtain e where e: "find_eol mem lp ep = Some e" by (rule bindE)
    show ?thesis
    proof (cases e)
      case None
      with step True e show ?thesis by simp
    next
      case (Some eol)
      from step True e Some obtain line mem1' mem2' mem3' wr where
          l: "buf_get mem lp (eol - lp) = Some line" "buf_put mem prfz line = Some mem1'"
            "buf_put mem1' (prfz + length line) [0x0A] = Some mem2'"
            "buf_put mem2' prfz (mas (line @ [0x0A])) = Some mem3'"
            "buf_get mem3' 0 (prfz + length (mas (line @ [0x0A]))) = Some wr"
        and rec: "logwss_loop mas prfz mem3' (eol + 1) ep (out @ wr) = Some (mem1, out1, lp1)"
        by (simp, elim bindE) blast
      have r: "lp \<le> eol" "eol < ep" using e Some by (auto dest: find_eol_range)
      from "1.IH" [OF True e Some l rec] r l show ?thesis by (auto dest!: buf_put_length)
    qed
  qed
qed

lemma logwss_kept:
  assumes "logwss mas now mem len = Some (mem1, out, npr)"
  shows "length mem1 = length mem" "npr \<le> len"
proof -
  from assms obtain mem0 lp where l: "buf_put mem 0 (log_prefix now) = Some mem0"
      "logwss_loop mas (length (log_prefix now)) mem0 INI_GBOF (INI_GBOF + len) [] = Some (mem1, out, lp)"
      "npr = lp - INI_GBOF"
    unfolding logwss_def by (elim bindE bind_tripleE) auto
  from logwss_loop_kept [OF l(2)] l show "length mem1 = length mem" "npr \<le> len"
    by (auto dest!: buf_put_length)
qed

lemma snarf_log_kept:
  assumes "snarf_log cl now mem xn = Some (mem1, out, n)"
  shows "length mem1 = length mem" "INI_GBOF \<le> n" "n \<le> xn" "n \<le> length mem"
proof -
  from assms obtain mem' npr mv where l: "INI_GBOF \<le> xn"
      "logwss (massage cl) now mem (xn - INI_GBOF) = Some (mem', out, npr)"
      "buf_get mem' (INI_GBOF + npr) (xn - npr) = Some mv" "buf_put mem' INI_GBOF mv = Some mem1" "n = xn - npr"
    unfolding snarf_log_def by (elim bind_checkE bindE bind_tripleE) auto
  from logwss_kept [OF l(2)] l show "length mem1 = length mem" "INI_GBOF \<le> n" "n \<le> xn" "n \<le> length mem"
    by (auto dest!: buf_put_length buf_get_length)
qed

section \<open>The invariant of a slot\<close>

definition proto_cb :: "ws_proto_t \<Rightarrow> coin_cb" where
  "proto_cb p = (case p of WS_PROTO_REST \<Rightarrow> REST_CB | WS_PROTO_SIO3 \<Rightarrow> SIO3_CB | _ \<Rightarrow> WS_CB)"

definition linked :: "coin_st_t \<Rightarrow> bool" where
  "linked s \<longleftrightarrow> COIN_ST_CONN \<le> s \<and> s \<le> COIN_ST_JOIND"

text \<open>The buffer: nothing yet, or at least a page that holds the fill.\<close>

definition room_ok :: "byte list \<Rightarrow> nat \<Rightarrow> bool" where
  "room_ok buf n \<longleftrightarrow> (if buf = [] then n \<le> INI_GBOF else 4096 \<le> length buf \<and> n \<le> length buf)"

text \<open>
  A slot has a watcher just when it has a connection, and it is the one of its protocol; it
  has a connection in all states from connecting to joined and none before and at the end.
\<close>

definition coin_ok :: "coin \<Rightarrow> bool" where
  "coin_ok c \<longleftrightarrow> c_cb c = map_option (\<lambda>ws. proto_cb (ws_p ws)) (c_ws c)
     \<and> (c_st c = COIN_ST_UNK \<or> c_st c = COIN_ST_FINI \<longrightarrow> c_ws c = None)
     \<and> (linked (c_st c) \<longrightarrow> c_ws c \<noteq> None)
     \<and> (\<forall>ws. c_ws c = Some ws \<longrightarrow> INI_GBOF \<le> c_n c \<and> (ws_p ws \<noteq> WS_PROTO_REST \<longrightarrow> ws_ok ws))
     \<and> room_ok (c_buf c) (c_n c)"

definition coins_ok :: "nat \<Rightarrow> wssnarf_s \<Rightarrow> bool" where
  "coins_ok k ctx \<longleftrightarrow> length (coins ctx) = k \<and> (\<forall>c \<in> set (coins ctx). coin_ok c)"

lemma linked_simps [simp]: "\<not> linked COIN_ST_UNK" "linked COIN_ST_CONN" "linked COIN_ST_CONND"
  "linked COIN_ST_AUTH" "linked COIN_ST_AUTHD" "linked COIN_ST_JOIN" "linked COIN_ST_JOIND"
  "\<not> linked COIN_ST_NODATA" "\<not> linked COIN_ST_INTR" "\<not> linked COIN_ST_FINI"
  by (simp_all add: linked_def coin_st_order)

lemma coins_ok_at: "coins_ok k ctx \<Longrightarrow> at (coins ctx) i = Some c \<Longrightarrow> coin_ok c"
  by (auto simp: coins_ok_def at_Some_iff)

lemma coins_put [simp]: "coins (put_coin ctx i c) = (coins ctx)[i := c]"
  by (simp add: put_coin_def)

lemma coins_set [simp]: "coins (set_coin ctx i f) = (coins ctx)[i := f (coins ctx ! i)]"
  by (simp add: set_coin_def)

lemma coins_ok_update: "coins_ok k ctx \<Longrightarrow> coins ctx1 = (coins ctx)[i := c] \<Longrightarrow> coin_ok c \<Longrightarrow> coins_ok k ctx1"
  by (auto simp: coins_ok_def dest!: subsetD [OF set_update_subset_insert])

lemma coins_ok_put [inv_intros]: "coins_ok k ctx \<Longrightarrow> coin_ok c \<Longrightarrow> coins_ok k (put_coin ctx i c)"
  by (rule coins_ok_update [where i = i and c = c]) simp_all

lemma coins_ok_set [inv_intros]: "coins_ok k ctx \<Longrightarrow> coin_ok (f (coins ctx ! i)) \<Longrightarrow> coins_ok k (set_coin ctx i f)"
  unfolding set_coin_def by (rule coins_ok_put)

lemma coins_ok_same: "coins_ok k ctx \<Longrightarrow> coins ctx1 = coins ctx \<Longrightarrow> coins_ok k ctx1"
  by (simp add: coins_ok_def)

lemma ws_open_new:
  assumes "ws_open g env url = Some (Some ws, g1, sent)"
  shows "ws_ok ws"
proof -
  have new: "ws_ok (ws_new u)" for u by (simp add: ws_new_def ws_ok_def)
  show ?thesis
    using assms unfolding ws_open_def Let_def
    by (elim bindE) (auto simp: new split: option.split_asm if_split_asm elim!: bind_elims)
qed

lemma snarf_room_length:
  assumes "room_ok buf n"
  shows "need \<le> 4000 \<Longrightarrow> n + need \<le> length (snarf_room fill need n buf)"
    and "0 < need \<Longrightarrow> 4096 \<le> length (snarf_room fill need n buf)"
    and "0 < need \<Longrightarrow> n \<le> length (snarf_room fill need n buf)"
  using assms by (auto simp: room_ok_def snarf_room_def INI_GBOF_def split: if_split_asm)

section \<open>What the hooks keep\<close>

text \<open>All that a hook can do to its slot is to start a new answer on a REST connection.\<close>

definition same_hooked :: "coin \<Rightarrow> coin \<Rightarrow> bool" where
  "same_hooked c d \<longleftrightarrow> d = c
     \<or> (\<exists>ws ws1. c_ws c = Some ws \<and> ws_p ws = WS_PROTO_REST \<and> ws_p ws1 = WS_PROTO_REST \<and> d = c\<lparr>c_ws := Some ws1\<rparr>)"

definition hook_kept :: "nat \<Rightarrow> wssnarf_s \<Rightarrow> wssnarf_s \<Rightarrow> bool" where
  "hook_kept i ctx ctx1 \<longleftrightarrow> (\<exists>d. coins ctx1 = (coins ctx)[i := d] \<and> (i < length (coins ctx) \<longrightarrow> same_hooked (coins ctx ! i) d))"

lemma same_hooked_refl [simp]: "same_hooked c c"
  by (simp add: same_hooked_def)

lemma same_hooked_trans: "same_hooked c d \<Longrightarrow> same_hooked d e \<Longrightarrow> same_hooked c e"
  by (auto simp: same_hooked_def)

lemma same_hooked_st: "same_hooked c d \<Longrightarrow> c_st d = c_st c"
  by (auto simp: same_hooked_def)

lemma same_hooked_ws: "same_hooked c d \<Longrightarrow> c_ws c = Some ws \<Longrightarrow> \<exists>ws1. c_ws d = Some ws1 \<and> ws_p ws1 = ws_p ws"
  by (auto simp: same_hooked_def)

lemma hook_keptI: "coins ctx1 = (coins ctx)[i := d] \<Longrightarrow> same_hooked (coins ctx ! i) d \<Longrightarrow> hook_kept i ctx ctx1"
  unfolding hook_kept_def by blast

lemma hook_kept_same: "coins ctx1 = coins ctx \<Longrightarrow> hook_kept i ctx ctx1"
  by (rule hook_keptI [where d = "coins ctx ! i"]) simp_all

lemma hook_kept_trans: "hook_kept i ctx ctx1 \<Longrightarrow> hook_kept i ctx1 ctx2 \<Longrightarrow> hook_kept i ctx ctx2"
proof -
  assume "hook_kept i ctx ctx1" "hook_kept i ctx1 ctx2"
  then obtain d e where "coins ctx1 = (coins ctx)[i := d]" "coins ctx2 = (coins ctx)[i := e]"
      "i < length (coins ctx) \<longrightarrow> same_hooked (coins ctx ! i) d \<and> same_hooked d e"
    by (cases "i < length (coins ctx)") (auto simp: hook_kept_def)
  then show ?thesis unfolding hook_kept_def by (blast intro: same_hooked_trans)
qed

lemma wssnarf_log_coins: "wssnarf_log now ctx msg = Some ctx1 \<Longrightarrow> coins ctx1 = coins ctx"
  by (auto simp: wssnarf_log_def elim!: bindE)

lemma rest_send_proto: "rest_send g ws url = Some (req, ws1) \<Longrightarrow> ws1 = ws \<or> ws_p ws = WS_PROTO_REST \<and> ws_p ws1 = WS_PROTO_REST"
  by (auto simp: rest_send_def Let_def split: if_split_asm elim!: bind_checkE)

lemma hook_run_kept: "hook_run i k ctx = Some ctx1 \<Longrightarrow> hook_kept i ctx ctx1"
proof (induction i k ctx rule: hook_run.induct)
  case (1 i msg mok ctx)
  then show ?case by (auto elim!: bindE intro: hook_kept_same)
next
  case (2 i url ctx)
  then obtain c ws req ws1 where "at (coins ctx) i = Some c" "c_ws c = Some ws" "rest_send (wsg ctx) ws url = Some (req, ws1)"
      "coins ctx1 = (coins ctx)[i := c\<lparr>c_ws := Some ws1\<rparr>]"
    by (auto simp: put_coin_def elim!: bind_elims)
  with rest_send_proto [OF this(3)] show ?case
    by (intro hook_keptI [where d = "c\<lparr>c_ws := Some ws1\<rparr>"]) (auto simp: at_Some_iff same_hooked_def)
next
  case (3 i now msg ctx)
  then show ?case by (simp add: wssnarf_log_coins hook_kept_same)
qed

lemma hook_runs_kept: "hook_runs i ks ctx = Some ctx1 \<Longrightarrow> hook_kept i ctx ctx1"
  by (induction ks arbitrary: ctx) (auto intro: hook_kept_same dest!: hook_run_kept elim!: bindE elim: hook_kept_trans)

lemma call_hook_kept: "call_hook h ctx i = Some (r, ctx1) \<Longrightarrow> hook_kept i ctx ctx1"
  by (auto simp: call_hook_def elim!: bindE intro: hook_runs_kept)

lemma coin_ok_hooked: "coin_ok c \<Longrightarrow> same_hooked c d \<Longrightarrow> coin_ok d"
  by (auto simp: coin_ok_def same_hooked_def)

lemma hook_kept_ok: "coins_ok k ctx \<Longrightarrow> hook_kept i ctx ctx1 \<Longrightarrow> coins_ok k ctx1"
proof -
  assume ok: "coins_ok k ctx" and "hook_kept i ctx ctx1"
  then obtain d where d: "coins ctx1 = (coins ctx)[i := d]" "i < length (coins ctx) \<longrightarrow> same_hooked (coins ctx ! i) d"
    by (auto simp: hook_kept_def)
  show ?thesis
  proof (cases "i < length (coins ctx)")
    case True
    with ok have "coin_ok (coins ctx ! i)" by (simp add: coins_ok_def)
    from coins_ok_update [OF ok d(1) coin_ok_hooked [OF this]] d(2) True show ?thesis by simp
  next
    case False
    with d(1) have "coins ctx1 = coins ctx" by (simp add: list_update_beyond)
    with ok show ?thesis by (rule coins_ok_same)
  qed
qed

lemma hook_kept_at:
  assumes "hook_kept i ctx ctx1" "at (coins ctx) i = Some c"
  obtains d where "at (coins ctx1) i = Some d" "same_hooked c d"
  using assms by (auto simp: hook_kept_def at_Some_iff)

text \<open>A case of \<open>prepare\<close> that calls a hook unless the connection is a REST one.\<close>

lemma rest_or_hook_kept:
  "(if b then Some (1, ctx) else call_hook h ctx i) = Some (r, ctx1) \<Longrightarrow> hook_kept i ctx ctx1"
  by (auto split: if_split_asm intro: call_hook_kept hook_kept_same)

section \<open>The invariant is kept by \<open>prepare\<close>\<close>

lemma coin_ok_linked: "coin_ok c \<Longrightarrow> c_ws c = Some ws \<Longrightarrow> linked st \<Longrightarrow> coin_ok (c\<lparr>c_st := st\<rparr>)"
  by (cases st) (simp_all add: coin_ok_def)

lemma coin_ok_linked_reset:
  "coin_ok c \<Longrightarrow> c_ws c = Some ws \<Longrightarrow> linked st \<Longrightarrow> coin_ok (c\<lparr>c_n := INI_GBOF, c_st := st\<rparr>)"
  by (cases st) (auto simp: coin_ok_def room_ok_def INI_GBOF_def split: if_split_asm)

lemma coin_ok_fini: "coin_ok c \<Longrightarrow> coin_ok (c\<lparr>c_cb := None, c_ws := None, c_st := COIN_ST_FINI\<rparr>)"
  by (simp add: coin_ok_def)

lemma prep_disc_ok: "coins_ok k ctx \<Longrightarrow> prep_disc ctx i = Some ctx1 \<Longrightarrow> coins_ok k ctx1"
proof -
  assume ok: "coins_ok k ctx" and p: "prep_disc ctx i = Some ctx1"
  from p obtain c where c: "at (coins ctx) i = Some c"
      "coins ctx1 = (coins ctx)[i := c\<lparr>c_cb := None, c_ws := None, c_st := COIN_ST_FINI\<rparr>]"
    by (auto simp: prep_disc_def fini_coin_def at_Some_iff elim!: bindE)
  from coins_ok_update [OF ok c(2) coin_ok_fini [OF coins_ok_at [OF ok c(1)]]] show ?thesis .
qed

lemma prep_joind_ok: "coins_ok k ctx \<Longrightarrow> prep_joind ctx i = Some ctx1 \<Longrightarrow> coins_ok k ctx1"
  by (auto simp: prep_joind_def split: if_split_asm elim!: bindE intro: prep_disc_ok)

text \<open>Setting a connected state before a case that needs the connection.\<close>

lemma set_linked_ok:
  assumes "coins_ok k ctx" "at (coins (set_coin ctx i f)) i = Some c" "c_ws c = Some ws" "linked st"
    and "f = c_st_update (\<lambda>_. st) \<or> f = (\<lambda>c. c\<lparr>c_n := INI_GBOF, c_st := st\<rparr>)"
  shows "coins_ok k (set_coin ctx i f)"
proof -
  let ?c = "coins ctx ! i"
  have i: "i < length (coins ctx)" "c = f ?c" using assms(2) by (auto simp: at_Some_iff)
  with assms(3,5) have ws: "c_ws ?c = Some ws" by auto
  have ok: "coin_ok ?c" using assms(1) i(1) by (simp add: coins_ok_def)
  have "coin_ok (f ?c)"
    using assms(5) coin_ok_linked [OF ok ws assms(4)] coin_ok_linked_reset [OF ok ws assms(4)] by auto
  with assms(1) show ?thesis by (rule coins_ok_set)
qed

lemma set_linked_hooked:
  assumes "coins_ok k ctx1" "hook_kept i ctx ctx1" "at (coins ctx) i = Some c" "c_ws c = Some ws" "linked st"
  shows "coins_ok k (set_coin ctx1 i (c_st_update (\<lambda>_. st)))"
proof -
  obtain d where d: "at (coins ctx1) i = Some d" "same_hooked c d" using assms(2,3) by (rule hook_kept_at)
  from same_hooked_ws [OF d(2) assms(4)] obtain ws1 where "c_ws d = Some ws1" by blast
  with coin_ok_linked [OF coins_ok_at [OF assms(1) d(1)] _ assms(5)] d(1) assms(1) show ?thesis
    by (intro coins_ok_set) (simp_all add: at_Some_iff)
qed

text \<open>The cases of \<open>prepare\<close> that call a hook, with what follows its answer.\<close>

lemma prep_join_cases:
  assumes "prep_join cl ctx i = Some ctx1"
  obtains c ws ctx2 and r :: int where "at (coins ctx) i = Some c" "c_ws c = Some ws" "hook_kept i ctx ctx2"
    "(if r < 0 then Some (set_coin ctx2 i (c_st_update (\<lambda>_. COIN_ST_AUTHD))) else if r = 0 then Some ctx2
      else prep_joind (set_coin ctx2 i (c_st_update (\<lambda>_. COIN_ST_JOIND))) i) = Some ctx1"
  using assms unfolding prep_join_def by (elim bind_pairE bindE) (drule rest_or_hook_kept, blast)

lemma prep_auth_cases:
  assumes "prep_auth cl ctx i = Some ctx1"
  obtains c ws ctx2 and r :: int where "at (coins ctx) i = Some c" "c_ws c = Some ws" "hook_kept i ctx ctx2"
    "(if r < 0 then Some (set_coin ctx2 i (c_st_update (\<lambda>_. COIN_ST_CONND))) else if r = 0 then Some ctx2
      else prep_authd cl ctx2 i) = Some ctx1"
  using assms unfolding prep_auth_def by (elim bind_pairE bindE) (drule rest_or_hook_kept, blast)

lemma prep_conn_cases:
  assumes "prep_conn cl ctx i = Some ctx1"
  obtains ctx2 and r :: int where "hook_kept i ctx ctx2"
    "(if r < 0 then prep_disc ctx2 i else if r = 0 then Some ctx2 else prep_connd cl ctx2 i) = Some ctx1"
  using assms unfolding prep_conn_def by (elim bind_pairE bindE) (drule call_hook_kept, blast)

lemma prep_join_ok: "coins_ok k ctx \<Longrightarrow> prep_join cl ctx i = Some ctx1 \<Longrightarrow> coins_ok k ctx1"
proof -
  assume ok: "coins_ok k ctx" and p: "prep_join cl ctx i = Some ctx1"
  from p obtain c ws ctx2 where c: "at (coins ctx) i = Some c" "c_ws c = Some ws" and h: "hook_kept i ctx ctx2"
    and r: "ctx1 = ctx2 \<or> ctx1 = set_coin ctx2 i (c_st_update (\<lambda>_. COIN_ST_AUTHD))
        \<or> prep_joind (set_coin ctx2 i (c_st_update (\<lambda>_. COIN_ST_JOIND))) i = Some ctx1"
    by (elim prep_join_cases) (auto split: if_split_asm)
  have ok2: "coins_ok k ctx2" using ok h by (rule hook_kept_ok)
  then have "coins_ok k (set_coin ctx2 i (c_st_update (\<lambda>_. st)))" if "linked st" for st
    using set_linked_hooked [OF ok2 h c that] by blast
  with r ok2 show ?thesis by (auto elim!: prep_joind_ok [rotated])
qed

lemma prep_join_ws: "prep_join cl ctx i = Some ctx1 \<Longrightarrow> \<exists>c ws. at (coins ctx) i = Some c \<and> c_ws c = Some ws"
  by (auto simp: prep_join_def elim!: bindE)

lemma prep_authd_ok: "coins_ok k ctx \<Longrightarrow> prep_authd cl ctx i = Some ctx1 \<Longrightarrow> coins_ok k ctx1"
proof -
  assume ok: "coins_ok k ctx" and p: "prep_authd cl ctx i = Some ctx1"
  let ?f = "\<lambda>c. c\<lparr>c_n := INI_GBOF, c_st := COIN_ST_JOIN\<rparr>"
  note j = p [unfolded prep_authd_def]
  from prep_join_ws [OF j] obtain c ws where "at (coins (set_coin ctx i ?f)) i = Some c" "c_ws c = Some ws" by blast
  with ok have "coins_ok k (set_coin ctx i ?f)" by (rule set_linked_ok) (rule linked_simps, simp)
  from prep_join_ok [OF this j] show ?thesis .
qed

lemma prep_auth_ok: "coins_ok k ctx \<Longrightarrow> prep_auth cl ctx i = Some ctx1 \<Longrightarrow> coins_ok k ctx1"
proof -
  assume ok: "coins_ok k ctx" and p: "prep_auth cl ctx i = Some ctx1"
  from p obtain c ws ctx2 where c: "at (coins ctx) i = Some c" "c_ws c = Some ws" and h: "hook_kept i ctx ctx2"
    and r: "ctx1 = ctx2 \<or> ctx1 = set_coin ctx2 i (c_st_update (\<lambda>_. COIN_ST_CONND)) \<or> prep_authd cl ctx2 i = Some ctx1"
    by (elim prep_auth_cases) (auto split: if_split_asm)
  have ok2: "coins_ok k ctx2" using ok h by (rule hook_kept_ok)
  then have "coins_ok k (set_coin ctx2 i (c_st_update (\<lambda>_. COIN_ST_CONND)))"
    by (rule set_linked_hooked [OF _ h c]) simp
  with r ok2 show ?thesis by (auto intro: prep_authd_ok)
qed

lemma prep_auth_ws: "prep_auth cl ctx i = Some ctx1 \<Longrightarrow> \<exists>c ws. at (coins ctx) i = Some c \<and> c_ws c = Some ws"
  by (auto simp: prep_auth_def elim!: bindE)

lemma prep_connd_ok: "coins_ok k ctx \<Longrightarrow> prep_connd cl ctx i = Some ctx1 \<Longrightarrow> coins_ok k ctx1"
proof -
  assume ok: "coins_ok k ctx" and p: "prep_connd cl ctx i = Some ctx1"
  let ?f = "\<lambda>c. c\<lparr>c_n := INI_GBOF, c_st := COIN_ST_AUTH\<rparr>"
  note j = p [unfolded prep_connd_def]
  from prep_auth_ws [OF j] obtain c ws where "at (coins (set_coin ctx i ?f)) i = Some c" "c_ws c = Some ws" by blast
  with ok have "coins_ok k (set_coin ctx i ?f)" by (rule set_linked_ok) (rule linked_simps, simp)
  from prep_auth_ok [OF this j] show ?thesis .
qed

lemma prep_conn_ok: "coins_ok k ctx \<Longrightarrow> prep_conn cl ctx i = Some ctx1 \<Longrightarrow> coins_ok k ctx1"
  by (elim prep_conn_cases, drule (1) hook_kept_ok)
    (auto split: if_split_asm intro: prep_disc_ok prep_connd_ok)

lemma prep_unk_ok:
  assumes ok: "coins_ok k ctx" and c: "at (coins ctx) i = Some c" "c_st c = COIN_ST_UNK"
    and p: "prep_unk cl env ctx i = Some ctx1"
  shows "coins_ok k ctx1"
proof -
  have cok: "coin_ok c" using ok c(1) by (rule coins_ok_at)
  with c(2) have none: "c_ws c = None" "c_cb c = None" by (simp_all add: coin_ok_def)
  from p obtain r ctx2 where o: "open_coin env ctx i = Some (r, ctx2)"
    and p2: "(if r < 0 then prep_disc ctx2 i
       else prep_conn cl (set_coin ctx2 i (\<lambda>c. c\<lparr>c_n := INI_GBOF, c_st := COIN_ST_CONN, c_last := tsp_sec ctx\<rparr>)) i)
         = Some ctx1"
    unfolding prep_unk_def by (elim bind_pairE)
  from o [unfolded open_coin_def] c(1) obtain w g sent where w: "ws_open (wsg ctx) env (p_url (c_par c)) = Some (w, g, sent)"
    and w2: "(case w of None \<Rightarrow> Some (-1, put_coin (ctx\<lparr>wsg := g\<rparr>) i (c\<lparr>c_ws := None\<rparr>))
      | Some ws \<Rightarrow> Some (1, put_coin (ctx\<lparr>wsg := g\<rparr>) i (c\<lparr>c_ws := Some ws, c_st := COIN_ST_UNK,
            c_cb := Some (case ws_p ws of WS_PROTO_REST \<Rightarrow> REST_CB | WS_PROTO_SIO3 \<Rightarrow> SIO3_CB | _ \<Rightarrow> WS_CB)\<rparr>))) = Some (r, ctx2)"
    by (auto simp: Let_def elim!: bind_tripleE)
  show ?thesis
  proof (cases w)
    case None
    with w2 have "r < 0" "coins ctx2 = (coins ctx)[i := c\<lparr>c_ws := None\<rparr>]" by auto
    moreover have "coin_ok (c\<lparr>c_ws := None\<rparr>)" using cok none by (simp add: coin_ok_def)
    ultimately show ?thesis using p2 coins_ok_update [OF ok] by (auto intro: prep_disc_ok)
  next
    case (Some ws)
    let ?c = "c\<lparr>c_ws := Some ws, c_st := COIN_ST_UNK, c_cb := Some (proto_cb (ws_p ws))\<rparr>"
    let ?d = "?c\<lparr>c_n := INI_GBOF, c_st := COIN_ST_CONN, c_last := tsp_sec ctx\<rparr>"
    from Some w2 have r: "r = 1" "coins ctx2 = (coins ctx)[i := ?c]" by (auto simp: proto_cb_def)
    have i: "i < length (coins ctx)" using c(1) by (simp add: at_Some_iff)
    have d: "coin_ok ?d" using cok ws_open_new [OF w [unfolded Some]]
      by (auto simp: coin_ok_def room_ok_def INI_GBOF_def split: if_split_asm)
    let ?ctx3 = "set_coin ctx2 i (\<lambda>c. c\<lparr>c_n := INI_GBOF, c_st := COIN_ST_CONN, c_last := tsp_sec ctx\<rparr>)"
    have "coins ?ctx3 = (coins ctx)[i := ?d]" using r(2) i by simp
    from coins_ok_update [OF ok this d] have "coins_ok k ?ctx3" .
    moreover from p2 r(1) have "prep_conn cl ?ctx3 i = Some ctx1" by simp
    ultimately show ?thesis by (rule prep_conn_ok)
  qed
qed

lemma prep_slot_ok:
  assumes "coins_ok k ctx" "prep_slot cl env ctx i = Some ctx1"
  shows "coins_ok k ctx1"
proof -
  from assms(2) obtain c where c: "at (coins ctx) i = Some c" unfolding prep_slot_def by (elim bindE)
  show ?thesis
    using assms c
    by (cases "c_st c")
      (auto simp: prep_slot_def coins_ok_def [of _ "_\<lparr>brk := _\<rparr>"]
        intro: prep_unk_ok prep_conn_ok prep_connd_ok prep_auth_ok prep_authd_ok prep_join_ok prep_joind_ok prep_disc_ok
        simp flip: coins_ok_def)
qed

lemma prepare_from_ok: "prepare_from cl env ctx i ns = Some ctx1 \<Longrightarrow> coins_ok k ctx \<Longrightarrow> coins_ok k ctx1"
proof (induction cl env ctx i ns rule: prepare_from.induct)
  case (1 cl env ctx i ns)
  from "1.prems"(1) [unfolded prepare_from.simps [of cl env ctx i ns]] obtain ctx2 where
      s: "prep_slot (cl i) (env i) ctx i = Some ctx2"
    and r: "(if i + 1 < ns then prepare_from cl env ctx2 (i + 1) ns else Some ctx2) = Some ctx1"
    by (rule bindE)
  have ok2: "coins_ok k ctx2" using "1.prems"(2) s by (rule prep_slot_ok)
  show ?case
  proof (cases "i + 1 < ns")
    case True
    with "1.IH" [OF s True] r ok2 show ?thesis by simp
  next
    case False
    with r ok2 show ?thesis by simp
  qed
qed

lemma prepare_ok: "coins_ok k ctx \<Longrightarrow> prepare cl env ctx = Some ctx1 \<Longrightarrow> coins_ok k ctx1"
  unfolding prepare_def by (rule prepare_from_ok)

section \<open>The invariant is kept by the handlers\<close>

text \<open>What every read of data does to a slot that has a watcher.\<close>

definition same_link :: "coin \<Rightarrow> coin \<Rightarrow> bool" where
  "same_link c d \<longleftrightarrow> c_cb d = c_cb c \<and> (c_st d = c_st c \<or> linked (c_st c) \<and> linked (c_st d))
     \<and> (c_ws d = c_ws c \<or> (\<exists>ws ws1. c_ws c = Some ws \<and> c_ws d = Some ws1 \<and> ws_p ws1 = ws_p ws
         \<and> (ws_p ws \<noteq> WS_PROTO_REST \<and> ws_ok ws \<longrightarrow> ws_ok ws1)))
     \<and> 4096 \<le> length (c_buf d) \<and> INI_GBOF \<le> c_n d \<and> c_n d \<le> length (c_buf d)"

lemma coin_ok_same_link:
  assumes "coin_ok c" "same_link c d" "c_ws c \<noteq> None"
  shows "coin_ok d"
proof -
  have "c_buf d \<noteq> []" using assms(2) by (auto simp: same_link_def)
  with assms show ?thesis by (auto simp: coin_ok_def same_link_def room_ok_def)
qed

lemma snarf_ask_linked: "snarf_ask hook msg st = (a, st1) \<Longrightarrow> st1 = st \<or> st1 = coin_st_succ st"
  by (auto simp: snarf_ask_def split: if_split_asm)

lemma snarf_state_linked:
  "snarf_state cl msg st = (a, st1) \<Longrightarrow> st \<noteq> COIN_ST_UNK \<Longrightarrow> st1 = st \<or> linked st \<and> linked st1"
  by (cases st) (auto dest!: snarf_ask_linked)

lemma snarf_inflate_kept:
  assumes "snarf_inflate d0 fill iz mem xn nrd = Some (Some (mem1, xn1))" "4096 \<le> length mem"
  shows "4096 \<le> length mem1"
  using assms unfolding snarf_inflate_def Let_def
  by (auto split: if_split_asm elim!: bind_elims dest!: buf_put_length)

lemma snarf_unroll_coins: "snarf_unroll now ctx = Some ctx1 \<Longrightarrow> coins ctx1 = coins ctx"
  by (auto simp: snarf_unroll_def elim!: bind_elims)

lemma same_link_buf:
  assumes "same_link c d"
  shows "4096 \<le> length mem \<Longrightarrow> INI_GBOF \<le> n \<Longrightarrow> n \<le> length mem \<Longrightarrow> same_link c (d\<lparr>c_buf := mem, c_n := n\<rparr>)"
    and "same_link c (d\<lparr>c_n := INI_GBOF\<rparr>)" and "same_link c (d\<lparr>c_last := l\<rparr>)"
    and "c_n d \<le> length mem \<Longrightarrow> 4096 \<le> length mem \<Longrightarrow> same_link c (d\<lparr>c_buf := mem\<rparr>)"
  using assms by (auto simp: same_link_def INI_GBOF_def)

lemma snarf_ws_log_link:
  assumes "snarf_ws_log sio3 cl env ctx i d xn nrd = Some ctx1" "same_link c d"
  shows "\<exists>d'. coins ctx1 = (coins ctx)[i := d'] \<and> same_link c d'"
proof -
  have len: "4096 \<le> length (c_buf d)" using assms(2) by (simp add: same_link_def)
  from assms(1) obtain inf where
      inf: "(if \<not> sio3 \<and> p_inflate (c_par d)
        then snarf_inflate (r_tinf env) (r_fill env)
          (if (\<not> sio3 \<and> p_inflate (c_par d)) \<and> infz ctx < 10 * xn then 10 * xn else infz ctx) (c_buf d) xn nrd
        else Some (Some (c_buf d, xn))) = Some inf"
    and r: "case inf of None \<Rightarrow> coins ctx1 = (coins ctx)[i := d\<lparr>c_n := INI_GBOF\<rparr>]
      | Some (mem1, xn1) \<Rightarrow> (\<exists>mem2 out n l. snarf_log cl (r_now env) mem1 xn1 = Some (mem2, out, n)
          \<and> coins ctx1 = (coins ctx)[i := d\<lparr>c_buf := mem2, c_n := n, c_last := l\<rparr>])"
    unfolding snarf_ws_log_def Let_def
    by (elim bindE) (force split: option.split_asm elim!: bindE)
  show ?thesis
  proof (cases inf)
    case None
    with r same_link_buf(2) [OF assms(2)] show ?thesis by auto
  next
    case (Some p)
    obtain mem1 xn1 where p: "p = (mem1, xn1)" by fastforce
    with Some inf len have len1: "4096 \<le> length mem1"
      by (auto split: if_split_asm dest: snarf_inflate_kept)
    from r Some p obtain mem2 out n l where l: "snarf_log cl (r_now env) mem1 xn1 = Some (mem2, out, n)"
        "coins ctx1 = (coins ctx)[i := d\<lparr>c_buf := mem2, c_n := n, c_last := l\<rparr>]" by auto
    from snarf_log_kept [OF l(1)] len1 assms(2) l(2) show ?thesis
      by (auto intro!: same_link_buf)
  qed
qed

lemma snarf_ws_switch_link:
  assumes "snarf_ws_switch sio3 cl env ctx i d xn nrd = Some ctx1" "same_link c d" "c_st d \<noteq> COIN_ST_UNK"
  shows "\<exists>d'. coins ctx1 = (coins ctx)[i := d'] \<and> same_link c d'"
proof -
  obtain a st where st: "snarf_state cl (take (xn - INI_GBOF) (drop INI_GBOF (c_buf d))) (c_st d) = (a, st)"
    by fastforce
  from snarf_state_linked [OF st assms(3)] assms(2) have d: "same_link c (d\<lparr>c_st := st\<rparr>)"
    by (auto simp: same_link_def)
  from assms(1) st have run: "(case a of
       SNARF_WEIRD \<Rightarrow> Some (put_coin ctx i (d\<lparr>c_st := st, c_n := INI_GBOF\<rparr>))
     | SNARF_LOGUNR \<Rightarrow> do {
         (mem1, out, npr) \<leftarrow> logwss (massage cl) (r_now env) (c_buf d) (xn + nrd - INI_GBOF);
         snarf_unroll (r_now env) ((put_coin ctx i (d\<lparr>c_buf := mem1, c_st := st\<rparr>))\<lparr>wlog := wlog ctx @ out\<rparr>) }
     | SNARF_LOG \<Rightarrow>
         snarf_ws_log sio3 cl env (ctx\<lparr>wsg := snarf_answer sio3 (r_malloc env) (c_st d) (wsg ctx)\<rparr>) i
           (d\<lparr>c_st := st\<rparr>) xn nrd) = Some ctx1"
    unfolding snarf_ws_switch_def by (elim bind_checkE) (cases a, simp_all)
  show ?thesis
  proof (cases a)
    case SNARF_LOG
    with run snarf_ws_log_link [OF _ d] show ?thesis by fastforce
  next
    case SNARF_LOGUNR
    with run obtain mem1 out npr where l: "logwss (massage cl) (r_now env) (c_buf d) (xn + nrd - INI_GBOF)
          = Some (mem1, out, npr)"
        "coins ctx1 = (coins ctx)[i := d\<lparr>c_buf := mem1, c_st := st\<rparr>]"
      by (auto dest!: snarf_unroll_coins elim!: bind_tripleE)
    from logwss_kept(1) [OF l(1)] d have "same_link c (d\<lparr>c_buf := mem1, c_st := st\<rparr>)"
      by (simp add: same_link_def)
    with l(2) show ?thesis by blast
  next
    case SNARF_WEIRD
    with run same_link_buf(2) [OF d] show ?thesis by auto
  qed
qed

lemma proto_cb_rest: "proto_cb p = REST_CB \<longleftrightarrow> p = WS_PROTO_REST"
  by (cases p) (simp_all add: proto_cb_def)

lemma coin_ok_cb:
  "coin_ok c \<Longrightarrow> c_cb c = Some cb \<Longrightarrow> \<exists>ws. c_ws c = Some ws \<and> (cb = REST_CB \<longleftrightarrow> ws_p ws = WS_PROTO_REST)"
  by (cases "c_ws c") (auto simp: coin_ok_def proto_cb_rest [symmetric])

lemma snarf_ws_cb_link:
  assumes cb: "snarf_ws_cb sio3 cl env ctx i = Some (Inr ctx1)" and c: "at (coins ctx) i = Some c"
    and ok: "coin_ok c" and ws0: "c_ws c = Some ws" and rest: "ws_p ws \<noteq> WS_PROTO_REST"
  shows "\<exists>d. coins ctx1 = (coins ctx)[i := d] \<and> same_link c d"
proof -
  define buf where "buf = snarf_room (r_fill env) 4000 (c_n c) (c_buf c)"
  from ok ws0 have room: "room_ok (c_buf c) (c_n c)" and n: "INI_GBOF \<le> c_n c" and wok: "ws_ok ws"
    and up: "c_st c \<noteq> COIN_ST_UNK"
    using rest by (auto simp: coin_ok_def)
  have len: "4096 \<le> length buf" "c_n c \<le> length buf"
    using snarf_room_length [OF room, of 4000] by (simp_all add: buf_def)
  from cb c ws0 obtain r where r: "ws_recv ws (drop (c_n c) buf) (r_rcv env) = Some r"
    and run: "(case r of
          Inl a \<Rightarrow> Some (Inl a)
        | Inr None \<Rightarrow> do { ctx1 \<leftarrow> snarf_unroll (r_now env) (put_coin ctx i (c\<lparr>c_buf := buf\<rparr>)); Some (Inr ctx1) }
        | Inr (Some (ws1, buf1, nrd, sent)) \<Rightarrow> do {
            ctx1 \<leftarrow> snarf_ws_switch sio3 cl env ctx i
              (c\<lparr>c_ws := Some ws1, c_buf := take (c_n c) buf @ buf1\<rparr>) (c_n c + nrd) nrd;
            Some (Inr ctx1) }) = Some (Inr ctx1)"
    unfolding snarf_ws_cb_def Let_def buf_def by (auto elim!: bind_checkE bindE)
  show ?thesis
  proof (cases r)
    case (Inl a)
    with run show ?thesis by simp
  next
    case (Inr got)
    show ?thesis
    proof (cases got)
      case None
      with run Inr have "coins ctx1 = (coins ctx)[i := c\<lparr>c_buf := buf\<rparr>]"
        by (auto dest!: snarf_unroll_coins elim!: bindE)
      moreover have "same_link c (c\<lparr>c_buf := buf\<rparr>)" using len n by (simp add: same_link_def)
      ultimately show ?thesis by blast
    next
      case (Some q)
      obtain ws1 buf1 nrd sent where q: "q = (ws1, buf1, nrd, sent)" by (rule prod_cases4)
      let ?d = "c\<lparr>c_ws := Some ws1, c_buf := take (c_n c) buf @ buf1\<rparr>"
      from run Inr Some q have sw: "snarf_ws_switch sio3 cl env ctx i ?d (c_n c + nrd) nrd = Some ctx1"
        by (auto elim: bindE)
      note k = ws_recv_kept [OF r [unfolded Inr Some q]]
      have "same_link c ?d" using k wok ws0 len n by (simp add: same_link_def)
      from snarf_ws_switch_link [OF sw this] up show ?thesis by simp
    qed
  qed
qed

lemma snarf_ws_cb_ok:
  assumes "coins_ok k ctx" "at (coins ctx) i = Some c" "c_cb c = Some WS_CB \<or> c_cb c = Some SIO3_CB"
    and "snarf_ws_cb sio3 cl env ctx i = Some (Inr ctx1)"
  shows "coins_ok k ctx1"
proof -
  have ok: "coin_ok c" using assms(1,2) by (rule coins_ok_at)
  with assms(3) obtain ws where ws: "c_ws c = Some ws" "ws_p ws \<noteq> WS_PROTO_REST"
    by (metis coin_ok_cb [OF ok] coin_cb.distinct)
  from snarf_ws_cb_link [OF assms(4,2) ok ws] obtain d where
      d: "coins ctx1 = (coins ctx)[i := d]" "same_link c d" by blast
  from coin_ok_same_link [OF ok d(2)] ws(1) coins_ok_update [OF assms(1) d(1)] show ?thesis by simp
qed

lemma snarf_rest_cb_link:
  assumes ok: "coin_ok c" and "at (coins ctx) i = Some c" "c_cb c = Some REST_CB"
    and "snarf_rest_cb cl env ctx i = Some ctx1"
  shows "\<exists>d. coins ctx1 = (coins ctx)[i := d] \<and> c_ws c \<noteq> None
    \<and> (same_link c d \<or> coin_ok d \<and> c_st d = COIN_ST_UNK \<and> c_ws d = None)"
proof -
  from assms(3) obtain ws where ws: "c_ws c = Some ws" "ws_p ws = WS_PROTO_REST"
    by (metis coin_ok_cb [OF ok] coin_cb.distinct)
  define buf where "buf = snarf_room (r_fill env) 4096 (c_n c) (c_buf c)"
  from ok ws have room: "room_ok (c_buf c) (c_n c)" and n: "INI_GBOF \<le> c_n c"
    by (auto simp: coin_ok_def)
  have len: "4096 \<le> length buf" "c_n c \<le> length buf"
    using snarf_room_length [OF room, of 4096] by (simp_all add: buf_def)
  from assms(2,4) ws(1) obtain nrd ws1 buf1 where
      r: "rest_recv ws (drop (c_n c) buf) (r_rcv env) = Some (nrd, ws1, buf1)"
    and run: "(if nrd < 0
         then Some ((put_coin ctx i (c\<lparr>c_buf := buf, c_ws := None, c_buf := take (c_n c) buf @ buf1, c_cb := None,
             c_st := COIN_ST_UNK, c_n := INI_GBOF\<rparr>))\<lparr>wsg := ws_close (wsg ctx)\<rparr>)
         else do {
           (mem1, out, n) \<leftarrow> snarf_log cl (r_now env) (take (c_n c) buf @ buf1) (c_n c + nat nrd);
           Some ((put_coin ctx i (c\<lparr>c_buf := buf, c_ws := Some ws1, c_buf := mem1, c_n := n\<rparr>))
             \<lparr>tsp_sec := int (fst (r_now env)), wlog := wlog ctx @ out\<rparr>) }) = Some ctx1"
    unfolding snarf_rest_cb_def Let_def buf_def by (auto elim!: bind_checkE bind_tripleE bindE)
  note k = rest_recv_kept [OF r]
  show ?thesis
  proof (cases "nrd < 0")
    case True
    with run have e: "coins ctx1 = (coins ctx)[i := c\<lparr>c_ws := None, c_buf := take (c_n c) buf @ buf1, c_cb := None,
             c_st := COIN_ST_UNK, c_n := INI_GBOF\<rparr>]" by auto
    have "take (c_n c) buf @ buf1 \<noteq> []" using len k(2) by auto
    with len k(2) have "coin_ok (c\<lparr>c_ws := None, c_buf := take (c_n c) buf @ buf1, c_cb := None,
             c_st := COIN_ST_UNK, c_n := INI_GBOF\<rparr>)"
      by (simp add: coin_ok_def room_ok_def INI_GBOF_def)
    with e ws(1) show ?thesis by fastforce
  next
    case False
    with run obtain mem1 out n where
        l: "snarf_log cl (r_now env) (take (c_n c) buf @ buf1) (c_n c + nat nrd) = Some (mem1, out, n)"
      and e: "coins ctx1 = (coins ctx)[i := c\<lparr>c_ws := Some ws1, c_buf := mem1, c_n := n\<rparr>]"
      by (auto elim!: bind_tripleE)
    have "same_link c (c\<lparr>c_ws := Some ws1, c_buf := mem1, c_n := n\<rparr>)"
      using snarf_log_kept [OF l] k ws len by (simp add: same_link_def)
    with e ws(1) show ?thesis by blast
  qed
qed

lemma snarf_rest_cb_ok:
  assumes "coins_ok k ctx" "at (coins ctx) i = Some c" "c_cb c = Some REST_CB"
    and "snarf_rest_cb cl env ctx i = Some ctx1"
  shows "coins_ok k ctx1"
proof -
  have ok: "coin_ok c" using assms(1,2) by (rule coins_ok_at)
  from snarf_rest_cb_link [OF ok assms(2-4)] obtain d where "coins ctx1 = (coins ctx)[i := d]" "coin_ok d"
    using coin_ok_same_link [OF ok] by blast
  with assms(1) show ?thesis by (rule coins_ok_update)
qed

section \<open>The steps of the daemon\<close>

text \<open>
  What the event loop can run next: \<open>prepare\<close> before it waits, the callback of an active
  watcher, the timer of a slot that has one, the signals and the rotation at midnight. The
  loop may run them in any order, and the hooks may do something else in each.
\<close>

inductive snarf_step :: "wssnarf_s \<Rightarrow> wssnarf_s \<Rightarrow> bool" where
  step_prepare: "prepare cls env ctx = Some ctx1 \<Longrightarrow> snarf_step ctx ctx1"
| step_ws: "at (coins ctx) i = Some c \<Longrightarrow> c_cb c = Some WS_CB \<Longrightarrow>
    ws_cb cl renv ctx i = Some (Inr ctx1) \<Longrightarrow> snarf_step ctx ctx1"
| step_sio3: "at (coins ctx) i = Some c \<Longrightarrow> c_cb c = Some SIO3_CB \<Longrightarrow>
    sio3_cb cl renv ctx i = Some (Inr ctx1) \<Longrightarrow> snarf_step ctx ctx1"
| step_rest: "at (coins ctx) i = Some c \<Longrightarrow> c_cb c = Some REST_CB \<Longrightarrow>
    snarf_rest_cb cl renv ctx i = Some ctx1 \<Longrightarrow> snarf_step ctx ctx1"
| step_hbeat: "at (coins ctx) i = Some c \<Longrightarrow> c_timer c \<Longrightarrow>
    hbeat_cb cl now ctx i = Some ctx1 \<Longrightarrow> snarf_step ctx ctx1"
| step_sigint: "sigint_cb now ctx = Some ctx1 \<Longrightarrow> snarf_step ctx ctx1"
| step_rotate: "rotate_outfile now lnz hnz ctx = Some ctx1 \<Longrightarrow> snarf_step ctx ctx1"

text \<open>The steps into a context that is known.\<close>

inductive_simps snarf_step_iff: "snarf_step ctx ctx1"

text \<open>Setting up as \<open>main\<close> of a client does: a context, its connections, and \<open>run_wssnarf\<close>.\<close>

definition snarf_setup :: "clock \<Rightarrow> wssnarf_param_t list \<Rightarrow> wssnarf_s option" where
  "snarf_setup now prms =
     map_option (run_wssnarf now) (foldl (\<lambda>ctx p. do { c \<leftarrow> ctx; add_wssnarf c p }) (Some make_wssnarf) prms)"

text \<open>The heartbeat: what the hook does, and then maybe the slot has lost its data.\<close>

lemma hbeat_cb_hooked:
  assumes "hbeat_cb cl now ctx i = Some ctx1"
  obtains c d where "at (coins ctx) i = Some c" "same_hooked c d"
    "coins ctx1 = (coins ctx)[i := d] \<or> coins ctx1 = (coins ctx)[i := d\<lparr>c_st := COIN_ST_NODATA\<rparr>]"
proof -
  from assms obtain c ctx0 ctx2 r where c: "at (coins ctx) i = Some c" "coins ctx0 = coins ctx"
    and h: "call_hook (heartbeat cl (c_ws c)) ctx0 i = Some (r, ctx2)"
    and e: "coins ctx1 = coins ctx2 \<or> coins ctx1 = (coins ctx2)[i := (coins ctx2 ! i)\<lparr>c_st := COIN_ST_NODATA\<rparr>]"
    unfolding hbeat_cb_def by (elim bind_pairE bindE) (auto dest!: wssnarf_log_coins split: if_split_asm)
  from call_hook_kept [OF h] c obtain d where "coins ctx2 = (coins ctx)[i := d]" "same_hooked c d"
    by (auto simp: hook_kept_def at_Some_iff)
  with e c(1) show thesis by (intro that [of c d]) (auto simp: at_Some_iff)
qed

lemma hbeat_cb_ok:
  assumes "coins_ok k ctx" "hbeat_cb cl now ctx i = Some ctx1"
  shows "coins_ok k ctx1"
proof -
  from assms(2) obtain c d where c: "at (coins ctx) i = Some c" "same_hooked c d"
      "coins ctx1 = (coins ctx)[i := d] \<or> coins ctx1 = (coins ctx)[i := d\<lparr>c_st := COIN_ST_NODATA\<rparr>]"
    by (rule hbeat_cb_hooked)
  have d: "coin_ok d" using coins_ok_at [OF assms(1) c(1)] c(2) by (rule coin_ok_hooked)
  then have "coin_ok (d\<lparr>c_st := COIN_ST_NODATA\<rparr>)" by (auto simp: coin_ok_def)
  with d c(3) assms(1) show ?thesis by (auto intro: coins_ok_update)
qed

lemma sigint_cb_ok:
  assumes "coins_ok k ctx" "sigint_cb now ctx = Some ctx1"
  shows "coins_ok k ctx1"
proof -
  have "coin_ok (c\<lparr>c_st := COIN_ST_INTR\<rparr>)" if "coin_ok c" for c using that by (auto simp: coin_ok_def)
  with assms show ?thesis by (auto simp: sigint_cb_def coins_ok_def elim!: bindE)
qed

lemma rotate_outfile_ok: "coins_ok k ctx \<Longrightarrow> rotate_outfile now lnz hnz ctx = Some ctx1 \<Longrightarrow> coins_ok k ctx1"
  by (auto simp: rotate_outfile_def coins_ok_def elim!: bind_elims)

lemma snarf_step_ok: "snarf_step ctx ctx1 \<Longrightarrow> coins_ok k ctx \<Longrightarrow> coins_ok k ctx1"
  by (induction rule: snarf_step.induct)
    ((unfold ws_cb_def sio3_cb_def)?, blast intro: prepare_ok snarf_ws_cb_ok snarf_rest_cb_ok hbeat_cb_ok sigint_cb_ok rotate_outfile_ok)+

lemma snarf_steps_ok: "snarf_step\<^sup>*\<^sup>* ctx ctx1 \<Longrightarrow> coins_ok k ctx \<Longrightarrow> coins_ok k ctx1"
  by (induction rule: rtranclp_induct) (blast intro: snarf_step_ok)+

lemma snarf_setup_ok:
  assumes "snarf_setup now prms = Some ctx"
  shows "coins_ok (length prms) ctx" "length prms \<le> 4"
proof -
  have "foldl (\<lambda>ctx p. do { c \<leftarrow> ctx; add_wssnarf c p }) (Some make_wssnarf) prms = Some ctx1 \<Longrightarrow>
      coins_ok (length prms) ctx1 \<and> length prms \<le> 4" for ctx1
  proof (induction prms arbitrary: ctx1 rule: rev_induct)
    case Nil
    then show ?case by (auto simp: make_wssnarf_def coins_ok_def)
  next
    case (snoc p prms)
    then obtain ctx2 where "foldl (\<lambda>ctx p. do { c \<leftarrow> ctx; add_wssnarf c p }) (Some make_wssnarf) prms = Some ctx2"
      and a: "add_wssnarf ctx2 p = Some ctx1" by (auto elim: bindE)
    with snoc.IH have "coins_ok (length prms) ctx2" "length prms \<le> 4" by simp_all
    with a show ?case
      by (auto simp: add_wssnarf_def coins_ok_def coin_ok_def room_ok_def Let_def elim!: bind_checkE)
  qed
  with assms show "coins_ok (length prms) ctx" "length prms \<le> 4"
    by (auto simp: snarf_setup_def run_wssnarf_def coins_ok_def)
qed

text \<open>An example: one REST connection, set up and prepared once.\<close>

definition rest_prm :: wssnarf_param_t where
  "rest_prm = \<lparr>p_url = ''http://a/'', p_heartbeat = 0, p_max_inact = 600, p_inflate = False\<rparr>"

definition open_env :: "nat \<Rightarrow> ws_env" where
  "open_env i = \<lparr>e_malloc = True, e_conn = True, e_reads = []\<rparr>"

definition rest_ws :: ws_s where
  "rest_ws = ws_new \<lparr>u_proto = WS_PROTO_REST, u_ssl = False, u_host = ''a'', u_hostport = ''a'', u_port = 80, u_rsrc = []\<rparr>"

definition rest_joined :: wssnarf_s where
  "rest_joined = \<lparr>coins = [\<lparr>c_st = COIN_ST_JOIND, c_ws = Some rest_ws, c_buf = [], c_n = INI_GBOF, c_last = 7,
       c_par = rest_prm, c_cb = Some REST_CB, c_timer = False\<rparr>],
     infz = 0, tsp_sec = 7, wlog = [], rotated = [], brk = False, wsg = \<lparr>gbuf = True, gbsz = 4096, gbrc = 1\<rparr>\<rparr>"

lemma rest_prm_open:
  "ws_open \<lparr>gbuf = False, gbsz = 0, gbrc = 0\<rparr> (open_env i) ''http://a/''
    = Some (Some rest_ws, \<lparr>gbuf = True, gbsz = 4096, gbrc = 1\<rparr>, [])"
proof -
  have "guess_proto ''http://a/'' = Some (WS_PROTO_REST, ''a/'', False)"
    using guess_proto_url [of WS_PROTO_REST False "''a/''"] by (simp add: url_string_def ws_scheme_def)
  then show ?thesis by (simp add: ws_open_def ws_parse_url_def open_env_def rest_ws_def ws_new_def)
qed

lemma rest_setup:
  "snarf_setup (7, 0) [rest_prm] = Some (make_wssnarf\<lparr>coins := [\<lparr>c_st = COIN_ST_UNK, c_ws = None, c_buf = [], c_n = 0,
      c_last = 0, c_par = rest_prm, c_cb = None, c_timer = False\<rparr>], tsp_sec := 7\<rparr>)"
  by (simp add: snarf_setup_def add_wssnarf_def make_wssnarf_def run_wssnarf_def rest_prm_def)

lemma rest_prepare:
  "prepare (\<lambda>_. weak_client) open_env (make_wssnarf\<lparr>coins := [\<lparr>c_st = COIN_ST_UNK, c_ws = None, c_buf = [], c_n = 0,
      c_last = 0, c_par = rest_prm, c_cb = None, c_timer = False\<rparr>], tsp_sec := 7\<rparr>) = Some rest_joined"
  by (simp add: prepare_def prepare_from.simps prep_slot_def prep_unk_def open_coin_def rest_prm_open
      make_wssnarf_def rest_prm_def weak_client_def rest_joined_def set_coin_def put_coin_def prep_conn_def
      prep_connd_def prep_auth_def prep_authd_def prep_join_def prep_joind_def rest_ws_def ws_new_def call_hook_def)

lemma rest_joined_reachable: "snarf_setup (7, 0) [rest_prm] = Some ctx \<Longrightarrow> snarf_step\<^sup>*\<^sup>* ctx rest_joined"
  using rest_setup rest_prepare by (auto intro!: r_into_rtranclp step_prepare)

text \<open>
  C17. In every context the daemon can get into, in whatever order the loop runs its handlers,
  whatever the sockets deliver and whatever the hooks send, log and answer at each call, a slot has a watcher just when it has a
  connection, and it runs the callback of the connection's protocol; slots between connecting
  and joined have a connection, finished ones have none; frames received are in a valid state
  and the buffers hold what they say they hold.
\<close>

theorem snarf_reachable_ok:
  assumes "snarf_setup now prms = Some ctx0" "snarf_step\<^sup>*\<^sup>* ctx0 ctx"
  shows "length (coins ctx) = length prms \<and> length prms \<le> 4 \<and> (\<forall>c \<in> set (coins ctx). coin_ok c)"
  using snarf_steps_ok [OF assms(2) snarf_setup_ok(1) [OF assms(1)]] snarf_setup_ok(2) [OF assms(1)]
  by (simp add: coins_ok_def)

theorem snarf_reachable_ok_witness:
  "\<exists>ctx0. snarf_setup (7, 0) [rest_prm] = Some ctx0 \<and> snarf_step\<^sup>*\<^sup>* ctx0 rest_joined
     \<and> coin_ok (hd (coins rest_joined)) \<and> c_ws (hd (coins rest_joined)) = Some rest_ws"
proof -
  have "coin_ok (hd (coins rest_joined))"
    using snarf_reachable_ok [OF rest_setup rest_joined_reachable [OF rest_setup]] by (simp add: rest_joined_def)
  moreover have "c_ws (hd (coins rest_joined)) = Some rest_ws" by (simp add: rest_joined_def)
  ultimately show ?thesis using rest_setup rest_joined_reachable [OF rest_setup] by blast
qed

section \<open>Leaving\<close>

text \<open>Slots that lost their data, were interrupted or are finished are not opened again.\<close>

lemma prep_slot_leave:
  assumes "i < length (coins ctx)" "COIN_ST_NODATA \<le> c_st (coins ctx ! i)"
    and "c_st (coins ctx ! i) = COIN_ST_FINI \<longrightarrow> c_ws (coins ctx ! i) = None \<and> c_cb (coins ctx ! i) = None"
  shows "\<exists>ctx1 d. prep_slot cl env ctx i = Some ctx1 \<and> coins ctx1 = (coins ctx)[i := d] \<and> brk ctx1
    \<and> c_st d = COIN_ST_FINI \<and> c_ws d = None \<and> c_cb d = None"
proof -
  let ?c = "coins ctx ! i"
  have disc: "\<exists>ctx1. prep_disc ctx i = Some ctx1 \<and> brk ctx1
      \<and> coins ctx1 = (coins ctx)[i := ?c\<lparr>c_cb := None, c_ws := None, c_st := COIN_ST_FINI\<rparr>]"
    using assms(1) by (simp add: prep_disc_def fini_coin_def set_coin_def put_coin_def)
  show ?thesis
  proof (cases "c_st ?c = COIN_ST_FINI")
    case True
    with assms show ?thesis
      by (auto simp: prep_slot_def intro!: exI [of _ ?c])
  next
    case False
    with assms(2) have "c_st ?c = COIN_ST_NODATA \<or> c_st ?c = COIN_ST_INTR"
      by (cases "c_st ?c") (simp_all add: coin_st_order)
    with assms(1) disc show ?thesis by (fastforce simp: prep_slot_def)
  qed
qed

definition left_slot :: "coin \<Rightarrow> bool" where
  "left_slot c \<longleftrightarrow> c_st c = COIN_ST_FINI \<and> c_ws c = None \<and> c_cb c = None"

lemma prepare_from_leave:
  "i < length (coins ctx) \<Longrightarrow>
   (\<And>j. i \<le> j \<Longrightarrow> j < length (coins ctx) \<Longrightarrow> COIN_ST_NODATA \<le> c_st (coins ctx ! j)
      \<and> (c_st (coins ctx ! j) = COIN_ST_FINI \<longrightarrow> left_slot (coins ctx ! j))) \<Longrightarrow>
   (\<And>j. j < i \<Longrightarrow> left_slot (coins ctx ! j)) \<Longrightarrow>
   \<exists>ctx1. prepare_from cl env ctx i (length (coins ctx)) = Some ctx1 \<and> brk ctx1
     \<and> length (coins ctx1) = length (coins ctx) \<and> (\<forall>c \<in> set (coins ctx1). left_slot c)"
proof (induction "length (coins ctx) - i" arbitrary: ctx i)
  case 0
  then show ?case by simp
next
  case (Suc m)
  from prep_slot_leave [of i ctx "cl i" "env i"] Suc.prems(1,2) obtain ctx2 d where
      s: "prep_slot (cl i) (env i) ctx i = Some ctx2" "coins ctx2 = (coins ctx)[i := d]" "brk ctx2" "left_slot d"
    by (auto simp: left_slot_def)
  show ?case
  proof (cases "i + 1 < length (coins ctx)")
    case True
    have "\<exists>ctx1. prepare_from cl env ctx2 (i + 1) (length (coins ctx2)) = Some ctx1 \<and> brk ctx1
        \<and> length (coins ctx1) = length (coins ctx2) \<and> (\<forall>c \<in> set (coins ctx1). left_slot c)"
      using Suc.hyps(2) Suc.prems True s(2,4) by (intro Suc.hyps(1)) (auto simp: nth_list_update less_Suc_eq)
    then show ?thesis using s True by (simp add: prepare_from.simps [of cl env ctx i])
  next
    case False
    have "left_slot c" if "c \<in> set (coins ctx2)" for c
    proof -
      from that obtain j where j: "j < length (coins ctx)" "c = coins ctx2 ! j"
        using s(2) by (auto simp: in_set_conv_nth)
      with False Suc.prems(3) s(2,4) show ?thesis by (cases "j = i") auto
    qed
    then show ?thesis using s False by (simp add: prepare_from.simps [of cl env ctx i])
  qed
qed

lemma prepare_leave:
  assumes "coins ctx \<noteq> []" "\<forall>c \<in> set (coins ctx). COIN_ST_NODATA \<le> c_st c \<and> (c_st c = COIN_ST_FINI \<longrightarrow> left_slot c)"
  shows "\<exists>ctx1. prepare cl env ctx = Some ctx1 \<and> brk ctx1 \<and> length (coins ctx1) = length (coins ctx)
    \<and> (\<forall>c \<in> set (coins ctx1). left_slot c)"
  unfolding prepare_def using assms by (intro prepare_from_leave) auto

text \<open>
  C18. After an interrupt the next \<open>prepare\<close> closes every connection, stops every watcher,
  finishes every slot and ends the loop, whatever state the slots were in and without any
  hook being called or any connection being opened.
\<close>

theorem sigint_finishes:
  assumes "sigint_cb now ctx = Some ctx1" "coins ctx \<noteq> []"
  shows "\<exists>ctx2. prepare cl env ctx1 = Some ctx2 \<and> brk ctx2 \<and> length (coins ctx2) = length (coins ctx)
    \<and> (\<forall>c \<in> set (coins ctx2). c_st c = COIN_ST_FINI \<and> c_ws c = None \<and> c_cb c = None)"
proof -
  from assms(1) have c: "coins ctx1 = map (\<lambda>c. c\<lparr>c_st := COIN_ST_INTR\<rparr>) (coins ctx)"
    by (auto simp: sigint_cb_def elim!: bindE)
  with assms(2) have "\<exists>ctx2. prepare cl env ctx1 = Some ctx2 \<and> brk ctx2 \<and> length (coins ctx2) = length (coins ctx1)
      \<and> (\<forall>c \<in> set (coins ctx2). left_slot c)"
    by (intro prepare_leave) (auto simp: coin_st_order)
  with c show ?thesis by (simp add: left_slot_def)
qed

theorem sigint_finishes_witness:
  "\<exists>ctx1 ctx2. sigint_cb (7, 0) rest_joined = Some ctx1 \<and> prepare (\<lambda>_. weak_client) open_env ctx1 = Some ctx2 \<and> brk ctx2
     \<and> length (coins ctx2) = 1 \<and> (\<forall>c \<in> set (coins ctx2). c_st c = COIN_ST_FINI \<and> c_ws c = None)"
proof -
  have "\<exists>ctx1. sigint_cb (7, 0) rest_joined = Some ctx1"
    by (simp add: sigint_cb_def loghim_def log_prefix_def hrclock_print_def pad9_def dec_string.simps INI_GBOF_def)
  then obtain ctx1 where c: "sigint_cb (7, 0) rest_joined = Some ctx1" by blast
  from sigint_finishes [OF c, of "\<lambda>_. weak_client" open_env] c show ?thesis by (auto simp: rest_joined_def)
qed

text \<open>The cases of \<open>prepare\<close> for a slot change no other slot.\<close>

definition only_slot :: "nat \<Rightarrow> wssnarf_s \<Rightarrow> wssnarf_s \<Rightarrow> bool" where
  "only_slot i ctx ctx1 \<longleftrightarrow> (\<exists>d. coins ctx1 = (coins ctx)[i := d])"

lemma only_slot_refl [simp]: "only_slot i ctx ctx"
  unfolding only_slot_def by (rule exI [of _ "coins ctx ! i"]) simp

lemma only_slotI: "coins ctx1 = (coins ctx)[i := d] \<Longrightarrow> only_slot i ctx ctx1"
  unfolding only_slot_def by (rule exI)

lemma only_slot_put: "coins ctx0 = coins ctx \<Longrightarrow> only_slot i ctx (put_coin ctx0 i c)"
  by (rule only_slotI [of _ _ _ c]) simp

lemma only_slot_trans: "only_slot i ctx ctx1 \<Longrightarrow> only_slot i ctx1 ctx2 \<Longrightarrow> only_slot i ctx ctx2"
  by (auto simp: only_slot_def)

lemma only_slot_set: "only_slot i (set_coin ctx i f) ctx1 \<longleftrightarrow> only_slot i ctx ctx1"
  by (simp add: only_slot_def)

lemma only_slot_set1 [simp]: "only_slot i ctx (set_coin ctx i f)"
  by (auto simp: only_slot_def)

lemma only_slot_set2: "only_slot i ctx ctx1 \<Longrightarrow> only_slot i ctx (set_coin ctx1 i f)"
  by (erule only_slot_trans) simp

lemma only_slot_nth: "only_slot i ctx ctx1 \<Longrightarrow> j \<noteq> i \<Longrightarrow> coins ctx1 ! j = coins ctx ! j"
  by (auto simp: only_slot_def)

lemma hook_kept_only: "hook_kept i ctx ctx1 \<Longrightarrow> only_slot i ctx ctx1"
  by (auto simp: hook_kept_def only_slot_def)

lemma prep_disc_only: "prep_disc ctx i = Some ctx1 \<Longrightarrow> only_slot i ctx ctx1"
  by (auto simp: prep_disc_def fini_coin_def elim!: bindE intro: only_slotI)

lemma prep_joind_only: "prep_joind ctx i = Some ctx1 \<Longrightarrow> only_slot i ctx ctx1"
  by (auto simp: prep_joind_def split: if_split_asm elim!: bindE intro: prep_disc_only)

lemma prep_join_only: "prep_join cl ctx i = Some ctx1 \<Longrightarrow> only_slot i ctx ctx1"
  by (elim prep_join_cases, drule hook_kept_only)
    (auto split: if_split_asm dest!: prep_joind_only simp: only_slot_set intro: only_slot_set2 elim: only_slot_trans)

lemma prep_authd_only: "prep_authd cl ctx i = Some ctx1 \<Longrightarrow> only_slot i ctx ctx1"
  by (auto simp: prep_authd_def dest!: prep_join_only simp: only_slot_set)

lemma prep_auth_only: "prep_auth cl ctx i = Some ctx1 \<Longrightarrow> only_slot i ctx ctx1"
  by (elim prep_auth_cases, drule hook_kept_only)
    (auto split: if_split_asm dest!: prep_authd_only intro: only_slot_set2 elim: only_slot_trans)

lemma prep_connd_only: "prep_connd cl ctx i = Some ctx1 \<Longrightarrow> only_slot i ctx ctx1"
  by (auto simp: prep_connd_def dest!: prep_auth_only simp: only_slot_set)

lemma prep_conn_only: "prep_conn cl ctx i = Some ctx1 \<Longrightarrow> only_slot i ctx ctx1"
  by (elim prep_conn_cases, drule hook_kept_only)
    (auto split: if_split_asm dest!: prep_disc_only prep_connd_only elim: only_slot_trans)

lemma open_coin_only: "open_coin env ctx i = Some (r, ctx1) \<Longrightarrow> only_slot i ctx ctx1"
  by (auto simp: open_coin_def Let_def split: option.split_asm elim!: bind_elims intro!: only_slot_put)

lemma prep_unk_only: "prep_unk cl env ctx i = Some ctx1 \<Longrightarrow> only_slot i ctx ctx1"
  by (auto simp: prep_unk_def split: if_split_asm elim!: bind_pairE dest!: open_coin_only prep_disc_only prep_conn_only
      simp: only_slot_set) (blast intro: only_slot_trans)+

lemma prep_slot_only: "prep_slot cl env ctx i = Some ctx1 \<Longrightarrow> only_slot i ctx ctx1"
  unfolding prep_slot_def
  by (auto split: coin_st_t.split_asm elim!: bindE
      dest!: prep_unk_only prep_conn_only prep_connd_only prep_auth_only prep_authd_only prep_join_only prep_joind_only
        prep_disc_only)
    (simp add: only_slot_def; rule exI [of _ "coins ctx ! i"]; simp)

lemma prepare_from_stays:
  "prepare_from cl env ctx j ns = Some ctx1 \<Longrightarrow> coins_ok k ctx \<Longrightarrow> i < length (coins ctx) \<Longrightarrow>
    COIN_ST_NODATA \<le> c_st (coins ctx ! i) \<Longrightarrow> COIN_ST_NODATA \<le> c_st (coins ctx1 ! i)"
proof (induction cl env ctx j ns rule: prepare_from.induct)
  case (1 cl env ctx j ns)
  from "1.prems"(1) [unfolded prepare_from.simps [of cl env ctx j ns]] obtain ctx2 where
      s: "prep_slot (cl j) (env j) ctx j = Some ctx2"
    and r: "(if j + 1 < ns then prepare_from cl env ctx2 (j + 1) ns else Some ctx2) = Some ctx1"
    by (rule bindE)
  have ok2: "coins_ok k ctx2" using "1.prems"(2) s by (rule prep_slot_ok)
  have len: "length (coins ctx2) = length (coins ctx)" using ok2 "1.prems"(2) by (simp add: coins_ok_def)
  have st2: "COIN_ST_NODATA \<le> c_st (coins ctx2 ! i)"
  proof (cases "j = i")
    case False
    with only_slot_nth [OF prep_slot_only [OF s]] "1.prems"(4) show ?thesis by simp
  next
    case True
    have "c_st (coins ctx ! i) = COIN_ST_FINI \<longrightarrow> c_ws (coins ctx ! i) = None \<and> c_cb (coins ctx ! i) = None"
      using "1.prems"(2,3) by (auto simp: coins_ok_def coin_ok_def)
    from prep_slot_leave [OF "1.prems"(3,4) this, of "cl j" "env j"] s "1.prems"(3) True show ?thesis
      by (auto simp: coin_st_order)
  qed
  show ?case
  proof (cases "j + 1 < ns")
    case True
    with "1.IH" [OF s True _ ok2 _ st2] r len "1.prems"(3) show ?thesis by simp
  next
    case False
    with r st2 show ?thesis by simp
  qed
qed

text \<open>
  C19. A slot that has lost its data, is interrupted or finished stays so in every step of the
  daemon, with one exception: when a REST connection breaks, its slot starts over.
\<close>

theorem snarf_no_reopen:
  assumes "snarf_step ctx ctx1" "coins_ok k ctx" "i < length (coins ctx)"
    and "COIN_ST_NODATA \<le> c_st (coins ctx ! i)"
  shows "COIN_ST_NODATA \<le> c_st (coins ctx1 ! i)
    \<or> c_cb (coins ctx ! i) = Some REST_CB \<and> c_st (coins ctx1 ! i) = COIN_ST_UNK \<and> c_ws (coins ctx1 ! i) = None"
proof -
  have other: "c_st (coins ctx1 ! i) = c_st (coins ctx ! i)" if "coins ctx1 = (coins ctx)[j := d]" "j \<noteq> i" for j d
    using that by simp
  have not_linked: "\<not> linked (c_st (coins ctx ! i))"
    using assms(4) by (cases "c_st (coins ctx ! i)") (simp_all add: coin_st_order)
  have ws_cb: "COIN_ST_NODATA \<le> c_st (coins ctx1 ! i)"
    if "at (coins ctx) j = Some c" "c_cb c = Some WS_CB \<or> c_cb c = Some SIO3_CB"
      "snarf_ws_cb sio3 cl renv ctx j = Some (Inr ctx1)" for sio3 cl renv j c
  proof -
    have ok: "coin_ok c" using assms(2) that(1) by (rule coins_ok_at)
    from that(2) obtain ws where ws: "c_ws c = Some ws" "ws_p ws \<noteq> WS_PROTO_REST"
      by (metis coin_ok_cb [OF ok] coin_cb.distinct)
    from snarf_ws_cb_link [OF that(3,1) ok ws] that(1) not_linked assms(3,4) show ?thesis
      by (cases "j = i") (auto simp: same_link_def at_Some_iff)
  qed
  from assms(1) show ?thesis
  proof (cases rule: snarf_step.cases)
    case (step_prepare cls env)
    then show ?thesis using prepare_from_stays assms(2-4) by (simp add: prepare_def)
  next
    case (step_rest j c cl renv)
    have ok: "coin_ok c" using assms(2) step_rest(1) by (rule coins_ok_at)
    from snarf_rest_cb_link [OF ok step_rest] step_rest(1,2) not_linked assms(3,4) show ?thesis
      by (cases "j = i") (auto simp: same_link_def at_Some_iff)
  next
    case (step_hbeat j c cl now)
    from step_hbeat(3) obtain c d where d: "at (coins ctx) j = Some c" "same_hooked c d"
        "coins ctx1 = (coins ctx)[j := d] \<or> coins ctx1 = (coins ctx)[j := d\<lparr>c_st := COIN_ST_NODATA\<rparr>]"
      by (rule hbeat_cb_hooked)
    with same_hooked_st [OF d(2)] assms(3,4) show ?thesis by (cases "j = i") (auto simp: at_Some_iff)
  next
    case (step_sigint now)
    with assms(3) show ?thesis by (auto simp: sigint_cb_def coin_st_order elim!: bindE)
  next
    case (step_rotate now lnz hnz)
    with assms(4) show ?thesis by (auto simp: rotate_outfile_def elim!: bind_elims)
  qed (use ws_cb in \<open>(unfold ws_cb_def sio3_cb_def)?, blast\<close>)+
qed

text \<open>A REST connection that breaks, in any state of its slot.\<close>

lemma rest_broken:
  assumes "at (coins ctx) i = Some c" "coin_ok c" "c_ws c = Some ws" "r_rcv env = []"
  shows "\<exists>ctx1. snarf_rest_cb cl env ctx i = Some ctx1 \<and> c_st (coins ctx1 ! i) = COIN_ST_UNK
    \<and> c_ws (coins ctx1 ! i) = None \<and> brk ctx1 = brk ctx"
proof -
  define buf where "buf = snarf_room (r_fill env) 4096 (c_n c) (c_buf c)"
  have "c_n c \<le> length buf" using snarf_room_length [of "c_buf c" "c_n c" 4096] assms(2)
    by (simp add: buf_def coin_ok_def)
  then have "rest_recv ws (drop (c_n c) buf) (r_rcv env) = Some (-1, ws, drop (c_n c) buf)"
    using assms(4) by (simp add: rest_recv_def buf_put_def)
  then have "snarf_rest_cb cl env ctx i = Some ((put_coin ctx i (c\<lparr>c_ws := None, c_buf := buf, c_cb := None,
      c_st := COIN_ST_UNK, c_n := INI_GBOF\<rparr>))\<lparr>wsg := ws_close (wsg ctx)\<rparr>)"
    using assms(1,3) \<open>c_n c \<le> length buf\<close> by (simp add: snarf_rest_cb_def Let_def buf_def)
  then show ?thesis
    using assms(1) by (simp add: put_coin_def at_Some_iff)
qed

theorem snarf_no_reopen_witness:
  "\<exists>ctx1. snarf_step (rest_joined\<lparr>coins := [(hd (coins rest_joined))\<lparr>c_st := COIN_ST_INTR\<rparr>]\<rparr>) ctx1
     \<and> c_st (coins ctx1 ! 0) = COIN_ST_UNK \<and> c_ws (coins ctx1 ! 0) = None"
proof -
  let ?c = "(hd (coins rest_joined))\<lparr>c_st := COIN_ST_INTR\<rparr>"
  let ?ctx = "rest_joined\<lparr>coins := [?c]\<rparr>"
  define renv where "renv = \<lparr>r_now = (7, 0), r_rcv = [], r_fill = 0, r_tinf = tinf_data0 [] 0, r_malloc = True\<rparr>"
  have ok: "coin_ok ?c"
    by (simp add: rest_joined_def coin_ok_def rest_ws_def ws_new_def proto_cb_def room_ok_def)
  have c: "at (coins ?ctx) 0 = Some ?c" "c_ws ?c = Some rest_ws" "c_cb ?c = Some REST_CB"
    by (simp_all add: rest_joined_def)
  from rest_broken [OF c(1) ok c(2), of renv weak_client] obtain ctx1 where
      cb: "snarf_rest_cb weak_client renv ?ctx 0 = Some ctx1" and st: "c_st (coins ctx1 ! 0) = COIN_ST_UNK"
    by (auto simp: renv_def)
  have step: "snarf_step ?ctx ctx1" using c(1,3) cb by (rule step_rest)
  from snarf_no_reopen [OF step, of 1 0] ok st step show ?thesis
    by (auto simp: coins_ok_def coin_st_order)
qed

section \<open>Joining and activity\<close>

text \<open>What sending a list of messages, each with an answer of \<open>malloc\<close>, does to the buffer of \<open>src/ws.c\<close>.\<close>

definition sends_of :: "(byte list \<times> bool) list \<Rightarrow> hook_call list" where
  "sends_of ms = map (\<lambda>(m, mok). WS_SEND m mok) ms"

definition sent_over :: "ws_globals \<Rightarrow> (byte list \<times> bool) list \<Rightarrow> ws_globals" where
  "sent_over = foldl (\<lambda>g (m, mok). fst (ws_send g mok m))"

lemma hook_runs_sends:
  "at (coins ctx) i = Some c \<Longrightarrow> c_ws c = Some ws \<Longrightarrow>
    hook_runs i (sends_of ms) ctx = Some (ctx\<lparr>wsg := sent_over (wsg ctx) ms\<rparr>)"
  by (induction ms arbitrary: ctx) (auto simp: sends_of_def sent_over_def split: prod.split)

lemma call_hook_sends:
  "at (coins ctx) i = Some c \<Longrightarrow> c_ws c = Some ws \<Longrightarrow>
    call_hook (sends_of ms, r) ctx i = Some (r, ctx\<lparr>wsg := sent_over (wsg ctx) ms\<rparr>)"
  by (simp add: call_hook_def hook_runs_sends)

text \<open>
  C21. When a connection can be made and the hooks agree, after sending whatever messages, one
  \<open>prepare\<close> takes a new slot all the way to joined: watched, with an empty buffer and marked
  active at the last time read. On a REST connection only the hook of connecting is called.
\<close>

theorem prep_slot_joins:
  assumes "at (coins ctx) i = Some c" "c_st c = COIN_ST_UNK"
    and "ws_open (wsg ctx) env (p_url (c_par c)) = Some (Some ws, g, sent)"
    and "conn_coin cl ws = (sends_of ms1, r1)" "auth_coin cl ws = (sends_of ms2, r2)" "join_coin cl ws = (sends_of ms3, r3)"
    and "0 < r1" "0 < r2" "0 < r3" "0 < p_max_inact (c_par c)"
  shows "prep_slot cl env ctx i = Some (ctx\<lparr>
    wsg := sent_over g (if ws_p ws = WS_PROTO_REST then ms1 else ms1 @ ms2 @ ms3),
    coins := (coins ctx)[i := c\<lparr>c_ws := Some ws, c_cb := Some (proto_cb (ws_p ws)), c_last := tsp_sec ctx,
      c_n := INI_GBOF, c_st := COIN_ST_JOIND\<rparr>]\<rparr>)"
  using assms
  by (simp add: prep_slot_def prep_unk_def open_coin_def prep_conn_def prep_connd_def prep_auth_def prep_authd_def
      prep_join_def prep_joind_def set_coin_def put_coin_def at_Some_iff proto_cb_def call_hook_sends sent_over_def)

theorem prep_slot_joins_witness:
  "\<exists>ctx ctx1. snarf_setup (7, 0) [rest_prm] = Some ctx \<and> prep_slot weak_client (open_env 0) ctx 0 = Some ctx1
     \<and> c_st (coins ctx1 ! 0) = COIN_ST_JOIND \<and> c_ws (coins ctx1 ! 0) = Some rest_ws"
proof -
  let ?c = "\<lparr>c_st = COIN_ST_UNK, c_ws = None, c_buf = [], c_n = 0, c_last = 0, c_par = rest_prm, c_cb = None, c_timer = False\<rparr>"
  let ?ctx = "make_wssnarf\<lparr>coins := [?c], tsp_sec := 7\<rparr>"
  have "at (coins ?ctx) 0 = Some ?c" by simp
  then have "\<exists>ctx1. prep_slot weak_client (open_env 0) ?ctx 0 = Some ctx1
     \<and> c_st (coins ctx1 ! 0) = COIN_ST_JOIND \<and> c_ws (coins ctx1 ! 0) = Some rest_ws"
    using prep_slot_joins [of ?ctx 0 ?c "open_env 0" rest_ws "\<lparr>gbuf = True, gbsz = 4096, gbrc = 1\<rparr>" "[]" weak_client
      "[]" 1 "[]" 1 "[]" 1]
    by (simp add: rest_prm_open make_wssnarf_def rest_prm_def weak_client_def sends_of_def)
  with rest_setup show ?thesis by blast
qed

end
