(* ===== verification/Wssnarf_Log.thy ===== *)
theory Wssnarf_Log
  imports Wssnarf_Props
begin

text \<open>
  The line log of \<open>src/wssnarf.c\<close>: what \<open>logwss\<close> writes from its buffer in place is what
  cutting the data into lines as a list gives, and what it leaves for the next read makes the
  log independent of how the data came in.
\<close>

section \<open>The log of a list\<close>

text \<open>
  What is logged of some data behind an incomplete line \<open>acc\<close>, and the incomplete line left.
\<close>

fun log_pure :: "(byte list \<Rightarrow> byte list) \<Rightarrow> byte list \<Rightarrow> byte list \<Rightarrow> byte list \<Rightarrow> byte list \<times> byte list" where
  "log_pure mas pre acc [] = ([], acc)"
| "log_pure mas pre acc (b # bs) =
     (if b = 0x0A then (let (out, rest) = log_pure mas pre [] bs in (pre @ mas (acc @ [0x0A]) @ out, rest))
      else log_pure mas pre (acc @ [b]) bs)"

lemma log_pure_append:
  "log_pure mas pre acc (xs @ ys) =
     (let (o1, r1) = log_pure mas pre acc xs; (o2, r2) = log_pure mas pre r1 ys in (o1 @ o2, r2))"
  by (induction mas pre acc xs rule: log_pure.induct) (auto simp: Let_def split: prod.split)

lemma log_pure_no_line: "0x0A \<notin> set xs \<Longrightarrow> log_pure mas pre acc xs = ([], acc @ xs)"
  by (induction xs arbitrary: acc) auto

lemma log_pure_line:
  "0x0A \<notin> set xs \<Longrightarrow> log_pure mas pre acc (xs @ 0x0A # ys) =
     (let (out, rest) = log_pure mas pre [] ys in (pre @ mas (acc @ xs @ [0x0A]) @ out, rest))"
  by (simp add: log_pure_append log_pure_no_line Let_def split: prod.split)

lemma log_pure_rest: "log_pure mas pre acc xs = (out, r) \<Longrightarrow> \<exists>ys. acc @ xs = ys @ r"
proof (induction mas pre acc xs arbitrary: out rule: log_pure.induct)
  case (2 mas pre acc b bs)
  show ?case
  proof (cases "b = 0x0A")
    case True
    with "2.prems" obtain o1 where o1: "log_pure mas pre [] bs = (o1, r)" by (auto split: prod.split_asm)
    from "2.IH"(1) [OF True this] obtain ys where "bs = ys @ r" by auto
    then show ?thesis by (intro exI [of _ "acc @ b # ys"]) simp
  next
    case False
    with "2.prems" "2.IH"(2) show ?thesis by auto
  qed
qed simp

section \<open>Buffers\<close>

lemma buf_put_take: "buf_put buf i xs = Some buf1 \<Longrightarrow> k \<le> i \<Longrightarrow> take k buf1 = take k buf"
  by (auto simp: buf_put_def split: if_split_asm)

lemma buf_put_drop: "buf_put buf i xs = Some buf1 \<Longrightarrow> i + length xs \<le> k \<Longrightarrow> drop k buf1 = drop k buf"
  by (auto simp: buf_put_def drop_put split: if_split_asm)

lemma buf_put_put: "buf_put buf i xs = Some buf1 \<Longrightarrow> take (length xs) (drop i buf1) = xs"
  by (auto simp: buf_put_def split: if_split_asm)

lemma buf_put_ok: "i + length xs \<le> length buf \<Longrightarrow> \<exists>buf1. buf_put buf i xs = Some buf1"
  by (simp add: buf_put_def)

text \<open>A slice of a buffer.\<close>

definition seg :: "'a list \<Rightarrow> nat \<Rightarrow> nat \<Rightarrow> 'a list" where
  "seg buf i j = take (j - i) (drop i buf)"

lemma length_seg [simp]: "j \<le> length buf \<Longrightarrow> length (seg buf i j) = j - i"
  by (simp add: seg_def)

lemma seg_Cons: "i < j \<Longrightarrow> j \<le> length buf \<Longrightarrow> seg buf i j = buf ! i # seg buf (i + 1) j"
  by (simp add: seg_def Cons_nth_drop_Suc [symmetric] take_Cons' Suc_diff_Suc)

lemma seg_split: "i \<le> k \<Longrightarrow> k \<le> j \<Longrightarrow> seg buf i j = seg buf i k @ seg buf k j"
  using take_add [of "k - i" "j - k" "drop i buf"] by (simp add: seg_def)

lemma seg_drop: "drop k buf1 = drop k buf \<Longrightarrow> k \<le> i \<Longrightarrow> seg buf1 i j = seg buf i j"
  unfolding seg_def by (metis drop_drop le_add_diff_inverse2)

lemma seg_drop_drop: "drop k buf1 = drop k buf \<Longrightarrow> k \<le> i \<Longrightarrow> drop i buf1 = drop i buf"
  by (metis drop_drop le_add_diff_inverse2)

lemma find_eol_spec:
  "ep \<le> length mem \<Longrightarrow> lp \<le> ep \<Longrightarrow>
    (find_eol mem lp ep = Some None \<and> 0x0A \<notin> set (seg mem lp ep)) \<or>
    (\<exists>e. find_eol mem lp ep = Some (Some e) \<and> lp \<le> e \<and> e < ep \<and> mem ! e = 0x0A \<and> 0x0A \<notin> set (seg mem lp e))"
proof (induction mem lp ep rule: find_eol.induct)
  case (1 mem lp ep)
  show ?case
  proof (cases "lp < ep \<and> mem ! lp \<noteq> 0x0A")
    case False
    with "1.prems" show ?thesis by (auto simp: find_eol.simps [of mem lp ep] seg_def)
  next
    case True
    with "1.prems" have eq: "find_eol mem lp ep = find_eol mem (lp + 1) ep"
      by (simp add: find_eol.simps [of mem lp ep])
    from "1.IH" True "1.prems" have
      "(find_eol mem (lp + 1) ep = Some None \<and> 0x0A \<notin> set (seg mem (lp + 1) ep)) \<or>
       (\<exists>e. find_eol mem (lp + 1) ep = Some (Some e) \<and> lp + 1 \<le> e \<and> e < ep \<and> mem ! e = 0x0A
          \<and> 0x0A \<notin> set (seg mem (lp + 1) e))"
      by simp
    with True "1.prems" show ?thesis by (auto simp: eq seg_Cons)
  qed
qed

section \<open>The loop of \<open>logwss\<close>\<close>

text \<open>What one line writes: the buffer up to and including the line as massaged.\<close>

lemma log_line_in_place:
  assumes "prfz \<le> lp" "lp \<le> e" "e < length mem" "mem ! e = 0x0A" "length (mas (seg mem lp e @ [0x0A])) \<le> e - lp + 1"
  shows "\<exists>mem1 mem2 mem3. buf_get mem lp (e - lp) = Some (seg mem lp e) \<and> buf_put mem prfz (seg mem lp e) = Some mem1
    \<and> buf_put mem1 (prfz + length (seg mem lp e)) [0x0A] = Some mem2
    \<and> buf_put mem2 prfz (mas (seg mem lp e @ [0x0A])) = Some mem3
    \<and> buf_get mem3 0 (prfz + length (mas (seg mem lp e @ [0x0A]))) = Some (take prfz mem @ mas (seg mem lp e @ [0x0A]))
    \<and> length mem3 = length mem \<and> take prfz mem3 = take prfz mem \<and> drop (e + 1) mem3 = drop (e + 1) mem"
proof -
  let ?l = "seg mem lp e" and ?m = "mas (seg mem lp e @ [0x0A])"
  have len: "length ?l = e - lp" using assms(3) by simp
  have "buf_get mem lp (e - lp) = Some ?l" using assms(2,3) by (simp add: buf_get_def seg_def)
  moreover have fit: "prfz + length ?l + 1 \<le> length mem" "prfz + length ?m \<le> length mem"
    using assms(1-3,5) len by linarith+
  then obtain mem1 where 1: "buf_put mem prfz ?l = Some mem1"
    using buf_put_ok [of prfz ?l mem] by auto
  moreover obtain mem2 where 2: "buf_put mem1 (prfz + length ?l) [0x0A] = Some mem2"
    using buf_put_ok [of "prfz + length ?l" "[0x0A]" mem1] fit(1) buf_put_length [OF 1] by auto
  moreover obtain mem3 where 3: "buf_put mem2 prfz ?m = Some mem3"
    using buf_put_ok [of prfz ?m mem2] fit(2) buf_put_length [OF 1] buf_put_length [OF 2] by auto
  moreover have l3: "length mem3 = length mem"
    using buf_put_length [OF 1] buf_put_length [OF 2] buf_put_length [OF 3] by simp
  moreover have t3: "take prfz mem3 = take prfz mem"
    using buf_put_take [OF 1] buf_put_take [OF 2] buf_put_take [OF 3] by simp
  moreover have "take (prfz + length ?m) mem3 = take prfz mem @ ?m"
    using buf_put_put [OF 3] t3 by (simp add: take_add)
  then have "buf_get mem3 0 (prfz + length ?m) = Some (take prfz mem @ ?m)"
    using assms(1-3,5) l3 by (simp add: buf_get_def)
  moreover have "drop (e + 1) mem3 = drop (e + 1) mem"
    using buf_put_drop [OF 1, of "e + 1"] buf_put_drop [OF 2, of "e + 1"] buf_put_drop [OF 3, of "e + 1"] assms(1,2,5) len
    by simp
  ultimately show ?thesis by blast
qed

definition no_longer :: "(byte list \<Rightarrow> byte list) \<Rightarrow> bool" where
  "no_longer mas \<longleftrightarrow> (\<forall>s. length (mas s) \<le> length s)"

lemma logwss_loop_spec:
  "no_longer mas \<Longrightarrow> prfz \<le> lp \<Longrightarrow> lp \<le> ep \<Longrightarrow> ep \<le> length mem \<Longrightarrow>
    \<exists>mem1 o1 r. log_pure mas (take prfz mem) [] (seg mem lp ep) = (o1, r) \<and> length r \<le> ep - lp
      \<and> logwss_loop mas prfz mem lp ep out = Some (mem1, out @ o1, ep - length r)
      \<and> length mem1 = length mem \<and> drop (ep - length r) mem1 = drop (ep - length r) mem
      \<and> seg mem1 (ep - length r) ep = r"
proof (induction mas prfz mem lp ep out rule: logwss_loop.induct)
  case (1 mas prfz mem lp ep out)
  note step = logwss_loop.simps [of mas prfz mem lp ep out]
  show ?case
  proof (cases "lp < ep")
    case False
    then have eq: "logwss_loop mas prfz mem lp ep out = Some (mem, out, lp)" by (simp add: step)
    from False "1.prems" have "lp = ep" by simp
    with eq show ?thesis by (simp add: seg_def)
  next
    case True
    from find_eol_spec [OF "1.prems"(4,3)] show ?thesis
    proof (elim disjE conjE exE)
      assume e: "find_eol mem lp ep = Some None" "0x0A \<notin> set (seg mem lp ep)"
      with True "1.prems" show ?thesis by (simp add: step log_pure_no_line)
    next
      fix e assume e: "find_eol mem lp ep = Some (Some e)" "lp \<le> e" "e < ep" "mem ! e = 0x0A"
        "0x0A \<notin> set (seg mem lp e)"
      let ?l = "seg mem lp e"
      have el: "e < length mem" using e(3) "1.prems"(4) by simp
      have "length (mas (?l @ [0x0A])) \<le> length (?l @ [0x0A])" using "1.prems"(1) by (simp only: no_longer_def)
      then have nl: "length (mas (?l @ [0x0A])) \<le> e - lp + 1" using el by simp
      from log_line_in_place [OF "1.prems"(2) e(2) el e(4), of mas, OF nl] obtain mem1 mem2 mem3 where
          l: "buf_get mem lp (e - lp) = Some ?l" "buf_put mem prfz ?l = Some mem1"
            "buf_put mem1 (prfz + length ?l) [0x0A] = Some mem2" "buf_put mem2 prfz (mas (?l @ [0x0A])) = Some mem3"
            "buf_get mem3 0 (prfz + length (mas (?l @ [0x0A]))) = Some (take prfz mem @ mas (?l @ [0x0A]))"
        and k: "length mem3 = length mem" "take prfz mem3 = take prfz mem" "drop (e + 1) mem3 = drop (e + 1) mem"
        by blast
      have "prfz \<le> e + 1" "e + 1 \<le> ep" "ep \<le> length mem3" using "1.prems" e k(1) by simp_all
      from "1.IH" [OF True e(1) refl l "1.prems"(1) this, unfolded k(1,2)] obtain mem4 o1 r where
          ih: "log_pure mas (take prfz mem) [] (seg mem3 (e + 1) ep) = (o1, r)" "length r \<le> ep - (e + 1)"
            "logwss_loop mas prfz mem3 (e + 1) ep (out @ take prfz mem @ mas (?l @ [0x0A]))
              = Some (mem4, (out @ take prfz mem @ mas (?l @ [0x0A])) @ o1, ep - length r)"
            "length mem4 = length mem" "drop (ep - length r) mem4 = drop (ep - length r) mem3"
            "seg mem4 (ep - length r) ep = r"
        by blast
      have sl: "seg mem3 (e + 1) ep = seg mem (e + 1) ep" using k(3) by (rule seg_drop) simp
      have rest: "drop (ep - length r) mem3 = drop (ep - length r) mem"
        using ih(2) e(3) by (intro seg_drop_drop [OF k(3)]) simp
      have all: "seg mem lp ep = ?l @ 0x0A # seg mem (e + 1) ep"
        using seg_split [of lp e ep mem] seg_Cons [of e ep mem] e "1.prems" by simp
      have "log_pure mas (take prfz mem) [] (seg mem lp ep) = (take prfz mem @ mas (?l @ [0x0A]) @ o1, r)"
        using ih(1) [unfolded sl] e(5) by (simp add: all log_pure_line)
      moreover have "logwss_loop mas prfz mem lp ep out
          = Some (mem4, out @ take prfz mem @ mas (?l @ [0x0A]) @ o1, ep - length r)"
        using True e(1) l ih(3) by (simp add: step)
      moreover have "length r \<le> ep - lp" using ih(2) e(2) by simp
      moreover have "drop (ep - length r) mem4 = drop (ep - length r) mem" using ih(5) rest by simp
      ultimately show ?thesis using ih(4,6) by blast
    qed
  qed
qed

section \<open>The prefix fits\<close>

text \<open>Seconds of up to ten digits: the clock until the year 2286.\<close>

definition clock_ok :: "clock \<Rightarrow> bool" where
  "clock_ok now \<longleftrightarrow> fst now < 10 ^ 10 \<and> snd now < 10 ^ 9"

lemma log_prefix_fits: "clock_ok now \<Longrightarrow> length (log_prefix now) \<le> INI_GBOF"
proof -
  assume "clock_ok now"
  then have "length (dec_string (fst now)) \<le> 10" "length (dec_string (snd now)) \<le> 9"
    using dec_string_length [of "fst now" 9] dec_string_length [of "snd now" 8] by (simp_all add: clock_ok_def)
  then show ?thesis by (simp add: log_prefix_def hrclock_print_def pad9_def INI_GBOF_def)
qed

lemma loghim_ok: "clock_ok now \<Longrightarrow> loghim now msg = Some (log_prefix now @ msg @ [0x0A])"
  by (simp add: loghim_def log_prefix_fits)

section \<open>What a read logs\<close>

lemma logwss_spec:
  assumes "no_longer mas" "clock_ok now" "INI_GBOF + len \<le> length mem"
    and "log_pure mas (log_prefix now) [] (seg mem INI_GBOF (INI_GBOF + len)) = (out, r)"
  shows "length r \<le> len \<and> (\<exists>mem1. logwss mas now mem len = Some (mem1, out, len - length r)
    \<and> length mem1 = length mem \<and> seg mem1 (INI_GBOF + (len - length r)) (INI_GBOF + len) = r)"
proof -
  let ?p = "log_prefix now"
  have fit: "length ?p \<le> INI_GBOF" using assms(2) by (rule log_prefix_fits)
  then obtain mem0 where 0: "buf_put mem 0 ?p = Some mem0" using buf_put_ok [of 0 ?p mem] assms(3) by auto
  have l0: "length mem0 = length mem" using buf_put_length [OF 0] by simp
  have p0: "take (length ?p) mem0 = ?p" using buf_put_put [OF 0] by simp
  have s0: "seg mem0 INI_GBOF (INI_GBOF + len) = seg mem INI_GBOF (INI_GBOF + len)"
    using buf_put_drop [OF 0] fit by (intro seg_drop [of "length ?p"]) simp_all
  have "INI_GBOF \<le> INI_GBOF + len" "INI_GBOF + len \<le> length mem0" using assms(3) l0 by simp_all
  from logwss_loop_spec [OF assms(1) fit this, of "[]", unfolded p0 s0 assms(4) append_Nil] obtain mem1 o1 r1 where
      e: "(out, r) = (o1, r1)"
      and r1: "length r1 \<le> INI_GBOF + len - INI_GBOF" and l1: "logwss_loop mas (length ?p) mem0 INI_GBOF (INI_GBOF + len) []
        = Some (mem1, o1, INI_GBOF + len - length r1)" "length mem1 = length mem0"
        "seg mem1 (INI_GBOF + len - length r1) (INI_GBOF + len) = r1"
    by (elim exE conjE) (rule that)
  from e have "o1 = out" "r1 = r" by simp_all
  note l = l1 [unfolded this] and r = r1 [unfolded this, simplified]
  from r have "INI_GBOF + len - length r = INI_GBOF + (len - length r)" by simp
  note l = l [unfolded this]
  from r 0 l l0 show ?thesis by (simp add: logwss_def)
qed

text \<open>The bytes of a slot that wait for the rest of their line.\<close>

definition pending :: "byte list \<Rightarrow> nat \<Rightarrow> byte list" where
  "pending buf n = seg buf INI_GBOF n"

lemma snarf_log_spec:
  assumes "no_longer (massage cl)" "clock_ok now" "INI_GBOF \<le> xn" "INI_GBOF + xn \<le> length mem"
    and "log_pure (massage cl) (log_prefix now) [] (pending mem xn) = (out, r)"
  shows "\<exists>mem1 n. snarf_log cl now mem xn = Some (mem1, out, n) \<and> length mem1 = length mem
    \<and> INI_GBOF \<le> n \<and> n \<le> xn \<and> pending mem1 n = r"
proof -
  let ?len = "xn - INI_GBOF"
  have xn: "INI_GBOF + ?len = xn" using assms(3) by simp
  from logwss_spec [OF assms(1,2), of ?len mem out r] assms(3-5) obtain mem1 where
      r: "length r \<le> ?len" and l: "logwss (massage cl) now mem ?len = Some (mem1, out, ?len - length r)"
        "length mem1 = length mem" "seg mem1 (INI_GBOF + (?len - length r)) xn = r"
    by (auto simp: xn pending_def)
  let ?npr = "?len - length r"
  obtain mv where mv: "buf_get mem1 (INI_GBOF + ?npr) (xn - ?npr) = Some mv"
    using assms(3,4) l(2) r by (simp add: buf_get_def)
  have n: "xn - ?npr = INI_GBOF + length r" using assms(3) r by simp
  have mvl: "length mv = INI_GBOF + length r" "take (length r) mv = r"
    using mv l(3) r assms(3) by (auto simp: buf_get_def seg_def n split: if_split_asm)
  have "INI_GBOF + length mv \<le> length mem1" using assms(3,4) l(2) r mvl(1) by linarith
  from buf_put_ok [OF this] obtain mem2 where m2: "buf_put mem1 INI_GBOF mv = Some mem2" by blast
  have "take (length r) (drop INI_GBOF mem2) = take (length r) (take (length mv) (drop INI_GBOF mem2))"
    using mvl(1) by simp
  also have "\<dots> = r" using buf_put_put [OF m2] mvl(2) by simp
  finally have "pending mem2 (xn - ?npr) = r"
    unfolding n by (simp add: pending_def seg_def)
  moreover have "snarf_log cl now mem xn = Some (mem2, out, xn - ?npr)"
    using assms(3) l(1) mv m2 by (simp add: snarf_log_def)
  moreover have "INI_GBOF \<le> xn - ?npr" "length mem2 = length mem" using r assms(3) buf_put_length [OF m2] l(2) by simp_all
  ultimately show ?thesis by auto
qed

section \<open>Reads one after another\<close>

text \<open>A read puts its bytes behind those that wait, and logs.\<close>

definition snarf_feed ::
  "client \<Rightarrow> clock \<Rightarrow> byte list \<Rightarrow> nat \<Rightarrow> byte list \<Rightarrow> (byte list \<times> byte list \<times> nat) option" where
  "snarf_feed cl now buf n xs = do { mem \<leftarrow> buf_put buf n xs; snarf_log cl now mem (n + length xs) }"

fun snarf_feeds ::
  "client \<Rightarrow> clock \<Rightarrow> byte list \<Rightarrow> nat \<Rightarrow> byte list list \<Rightarrow> (byte list \<times> byte list \<times> nat) option" where
  "snarf_feeds cl now buf n [] = Some (buf, [], n)"
| "snarf_feeds cl now buf n (xs # xss) = do {
     (buf1, o1, n1) \<leftarrow> snarf_feed cl now buf n xs;
     (buf2, o2, n2) \<leftarrow> snarf_feeds cl now buf1 n1 xss;
     Some (buf2, o1 @ o2, n2) }"

lemma log_pure_rest_open: "log_pure mas pre acc xs = (out, r) \<Longrightarrow> 0x0A \<notin> set acc \<Longrightarrow> 0x0A \<notin> set r"
  by (induction mas pre acc xs arbitrary: out rule: log_pure.induct) (auto split: if_split_asm prod.split_asm)

lemma snarf_feed_spec:
  assumes "no_longer (massage cl)" "clock_ok now" "INI_GBOF \<le> n" "INI_GBOF + (n + length xs) \<le> length buf"
    and "log_pure (massage cl) (log_prefix now) [] (pending buf n @ xs) = (out, r)"
  shows "\<exists>buf1 n1. snarf_feed cl now buf n xs = Some (buf1, out, n1) \<and> length buf1 = length buf
    \<and> INI_GBOF \<le> n1 \<and> n1 \<le> n + length xs \<and> pending buf1 n1 = r"
proof -
  have "n + length xs \<le> length buf" using assms(4) by simp
  from buf_put_ok [OF this] obtain mem where m: "buf_put buf n xs = Some mem" by blast
  have l: "length mem = length buf" using buf_put_length [OF m] by simp
  have "seg mem INI_GBOF n = seg buf INI_GBOF n"
    using buf_put_take [OF m order_refl] by (simp add: seg_def take_drop [symmetric])
      (metis drop_take)
  moreover have "seg mem n (n + length xs) = xs" using buf_put_put [OF m] by (simp add: seg_def)
  ultimately have "pending mem (n + length xs) = pending buf n @ xs"
    using seg_split [of INI_GBOF n "n + length xs" mem] assms(3) by (simp add: pending_def)
  with snarf_log_spec [OF assms(1,2), of "n + length xs" mem out r] assms(3-5) l m
  show ?thesis by (auto simp: snarf_feed_def)
qed

text \<open>
  C20. However the data of a connection is cut into reads, the log gets its lines in order,
  each once, behind the time and as \<open>massage\<close> leaves it, and the bytes behind the last newline
  wait in the buffer. All of it happens within the buffer when there are \<open>INI_GBOF\<close> bytes to
  spare and \<open>massage\<close> does not lengthen a line.
\<close>

theorem snarf_feeds_refine:
  assumes "no_longer (massage cl)" "clock_ok now" "INI_GBOF \<le> n" "INI_GBOF + n + length (concat xss) \<le> length buf"
    and "log_pure (massage cl) (log_prefix now) [] (pending buf n @ concat xss) = (out, r)" "0x0A \<notin> set (pending buf n)"
  shows "\<exists>buf1 n1. snarf_feeds cl now buf n xss = Some (buf1, out, n1) \<and> length buf1 = length buf \<and> pending buf1 n1 = r"
  using assms(3-6)
proof (induction xss arbitrary: buf n out)
  case Nil
  then show ?case by (simp add: log_pure_no_line)
next
  case (Cons xs xss)
  let ?log = "log_pure (massage cl) (log_prefix now)"
  obtain o1 r1 where 1: "?log [] (pending buf n @ xs) = (o1, r1)" by fastforce
  obtain o2 where 2: "?log r1 (concat xss) = (o2, r)" and out: "out = o1 @ o2"
    using Cons.prems(3) 1 log_pure_append [of "massage cl" "log_prefix now" "[]" "pending buf n @ xs" "concat xss"]
    by (auto simp: Let_def split: prod.split_asm)
  have r1: "0x0A \<notin> set r1" using log_pure_rest_open [OF 1] by simp
  have "?log [] (r1 @ concat xss) = (o2, r)" using 2 r1 by (simp add: log_pure_append log_pure_no_line)
  from snarf_feed_spec [OF assms(1,2) Cons.prems(1) _ 1] Cons.prems(2) obtain buf1 n1 where
      f: "snarf_feed cl now buf n xs = Some (buf1, o1, n1)" "length buf1 = length buf" "INI_GBOF \<le> n1"
        "n1 \<le> n + length xs" "pending buf1 n1 = r1"
    by auto
  from Cons.IH [OF f(3), of buf1 o2] f Cons.prems(2) r1 \<open>?log [] (r1 @ concat xss) = (o2, r)\<close> obtain buf2 n2 where
      "snarf_feeds cl now buf1 n1 xss = Some (buf2, o2, n2)" "length buf2 = length buf1" "pending buf2 n2 = r"
    by auto
  with f(1,2) out show ?case by simp
qed

theorem snarf_feeds_refine_witness:
  "\<exists>buf1 n1. snarf_feeds weak_client (1500000000, 5) (replicate 100 0) 21 [[0x61], [0x62, 0x0A, 0x63], [0x0A, 0x64]]
      = Some (buf1, log_prefix (1500000000, 5) @ [0x61, 0x62, 0x0A] @ log_prefix (1500000000, 5) @ [0x63, 0x0A], n1)
    \<and> length buf1 = 100 \<and> pending buf1 n1 = [0x64]"
proof -
  have "no_longer (massage weak_client)" by (simp add: no_longer_def weak_client_def)
  moreover have "clock_ok (1500000000, 5)" by (simp add: clock_ok_def)
  moreover have p: "pending (replicate 100 0) 21 = []" by (simp add: pending_def seg_def INI_GBOF_def)
  ultimately show ?thesis
    using snarf_feeds_refine [of weak_client "(1500000000, 5)" 21 "[[0x61], [0x62, 0x0A, 0x63], [0x0A, 0x64]]"
        "replicate 100 0" "log_prefix (1500000000, 5) @ [0x61, 0x62, 0x0A] @ log_prefix (1500000000, 5) @ [0x63, 0x0A]"
        "[0x64]"]
    by (simp add: INI_GBOF_def weak_client_def)
qed

text \<open>
  Moving the waiting bytes to the front, the code reads \<open>INI_GBOF\<close> bytes more than there
  are: a buffer with less than that to spare is read behind its end.
\<close>

theorem snarf_log_overread:
  assumes "INI_GBOF \<le> xn" "length mem < INI_GBOF + xn"
  shows "snarf_log cl now mem xn = None"
proof (rule ccontr)
  assume "snarf_log cl now mem xn \<noteq> None"
  then obtain mem1 out npr mv where l: "logwss (massage cl) now mem (xn - INI_GBOF) = Some (mem1, out, npr)"
      "buf_get mem1 (INI_GBOF + npr) (xn - npr) = Some mv"
    unfolding snarf_log_def by (auto elim!: bind_elims)
  from logwss_kept [OF l(1)] buf_get_length [OF l(2)] assms show False by simp
qed

theorem snarf_log_overread_witness: "snarf_log weak_client (1500000000, 5) (replicate 4096 0) 4090 = None"
  by (rule snarf_log_overread) (simp_all add: INI_GBOF_def)

section \<open>Activity\<close>

lemma hook_run_clock:
  "hook_run i k ctx = Some ctx1 \<Longrightarrow> (\<And>now msg. k = WSSNARF_LOG now msg \<Longrightarrow> t \<le> int (fst now)) \<Longrightarrow> t \<le> tsp_sec ctx \<Longrightarrow>
    t \<le> tsp_sec ctx1"
  by (cases k) (auto simp: wssnarf_log_def put_coin_def elim!: bind_elims)

lemma hook_runs_clock:
  "hook_runs i ks ctx = Some ctx1 \<Longrightarrow> (\<forall>now msg. WSSNARF_LOG now msg \<in> set ks \<longrightarrow> t \<le> int (fst now)) \<Longrightarrow> t \<le> tsp_sec ctx \<Longrightarrow>
    t \<le> tsp_sec ctx1"
proof (induction ks arbitrary: ctx)
  case Nil
  then show ?case by simp
next
  case (Cons k ks)
  from Cons.prems(1) obtain ctx2 where h: "hook_run i k ctx = Some ctx2" "hook_runs i ks ctx2 = Some ctx1"
    by (auto elim: bindE)
  have "t \<le> tsp_sec ctx2" using h(1) _ Cons.prems(3) by (rule hook_run_clock) (use Cons.prems(2) in auto)
  with Cons.prems(2) show ?case by (intro Cons.IH [OF h(2)]) auto
qed

text \<open>
  Data on a REST connection does not count as activity: a slot whose connection delivers
  is declared dead by its heartbeat once it is open for longer than \<open>max_inact\<close>, whatever the
  hook does, when the clock is not set back while it runs.
\<close>

theorem rest_data_no_activity:
  assumes "snarf_rest_cb cl env ctx i = Some ctx1" "i < length (coins ctx)" "hbeat_cb cl now ctx1 i = Some ctx2"
    and "p_max_inact (c_par (coins ctx ! i)) < int (fst now) - c_last (coins ctx ! i)"
    and "\<forall>w now1 msg. WSSNARF_LOG now1 msg \<in> set (fst (heartbeat cl w)) \<longrightarrow> fst now \<le> fst now1"
  shows "c_st (coins ctx2 ! i) = COIN_ST_NODATA"
proof -
  from assms(1,2) have "\<exists>d. coins ctx1 = (coins ctx)[i := d] \<and> c_last d = c_last (coins ctx ! i)
      \<and> c_par d = c_par (coins ctx ! i)"
    unfolding snarf_rest_cb_def Let_def
    by (auto split: if_split_asm elim!: bind_elims) fastforce+
  then obtain d where d: "coins ctx1 = (coins ctx)[i := d]" "c_last d = c_last (coins ctx ! i)"
      "c_par d = c_par (coins ctx ! i)" by blast
  from assms(3) obtain c ctx0 ctx3 r where c: "at (coins ctx1) i = Some c" and l: "wssnarf_log now ctx1 (bytes_of ''HEARTBEAT'') = Some ctx0"
    and h: "call_hook (heartbeat cl (c_ws c)) ctx0 i = Some (r, ctx3)"
    and e: "ctx2 = (if r < 0 then set_coin ctx3 i (c_st_update (\<lambda>_. COIN_ST_NODATA))
           else if tsp_sec ctx3 - c_last c > p_max_inact (c_par c) then set_coin ctx3 i (c_st_update (\<lambda>_. COIN_ST_NODATA))
           else ctx3)"
    unfolding hbeat_cb_def by (elim bind_pairE bindE) simp
  from h have "hook_runs i (fst (heartbeat cl (c_ws c))) ctx0 = Some ctx3" by (auto simp: call_hook_def elim: bindE)
  then have "int (fst now) \<le> tsp_sec ctx3"
    by (rule hook_runs_clock) (use assms(5) l in \<open>auto simp: wssnarf_log_def elim!: bindE\<close>)
  moreover have "c = d" using c d(1) assms(2) by (simp add: at_Some_iff)
  moreover have "length (coins ctx3) = length (coins ctx)"
    using call_hook_kept [OF h] wssnarf_log_coins [OF l] d(1) by (auto simp: hook_kept_def)
  ultimately show ?thesis using e d(2,3) assms(2,4) by auto
qed

theorem rest_data_no_activity_witness:
  "\<exists>ctx1 ctx2. snarf_rest_cb weak_client \<lparr>r_now = (1000, 0), r_rcv = [0x61], r_fill = 0, r_tinf = tinf_data0 [] 0, r_malloc = True\<rparr>
      rest_joined 0 = Some ctx1 \<and> hbeat_cb weak_client (1001, 0) ctx1 0 = Some ctx2
    \<and> c_st (coins ctx2 ! 0) = COIN_ST_NODATA"
proof -
  let ?env = "\<lparr>r_now = (1000, 0), r_rcv = [0x61], r_fill = 0, r_tinf = tinf_data0 [] 0, r_malloc = True\<rparr>"
  let ?mem = "replicate 21 0 @ 0x61 # replicate 4074 0 :: byte list"
  let ?c = "hd (coins rest_joined)"
  have c: "at (coins rest_joined) 0 = Some ?c" "c_ws ?c = Some rest_ws" "c_n ?c = 21" "c_buf ?c = []"
    by (simp_all add: rest_joined_def INI_GBOF_def)
  have short: "xmemmem [0x61 :: byte] clen1 = None" "xmemmem [0x61 :: byte] clen2 = None" "xmemmem [0x61 :: byte] CRLF2 = None"
    unfolding xmemmem_correct by (rule find_after_short, simp add: clen1_def clen2_def CRLF2_def)+
  have "rest_headers rest_ws (0x61 # replicate 4074 0) 1 = Some rest_ws"
    using short by (simp add: rest_ws_def ws_new_def rest_headers_def)
  then have "rest_recv rest_ws (replicate 4075 0) [0x61] = Some (0, rest_ws, 0x61 # replicate 4074 0)"
    using short by (simp add: rest_recv_def buf_put_def) (simp add: rest_ws_def ws_new_def)
  moreover obtain mem1 n where "snarf_log weak_client (1000, 0) ?mem 21 = Some (mem1, [], n)"
    using snarf_log_spec [of weak_client "(1000, 0)" 21 ?mem "[]" "[]"]
    by (auto simp: no_longer_def weak_client_def clock_ok_def INI_GBOF_def pending_def seg_def)
  ultimately have "\<exists>ctx1. snarf_rest_cb weak_client ?env rest_joined 0 = Some ctx1 \<and> length (coins ctx1) = 1"
    by (simp add: snarf_rest_cb_def c snarf_room_def Let_def) (simp add: rest_joined_def)
  then obtain ctx1 where cb: "snarf_rest_cb weak_client ?env rest_joined 0 = Some ctx1" "length (coins ctx1) = 1"
    by blast
  have "\<exists>ctx2. hbeat_cb weak_client (1001, 0) ctx1 0 = Some ctx2"
    using cb(2) by (simp add: hbeat_cb_def wssnarf_log_def loghim_ok clock_ok_def call_hook_def weak_client_def)
  then obtain ctx2 where h: "hbeat_cb weak_client (1001, 0) ctx1 0 = Some ctx2" by blast
  from rest_data_no_activity [OF cb(1) _ h] cb(1) h show ?thesis
    by (auto simp: rest_joined_def rest_prm_def weak_client_def)
qed

end
