(* ===== verification/Fix.thy ===== *)
theory Fix
  imports Text_Scan
begin

text \<open>
  FIX messages, \<open>src/fix.c\<close>: rendering a message with its header and checksum, and taking the
  header off a message in place. The statics of the file are the state; the time is the
  environment. A write or read outside a buffer is \<open>None\<close>.
\<close>

section \<open>The clock\<close>

text \<open>\<open>gmtime\<close> and the formats of \<open>strftime\<close> that are used.\<close>

definition leap_year :: "nat \<Rightarrow> bool" where
  "leap_year y \<longleftrightarrow> (4 dvd y \<and> \<not> 100 dvd y) \<or> 400 dvd y"

definition year_days :: "nat \<Rightarrow> nat" where
  "year_days y = (if leap_year y then 366 else 365)"

function year_of :: "nat \<Rightarrow> nat \<Rightarrow> nat \<times> nat" where
  "year_of y d = (if d < year_days y then (y, d) else year_of (y + 1) (d - year_days y))"
  by pat_completeness auto
termination by (relation "measure snd") (auto simp: year_days_def)

declare year_of.simps [simp del]

definition month_days :: "nat \<Rightarrow> nat list" where
  "month_days y = [31, if leap_year y then 29 else 28, 31, 30, 31, 30, 31, 31, 30, 31, 30, 31]"

fun month_of :: "nat list \<Rightarrow> nat \<Rightarrow> nat \<Rightarrow> nat \<times> nat" where
  "month_of [] m d = (m, d)"
| "month_of (k # ks) m d = (if d < k then (m, d) else month_of ks (m + 1) (d - k))"

text \<open>\<open>CLCK_FMT\<close> of a time in seconds since 1970.\<close>

definition fix_clock :: "nat \<Rightarrow> string" where
  "fix_clock now =
     (let (y, yd) = year_of 1970 (now div 86400); (m, md) = month_of (month_days y) 1 yd; s = now mod 86400 in
      dec_string y @ zero_pad 2 (dec_string m) @ zero_pad 2 (dec_string (md + 1)) @ ''-''
      @ zero_pad 2 (dec_string (s div 3600)) @ '':'' @ zero_pad 2 (dec_string (s div 60 mod 60)) @ '':''
      @ zero_pad 2 (dec_string (s mod 60)) @ ''.000'')"

section \<open>Rendering\<close>

record fix_state =
  fix_seq :: u32
  scomp_id :: string
  tcomp_id :: string
  clck :: string
  metr :: nat

record fix_msg_t =
  m_typ :: char
  m_msg :: string

definition fix_reset :: "fix_state \<Rightarrow> fix_state" where
  "fix_reset st = st\<lparr>fix_seq := 1\<rparr>"

definition fix_set_scomp_id :: "string \<Rightarrow> fix_state \<Rightarrow> fix_state" where
  "fix_set_scomp_id sc st = st\<lparr>scomp_id := sc\<rparr>"

definition fix_set_tcomp_id :: "string \<Rightarrow> fix_state \<Rightarrow> fix_state" where
  "fix_set_tcomp_id tc st = st\<lparr>tcomp_id := tc\<rparr>"

definition fix_chksum :: "string \<Rightarrow> nat" where
  "fix_chksum s = sum_list (map of_char s) mod 256"

text \<open>\<open>fix_render_tm\<close>: what is written, and the state; a clock too long for \<open>clck\<close> is not modelled.\<close>

definition fix_render_tm :: "nat \<Rightarrow> fix_state \<Rightarrow> (string \<times> fix_state) option" where
  "fix_render_tm now st =
     (let st1 = (if now > metr st then st\<lparr>clck := fix_clock now\<rparr> else st) in do {
        check (length (clck st1) = 21);
        Some (clck st1, st1) })"

text \<open>The digits of the sequence number, least significant first, and the loop that turns them.\<close>

fun seq_digits :: "nat \<Rightarrow> string" where
  "seq_digits s = (if s = 0 then [] else digit_char (s mod 10) # seq_digits (s div 10))"

declare seq_digits.simps [simp del]

function swap_loop :: "'a list \<Rightarrow> nat \<Rightarrow> 'a list" where
  "swap_loop ds i =
     (if i < length ds div 2
      then swap_loop (ds[i := ds ! (length ds - (i + 1)), length ds - (i + 1) := ds ! i]) (i + 1)
      else ds)"
  by pat_completeness auto
termination by (relation "measure (\<lambda>(ds, i). length ds - i)") auto

declare swap_loop.simps [simp del]

definition fhdr :: string where
  "fhdr = ''8=FIX.4.4'' @ [SOH] @ ''9=XXX'' @ [SOH]"

definition three_digits :: "nat \<Rightarrow> string" where
  "three_digits n = [digit_char (n div 100 mod 10), digit_char (n div 10 mod 10), digit_char (n mod 10)]"

text \<open>Header and body of a message, before length and checksum are filled in.\<close>

definition fix_body :: "fix_state \<Rightarrow> string \<Rightarrow> fix_msg_t \<Rightarrow> string" where
  "fix_body st tm m =
     ''35='' @ [m_typ m, SOH]
     @ ''34='' @ swap_loop (seq_digits (unat (fix_seq st))) 0 @ [SOH]
     @ (if scomp_id st \<noteq> [] then ''49='' @ scomp_id st @ [SOH] else [])
     @ ''52='' @ tm @ [SOH]
     @ ''56='' @ tcomp_id st @ [SOH]
     @ map (\<lambda>c. if c \<noteq> NUL then c else SOH) (m_msg m)"

text \<open>
  \<open>fix_render\<close> into a buffer of \<open>bsz\<close> bytes: the message rendered and the state. Two bytes more
  than the message are written; nothing compares the length with \<open>bsz\<close>.
\<close>

definition fix_render :: "nat \<Rightarrow> nat \<Rightarrow> fix_msg_t \<Rightarrow> fix_state \<Rightarrow> (string \<times> fix_state) option" where
  "fix_render now bsz m st = do {
     (tm, st1) \<leftarrow> fix_render_tm now st;
     (let body = fix_body st tm m;
          out = take (length fhdr - 4) fhdr @ three_digits (length body) @ [SOH] @ body;
          full = out @ ''10='' @ three_digits (fix_chksum out) @ [SOH] in do {
        check (length full + 2 \<le> bsz);
        Some (full, st1\<lparr>fix_seq := fix_seq st + 1\<rparr>) }) }"

section \<open>Parsing\<close>

definition fhdr_parse :: string where
  "fhdr_parse = ''8=FIX.4.4'' @ [SOH] @ ''9=''"

text \<open>The five comparisons with SOH: the position behind the first that finds one.\<close>

fun fix_find_soh :: "string \<Rightarrow> nat \<Rightarrow> nat \<Rightarrow> nat option option" where
  "fix_find_soh buf j 0 = Some None"
| "fix_find_soh buf j (Suc k) = do {
     c \<leftarrow> at buf j;
     if c = SOH then Some (Some (j + 1)) else fix_find_soh buf (j + 1) k }"

fun fix_expect :: "string \<Rightarrow> nat \<Rightarrow> string \<Rightarrow> bool option" where
  "fix_expect buf j [] = Some True"
| "fix_expect buf j (e # es) = do { c \<leftarrow> at buf j; if c \<noteq> e then Some False else fix_expect buf (j + 1) es }"

text \<open>
  \<open>fix_parse\<close>: \<open>None\<close> in the pair is the empty message returned when the header is wrong; else
  its type, where the rest starts and how long it is, and the buffer with NUL for SOH.
\<close>

definition fix_parse :: "string \<Rightarrow> nat \<Rightarrow> ((char \<times> nat \<times> nat) option \<times> string) option" where
  "fix_parse buf bsz = do {
     check (bsz \<le> length buf);
     if bsz < length fhdr_parse \<or> take (length fhdr_parse) buf \<noteq> fhdr_parse then Some (None, buf)
     else do {
       r \<leftarrow> fix_find_soh buf (length fhdr_parse + 1) 5;
       case r of
         None \<Rightarrow> Some (None, buf)
       | Some j \<Rightarrow> do {
           ok \<leftarrow> fix_expect buf j ''35='';
           if \<not> ok then Some (None, buf)
           else do {
             ty \<leftarrow> at buf (j + 3);
             c \<leftarrow> at buf (j + 4);
             (let k = j + 4 + (if c \<noteq> SOH then 1 else 0) in
              Some (Some (ty, k, nat ((int bsz - int k) mod 2 ^ 56)),
                map (\<lambda>c. if c \<noteq> SOH then c else NUL) (take bsz buf) @ drop bsz buf)) } } } }"

end
