(* ===== verification/Fix_Props.thy ===== *)
theory Fix_Props
  imports Fix
begin

text \<open>
  FIX messages: the sequence number is printed in decimal, a rendered message carries the
  length and the checksum the protocol asks for, and parsing takes off what rendering put on.
\<close>

section \<open>The sequence number\<close>

lemma swap_loop_length: "length (swap_loop ds i) = length ds"
  by (induction ds i rule: swap_loop.induct) (subst swap_loop.simps, simp)

lemma swap_loop_nth:
  "k < length ds \<Longrightarrow> swap_loop ds i ! k = (if i \<le> k \<and> k < length ds - i then ds ! (length ds - 1 - k) else ds ! k)"
proof (induction ds i rule: swap_loop.induct)
  case (1 ds i)
  show ?case
  proof (cases "i < length ds div 2")
    case False
    then have "\<not> (i \<le> k \<and> k < length ds - i) \<or> length ds - 1 - k = k" using "1.prems" by linarith
    with False show ?thesis by (auto simp: swap_loop.simps [of ds i])
  next
    case True
    let ?n = "length ds"
    define es where "es = ds[i := ds ! (?n - (i + 1)), ?n - (i + 1) := ds ! i]"
    have "swap_loop ds i = swap_loop es (i + 1)" using True by (simp add: swap_loop.simps [of ds i] es_def)
    with "1.IH" [OF True, folded es_def] "1.prems" have ih: "swap_loop ds i ! k
        = (if i + 1 \<le> k \<and> k < ?n - (i + 1) then es ! (?n - 1 - k) else es ! k)"
      by (simp add: es_def)
    have nth: "es ! j = (if j = ?n - (i + 1) then ds ! i else if j = i then ds ! (?n - (i + 1)) else ds ! j)"
      if "j < ?n" for j using that True by (simp add: es_def nth_list_update)
    consider "k = i" | "k = ?n - (i + 1)" | "i + 1 \<le> k" "k < ?n - (i + 1)" | "k < i" | "?n - (i + 1) < k"
      by linarith
    then show ?thesis
    proof cases
      case 3
      then have "?n - 1 - k < ?n" "?n - 1 - k \<noteq> i" "?n - 1 - k \<noteq> ?n - (i + 1)" "k < ?n - i" by linarith+
      with 3 show ?thesis by (simp add: ih nth)
    next
      case 1
      then have "\<not> i + 1 \<le> k" "k < ?n - i" "k \<noteq> ?n - (i + 1)" using True by linarith+
      with ih nth [OF "1.prems"] 1 show ?thesis by simp
    next
      case 2
      then have "\<not> k < ?n - (i + 1)" "k < ?n - i" "i \<le> k" "?n - 1 - k = i" using True "1.prems" by linarith+
      with ih nth [OF "1.prems"] 2 show ?thesis by simp
    next
      case 4
      then have "k \<noteq> ?n - (i + 1)" using True by linarith
      with ih nth [OF "1.prems"] 4 show ?thesis by simp
    next
      case 5
      then have "\<not> k < ?n - (i + 1)" "\<not> k < ?n - i" "k \<noteq> i" "k \<noteq> ?n - (i + 1)" using True by linarith+
      with ih nth [OF "1.prems"] show ?thesis by (simp only: if_False simp_thms)
    qed
  qed
qed

lemma swap_loop_rev: "swap_loop ds 0 = rev ds"
proof (rule nth_equalityI)
  show "length (swap_loop ds 0) = length (rev ds)" by (simp add: swap_loop_length)
  then show "swap_loop ds 0 ! k = rev ds ! k" if "k < length (swap_loop ds 0)" for k
    using that swap_loop_nth [of k ds 0] by (simp add: rev_nth)
qed

lemma rev_seq_digits: "0 < s \<Longrightarrow> rev (seq_digits s) = dec_string s"
proof (induction s rule: seq_digits.induct)
  case (1 s)
  show ?case
  proof (cases "s < 10")
    case True
    with "1.prems" show ?thesis
      by (simp add: seq_digits.simps [of s] seq_digits.simps [of 0] dec_string.simps [of s])
  next
    case False
    with "1.prems" "1.IH" show ?thesis
      by (simp add: seq_digits.simps [of s] dec_string.simps [of s])
  qed
qed

section \<open>What is rendered\<close>

lemma length_three_digits [simp]: "length (three_digits n) = 3"
  by (simp add: three_digits_def)

lemma three_digits_read:
  assumes "ends_number rest"
  shows "strtoul 10 (three_digits n @ rest) = (of_nat (n mod 1000), rest)"
proof -
  define ds where "ds = [n div 100 mod 10, n div 10 mod 10, n mod 10]"
  have "n mod 1000 = 10 * (10 * (n div 100 mod 10) + n div 10 mod 10) + n mod 10"
    using mod_mult2_eq [of n 10 100] mod_mult2_eq [of "n div 10" 10 10] by (simp add: div_mult2_eq [symmetric])
  then have v: "digits_value ds = n mod 1000" by (simp add: digits_value_def ds_def)
  have m: "three_digits n = map digit_char ds" by (simp add: three_digits_def ds_def)
  have "ds \<noteq> []" "\<forall>d \<in> set ds. d < 10" by (simp_all add: ds_def)
  moreover have "digits_value ds < 2 ^ 64" unfolding v by (rule less_trans [of _ 1000]) simp_all
  ultimately show ?thesis using strtoul_digits [OF _ _ _ assms] unfolding m v by (simp add: v)
qed

lemma SOH_ends: "ends_number (SOH # s)"
  by (simp add: ends_number_def starts_number_def digit_val_def)

text \<open>A message: the part that the checksum is over, and all of it.\<close>

definition fix_front :: "string \<Rightarrow> string" where
  "fix_front body = ''8=FIX.4.4'' @ [SOH] @ ''9='' @ three_digits (length body) @ [SOH] @ body"

lemma length_fix_front [simp]: "length (fix_front body) = 16 + length body"
  by (simp add: fix_front_def)

lemma fix_render_out:
  assumes "fix_render now bsz m st = Some (out, st1)"
  obtains tm st2 where "fix_render_tm now st = Some (tm, st2)"
    "out = fix_front (fix_body st tm m) @ ''10='' @ three_digits (fix_chksum (fix_front (fix_body st tm m))) @ [SOH]"
    "length out + 2 \<le> bsz" "st1 = st2\<lparr>fix_seq := fix_seq st + 1\<rparr>" "length tm = 21"
proof -
  have "take (length fhdr - 4) fhdr = ''8=FIX.4.4'' @ [SOH] @ ''9=''" by (simp add: fhdr_def)
  with assms that show thesis
    unfolding fix_render_def fix_render_tm_def Let_def fix_front_def by (elim bind_elims) auto
qed

text \<open>
  What a receiver checks: \<open>BodyLength\<close> counts the bytes from behind its own field up to the
  trailer, and the trailer gives the sum of all bytes before it.
\<close>

definition fix_wellformed :: "string \<Rightarrow> bool" where
  "fix_wellformed s \<longleftrightarrow>
     (let (n, r) = strtoul 10 (drop 12 s); body = take (unat n) (tl r); tr = drop (unat n) (tl r);
          (c, e) = strtoul 10 (drop 3 tr) in
      take 12 s = ''8=FIX.4.4'' @ [SOH] @ ''9='' \<and> r \<noteq> [] \<and> hd r = SOH \<and> length body = unat n
      \<and> take 3 tr = ''10='' \<and> e = [SOH]
      \<and> unat c = sum_list (map of_char (take (length s - length tr) s)) mod 256)"

lemma fix_front_read:
  "strtoul 10 (drop 12 (fix_front body @ tr)) = (of_nat (length body mod 1000), SOH # body @ tr)"
  using three_digits_read [OF SOH_ends, of "length body" "body @ tr"] by (simp add: fix_front_def)

text \<open>
  C22. A rendered message of less than 1000 bytes is well formed: its length field, its trailer
  and its checksum are what a receiver expects.
\<close>

theorem fix_render_wellformed:
  assumes "fix_render now bsz m st = Some (out, st1)" "length out < 1000"
  shows "fix_wellformed out"
proof -
  from fix_render_out [OF assms(1)] obtain body where
      out: "out = fix_front body @ ''10='' @ three_digits (fix_chksum (fix_front body)) @ [SOH]" by metis
  let ?tr = "''10='' @ three_digits (fix_chksum (fix_front body)) @ [SOH]"
  have len: "length body < 1000" using assms(2) by (simp add: out)
  then have n: "unat (of_nat (length body mod 1000) :: u64) = length body"
    by (simp add: unat_of_nat take_bit_nat_eq_self)
  have ck: "fix_chksum s < 1000" for s by (rule less_trans [of _ 256]) (simp_all add: fix_chksum_def)
  have c: "strtoul 10 (drop 3 ?tr) = (of_nat (fix_chksum (fix_front body)), [SOH])"
    using three_digits_read [OF SOH_ends, of "fix_chksum (fix_front body)" "[]"] ck by simp
  have cu: "unat (of_nat (fix_chksum s) :: u64) = fix_chksum s" for s
    using ck [of s] by (simp add: unat_of_nat take_bit_nat_eq_self)
  have "take 12 out = ''8=FIX.4.4'' @ [SOH] @ ''9=''" by (simp add: out fix_front_def)
  moreover have "strtoul 10 (drop 12 out) = (of_nat (length body mod 1000), SOH # body @ ?tr)"
    unfolding out by (rule fix_front_read)
  moreover have "take (length out - length ?tr) out = fix_front body" by (simp add: out)
  ultimately show ?thesis using c n
    by (simp add: fix_wellformed_def cu) (simp add: fix_chksum_def)
qed

text \<open>
  The length field has three digits: of a longer message it is the length modulo 1000.
\<close>

theorem fix_render_length_field:
  assumes "fix_render now bsz m st = Some (out, st1)"
  shows "unat (fst (strtoul 10 (drop 12 out))) = (length out - 23) mod 1000"
proof -
  from fix_render_out [OF assms] obtain body where
      out: "out = fix_front body @ ''10='' @ three_digits (fix_chksum (fix_front body)) @ [SOH]" by metis
  have "strtoul 10 (drop 12 out) = (of_nat (length body mod 1000),
      SOH # body @ ''10='' @ three_digits (fix_chksum (fix_front body)) @ [SOH])"
    unfolding out by (rule fix_front_read)
  moreover have "length out - 23 = length body" by (simp add: out)
  moreover have "length body mod 1000 < 2 ^ 64" by (rule less_trans [of _ 1000]) simp_all
  ultimately show ?thesis by (simp add: unat_of_nat take_bit_nat_eq_self)
qed

definition fix_st0 :: fix_state where
  "fix_st0 = \<lparr>fix_seq = 1, scomp_id = [], tcomp_id = ''BTCC'', clck = ''YYYYMMDD-HH:MM:SS.000'', metr = 0\<rparr>"

lemma fix_render0:
  assumes "m_msg m = replicate k CHR ''x''" "k < 2000"
  shows "\<exists>out st1. fix_render 0 4096 m fix_st0 = Some (out, st1) \<and> length out = 66 + k"
proof -
  have "length (fix_body fix_st0 (clck fix_st0) m) = 43 + k"
    using assms by (simp add: fix_st0_def fix_body_def swap_loop_length seq_digits.simps [of "Suc 0"] seq_digits.simps [of 0])
  moreover have "fix_render_tm 0 fix_st0 = Some (clck fix_st0, fix_st0)"
    by (simp add: fix_render_tm_def fix_st0_def)
  ultimately show ?thesis using assms(2) by (simp add: fix_render_def Let_def fhdr_def)
qed

theorem fix_render_wellformed_witness:
  "\<exists>out st1. fix_render 0 4096 \<lparr>m_typ = CHR ''A'', m_msg = ''xxx''\<rparr> fix_st0 = Some (out, st1) \<and> fix_wellformed out"
proof -
  have "''xxx'' = replicate 3 CHR ''x''" by (simp add: numeral_3_eq_3)
  with fix_render0 [of "\<lparr>m_typ = CHR ''A'', m_msg = ''xxx''\<rparr>" 3] obtain out st1 where
      o: "fix_render 0 4096 \<lparr>m_typ = CHR ''A'', m_msg = ''xxx''\<rparr> fix_st0 = Some (out, st1)" "length out = 69" by auto
  from fix_render_wellformed [OF o(1)] o show ?thesis by auto
qed

theorem fix_render_length_field_witness:
  "\<exists>out st1. fix_render 0 4096 \<lparr>m_typ = CHR ''V'', m_msg = replicate 1000 CHR ''x''\<rparr> fix_st0 = Some (out, st1)
     \<and> length out - 23 = 1043 \<and> unat (fst (strtoul 10 (drop 12 out))) = 43"
proof -
  from fix_render0 [of "\<lparr>m_typ = CHR ''V'', m_msg = replicate 1000 CHR ''x''\<rparr>" 1000] obtain out st1 where
      o: "fix_render 0 4096 \<lparr>m_typ = CHR ''V'', m_msg = replicate 1000 CHR ''x''\<rparr> fix_st0 = Some (out, st1)"
        "length out = 1066" by auto
  from fix_render_length_field [OF o(1)] o show ?thesis by auto
qed

section \<open>Parsing what was rendered\<close>

lemma digit_not_SOH [simp]: "d < 10 \<Longrightarrow> digit_char d \<noteq> SOH"
  by (rule digit_char_neq) simp_all

definition soh_to_nul :: "char \<Rightarrow> char" where
  "soh_to_nul c = (if c \<noteq> SOH then c else NUL)"

text \<open>
  C23. Parsing a rendered message of whatever length yields its type and, from behind the
  type on, its fields separated by NUL: header fields, the message as it was given and the
  checksum. What stands behind the message in the buffer stays as it was.
\<close>

theorem fix_parse_rendered:
  assumes "fix_render now bsz m st = Some (out, st1)" "length out < 2 ^ 56"
  shows "fix_parse (out @ junk) (length out) = Some (Some (m_typ m, 20, length out - 20), map soh_to_nul out @ junk)
    \<and> (\<exists>h t. map soh_to_nul out = h @ map soh_to_nul (m_msg m) @ t \<and> length t = 7)"
proof -
  from fix_render_out [OF assms(1)] obtain tm c where
      out: "out = fix_front (fix_body st tm m) @ ''10='' @ c @ [SOH]" and c: "length c = 3"
    by (metis length_three_digits)
  obtain h where h: "fix_body st tm m = ''35='' @ m_typ m # SOH # h @ map (\<lambda>c. if c \<noteq> NUL then c else SOH) (m_msg m)"
    by (simp add: fix_body_def)
  obtain x y z where xyz: "three_digits (length (fix_body st tm m)) = [x, y, z]" "y \<noteq> SOH" "z \<noteq> SOH"
    by (simp add: three_digits_def)
  obtain r where o: "out = ''8=FIX.4.4'' @ SOH # ''9='' @ [x, y, z] @ SOH # ''35='' @ m_typ m # SOH # r"
    unfolding out fix_front_def xyz(1) by (simp add: h)
  then have len: "length out = 21 + length r" by simp
  have "fix_find_soh (out @ junk) 13 5 = Some (Some 16)"
    using xyz(2,3) by (simp add: o numeral_eq_Suc)
  moreover have "fix_expect (out @ junk) 16 ''35='' = Some True" by (simp add: o)
  moreover have "at (out @ junk) 19 = Some (m_typ m)" "at (out @ junk) 20 = Some SOH" by (simp_all add: o)
  moreover have "take 12 (out @ junk) = fhdr_parse" "length fhdr_parse = 12" by (simp_all add: o fhdr_parse_def)
  ultimately have "fix_parse (out @ junk) (length out)
      = Some (Some (m_typ m, 20, nat ((int (length out) - 20) mod 2 ^ 56)), map soh_to_nul out @ junk)"
    using len by (simp add: fix_parse_def soh_to_nul_def)
  moreover have "nat ((int (length out) - 20) mod 2 ^ 56) = length out - 20" using len assms(2) by simp
  moreover have "soh_to_nul (if c \<noteq> NUL then c else SOH) = soh_to_nul c" for c by (simp add: soh_to_nul_def)
  then have "\<exists>h t. map soh_to_nul out = h @ map soh_to_nul (m_msg m) @ t \<and> length t = 7"
    using c unfolding out fix_front_def h by (intro exI [of _ "map soh_to_nul (''8=FIX.4.4'' @ [SOH] @ ''9=''
      @ three_digits (length (fix_body st tm m)) @ [SOH] @ ''35='' @ m_typ m # SOH # h)"]
        exI [of _ "map soh_to_nul (''10='' @ c @ [SOH])"]) (simp add: h)
  ultimately show ?thesis by simp
qed

theorem fix_parse_rendered_witness:
  "\<exists>out st1. fix_render 0 4096 \<lparr>m_typ = CHR ''A'', m_msg = replicate 5 CHR ''x''\<rparr> fix_st0 = Some (out, st1)
     \<and> fix_parse (out @ ''?'') (length out) = Some (Some (CHR ''A'', 20, 51), map soh_to_nul out @ ''?'')"
proof -
  from fix_render0 [of "\<lparr>m_typ = CHR ''A'', m_msg = replicate 5 CHR ''x''\<rparr>" 5] obtain out st1 where
      o: "fix_render 0 4096 \<lparr>m_typ = CHR ''A'', m_msg = replicate 5 CHR ''x''\<rparr> fix_st0 = Some (out, st1)"
        "length out = 71" by auto
  from fix_parse_rendered [OF o(1), of "''?''"] o show ?thesis by auto
qed

text \<open>
  C24. The digits that the rendering takes off the sequence number one by one and then swaps
  around in place are the number in decimal.
\<close>

theorem fix_seq_decimal:
  assumes "0 < s"
  shows "swap_loop (seq_digits s) 0 = dec_string s"
  using assms by (simp add: swap_loop_rev rev_seq_digits)

theorem fix_seq_decimal_witness: "swap_loop (seq_digits 1234) 0 = dec_string 1234"
  by (rule fix_seq_decimal) simp

end
