(* ===== verification/Convert.thy ===== *)
theory Convert
  imports Text_Scan XXHash Jsmn
begin

text \<open>
  What the converters \<open>src/*2b.c\<close> share: reading and printing times, the 256 byte buffer in which
  a line of output is put together, and access to the tokens of a line. A line is the string
  \<open>getline\<close> delivers; a pointer into it is what is left of it. Exceeding a buffer, or reading a
  token that \<open>jsmn_parse\<close> did not write, is \<open>None\<close>.
\<close>

section \<open>Times\<close>

type_synonym tv_t = u64

definition NSECS :: u64 where "NSECS = 1000000000"

definition MSECS :: u64 where "MSECS = 1000"

definition NOT_A_TIME :: tv_t where "NOT_A_TIME = -1"

text \<open>
  The time and where it ends; \<open>endptr\<close> is not written for a fraction of the wrong length. That
  \<open>on\<close> be \<open>NULL\<close> never happens: without digits the time is zero.
\<close>

definition strtotv :: "string \<Rightarrow> tv_t \<times> string option" where
  "strtotv ln =
     (case strtoul 10 ln of (s, on) \<Rightarrow>
        if deref on = CHR ''.''
        then (case strtoul 10 (tl on) of (x, moron) \<Rightarrow>
                let d = length (tl on) - length moron in
                if d > 9 then (NOT_A_TIME, None)
                else if d mod 3 \<noteq> 0 then (NOT_A_TIME, None)
                else (s * NSECS + (if d = 0 then x * MSECS * MSECS * MSECS
                                   else if d = 3 then x * MSECS * MSECS
                                   else if d = 6 then x * MSECS else x), Some moron))
        else (s * NSECS + 0, Some on))"

definition smstotv :: "string \<Rightarrow> tv_t" where
  "smstotv ln = fst (strtoul 10 ln) * MSECS * MSECS"

definition tvtostr :: "tv_t \<Rightarrow> string" where
  "tvtostr t = dec_string (unat (t div NSECS)) @ ''.'' @ zero_pad 9 (dec_string (unat (t mod NSECS)))"

section \<open>Lines of output\<close>

definition BUF_SIZE :: nat where "BUF_SIZE = 256"

definition put :: "string \<Rightarrow> string \<Rightarrow> string option" where
  "put buf s = (if length buf + length s \<le> BUF_SIZE then Some (buf @ s) else None)"

text \<open>Several pieces in a row.\<close>

fun puts :: "string \<Rightarrow> string list \<Rightarrow> string option" where
  "puts buf [] = Some buf"
| "puts buf (s # ss) = do { b \<leftarrow> put buf s; puts b ss }"

lemma puts_iff: "puts buf ss = (if length buf + length (concat ss) \<le> BUF_SIZE \<or> ss = [] then Some (buf @ concat ss) else None)"
  by (induction ss arbitrary: buf) (auto simp: put_def)

declare puts.simps(2) [simp del]

lemma puts_SomeD: "puts buf (s # ss) = Some b \<Longrightarrow> length b \<le> 256 \<and> b = buf @ concat (s # ss)"
  by (auto simp: puts_iff BUF_SIZE_def split: if_split_asm)

text \<open>What is written: a line of at most 256 characters.\<close>

definition out_line :: "string \<Rightarrow> bool" where
  "out_line b \<longleftrightarrow> length b \<le> 256 \<and> b \<noteq> [] \<and> last b = LF"

lemma out_line_puts:
  assumes "puts pre (s # ss) = Some l" "last (s # ss) = [LF]"
  shows "out_line l"
proof -
  have "concat (s # ss) = concat (butlast (s # ss)) @ [LF]"
    using assms(2) by (metis append_butlast_last_id concat_append concat.simps append_Nil2 list.distinct(1))
  with puts_SomeD [OF assms(1)] have "length l \<le> 256" "l = (pre @ concat (butlast (s # ss))) @ [LF]"
    unfolding append_assoc by metis+
  then show ?thesis unfolding out_line_def by (metis last_snoc snoc_eq_iff_butlast)
qed

text \<open>The part of a text between two pointers into it.\<close>

definition upto_ptr :: "string \<Rightarrow> string \<Rightarrow> string" where
  "upto_ptr s on = take (length s - length on) s"

lemma upto_ptr_append [simp]: "upto_ptr (xs @ ys) ys = xs"
  by (simp add: upto_ptr_def)

section \<open>Searching\<close>

text \<open>\<open>xmemmem\<close> on characters.\<close>

definition xmemmem_str :: "string \<Rightarrow> string \<Rightarrow> string option" where
  "xmemmem_str hay ndl = map_option (\<lambda>r. drop (length hay - length r) hay) (xmemmem (bytes_of hay) (bytes_of ndl))"

section \<open>Tokens\<close>

definition tok_text :: "string \<Rightarrow> jsmntok_t \<Rightarrow> string option" where
  "tok_text on t =
     (if 0 \<le> tok_start t \<and> tok_start t \<le> tok_end t \<and> tok_end t \<le> int (length on)
      then Some (take (nat (tok_end t - tok_start t)) (drop (nat (tok_start t)) on)) else None)"

text \<open>The text from a token on, and comparing it as \<open>memcmp\<close> does, which stops where they differ.\<close>

definition tok_ptr :: "string \<Rightarrow> jsmntok_t \<Rightarrow> string option" where
  "tok_ptr on t = (if 0 \<le> tok_start t \<and> tok_start t \<le> int (length on) then Some (drop (nat (tok_start t)) on) else None)"

definition memcmp_eq :: "string \<Rightarrow> string \<Rightarrow> bool" where
  "memcmp_eq p s \<longleftrightarrow> take (length s) p = s"

text \<open>The hash of \<open>n\<close> characters at a pointer; the terminating NUL may be among them.\<close>

definition hash_at :: "string \<Rightarrow> nat \<Rightarrow> u32 option" where
  "hash_at p n = (if n \<le> length p + 1 then Some (hash (take n (p @ [NUL]))) else None)"

definition hash_from :: "string \<Rightarrow> nat \<Rightarrow> nat \<Rightarrow> u32 option" where
  "hash_from p k n = (if k + n \<le> length p + 1 then Some (hash (take n (drop k (p @ [NUL])))) else None)"

definition hash_tok :: "string \<Rightarrow> jsmntok_t \<Rightarrow> u32 option" where
  "hash_tok on t = map_option hash (tok_text on t)"

text \<open>
  The tokens of a text parsed into an array of \<open>n\<close> cells: \<open>None\<close> in the option when it is not
  JSON. Only the cells written are kept, so what the array held before is never read.
\<close>

definition tok_raw :: jsmntok_t where
  "tok_raw = \<lparr>tok_type = JSMN_UNDEFINED, tok_start = 0, tok_end = 0, tok_size = 0, tok_parent = 0\<rparr>"

definition json_tokens :: "nat \<Rightarrow> string \<Rightarrow> jsmntok_t list option option" where
  "json_tokens n on = do {
     r \<leftarrow> jsmn_parse jsmn_init on (Some (replicate n tok_raw));
     case r of
       Inl e \<Rightarrow> Some None
     | Inr (k, toks) \<Rightarrow> Some (map_option (take k) toks) }"

text \<open>Reading the \<open>i\<close>-th token: its type, its text, and what its text starts with.\<close>

definition tok_is :: "jsmntok_t list \<Rightarrow> nat \<Rightarrow> jsmntype_t \<Rightarrow> bool option" where
  "tok_is toks i ty = do { t \<leftarrow> at toks i; Some (tok_type t = ty) }"

definition tok_str :: "string \<Rightarrow> jsmntok_t list \<Rightarrow> nat \<Rightarrow> string option" where
  "tok_str on toks i = do { t \<leftarrow> at toks i; tok_text on t }"

definition tok_on :: "string \<Rightarrow> jsmntok_t list \<Rightarrow> nat \<Rightarrow> string option" where
  "tok_on on toks i = do { t \<leftarrow> at toks i; tok_ptr on t }"

definition tok_starts :: "string \<Rightarrow> jsmntok_t list \<Rightarrow> nat \<Rightarrow> string \<Rightarrow> bool option" where
  "tok_starts on toks i s = do { p \<leftarrow> tok_on on toks i; Some (memcmp_eq p s) }"

text \<open>
  Positions are compared as \<open>size_t\<close>. The loops over the tokens of an array go on while a token
  starts in front of its end; some put a token behind the last one whose start is the largest
  \<open>size_t\<close>, for these loops to stop.
\<close>

definition usz :: "int \<Rightarrow> nat" where "usz k = nat (k mod 2 ^ 64)"

definition tok_before :: "jsmntok_t list \<Rightarrow> nat \<Rightarrow> nat \<Rightarrow> bool option" where
  "tok_before toks i n = do { t \<leftarrow> at toks i; Some (usz (tok_start t) < n) }"

definition tok_eot :: "jsmntok_t list \<Rightarrow> nat \<Rightarrow> nat option" where
  "tok_eot toks i = do { t \<leftarrow> at toks i; Some (usz (tok_end t)) }"

definition with_final :: "jsmntok_t list \<Rightarrow> jsmntok_t list" where
  "with_final toks = toks @ [tok_raw\<lparr>tok_start := -1\<rparr>]"

lemma tok_before_len: "tok_before toks i n = Some b \<Longrightarrow> i < length toks"
  by (auto simp: tok_before_def at_Some_iff elim!: bindE)

text \<open>The first token from \<open>i\<close> on that does not start in front of \<open>n\<close>.\<close>

function tok_skip :: "jsmntok_t list \<Rightarrow> nat \<Rightarrow> nat \<Rightarrow> nat option" where
  "tok_skip toks i n = do { b \<leftarrow> tok_before toks i n; if b then tok_skip toks (i + 1) n else Some i }"
  by pat_completeness auto
termination
  by (relation "measure (\<lambda>(toks, i, n). length toks - i)") (auto dest: tok_before_len)

declare tok_skip.simps [simp del]

lemma tok_skip_ge: "tok_skip toks i n = Some j \<Longrightarrow> i \<le> j \<and> j < length toks"
proof (induction toks i n rule: tok_skip.induct)
  case (1 toks i n)
  from "1.prems" obtain b where b: "tok_before toks i n = Some b" by (subst (asm) tok_skip.simps) (auto elim!: bindE)
  from "1.prems" "1.IH" [OF b] b tok_before_len [OF b] show ?case
    by (subst (asm) tok_skip.simps) (auto split: if_split_asm)
qed

text \<open>
  The loop over the pairs of an array, shared by two converters: each gives a line made of
  \<open>ini\<close>, a price and a quantity; what is not an array is passed over. \<open>ini2\<close> is the start of the
  lines from the second on.
\<close>

function print_pairs ::
  "string \<Rightarrow> jsmntok_t list \<Rightarrow> string \<Rightarrow> string \<Rightarrow> nat \<Rightarrow> nat \<Rightarrow> string list \<Rightarrow> string list option" where
  "print_pairs on toks ini ini2 i eo out = do {
     b \<leftarrow> tok_before (with_final toks) i eo;
     if \<not> b then Some out else do {
     arr \<leftarrow> tok_is toks i JSMN_ARRAY;
     if \<not> arr then print_pairs on toks ini ini2 (i + 1) eo out else do {
     p \<leftarrow> tok_str on toks (i + 1);
     q \<leftarrow> tok_str on toks (i + 2);
     l \<leftarrow> puts ini [p, [TAB], q, [LF]];
     print_pairs on toks ini2 ini2 (i + 3) eo (out @ [l]) }}}"
  by pat_completeness auto
termination
  by (relation "measure (\<lambda>(on, toks, ini, ini2, i, eo, out). length toks + 1 - i)")
    (auto simp: with_final_def dest!: tok_before_len)

declare print_pairs.simps [simp del]

text \<open>A part of a loop that does not go back: the token it stops at is not in front of \<open>i\<close>.\<close>

definition forward :: "nat \<Rightarrow> (nat \<times> 'a) option \<Rightarrow> bool" where
  "forward i m \<longleftrightarrow> (\<forall>j x. m = Some (j, x) \<longrightarrow> i \<le> j)"

lemma forward_intros:
  "i \<le> j \<Longrightarrow> forward i (Some (j, x))"
  "(\<And>y. f = Some y \<Longrightarrow> forward i (g y)) \<Longrightarrow> forward i (Option.bind f g)"
  "forward i a \<Longrightarrow> forward i b \<Longrightarrow> forward i (if c then a else b)"
  by (auto simp: forward_def Option.bind_eq_Some_conv)

lemma forwardD: "forward i m \<Longrightarrow> m = Some (j, x) \<Longrightarrow> i \<le> j"
  by (simp add: forward_def)

lemma forward_le: "forward k m \<Longrightarrow> i \<le> k \<Longrightarrow> forward i m"
  by (auto simp: forward_def)

text \<open>The start of a line: its time and the text behind the tab.\<close>

definition line_time :: "string \<Rightarrow> (tv_t \<times> string) option" where
  "line_time line =
     (case strtotv line of (t, on) \<Rightarrow>
        if t = NOT_A_TIME then None
        else (case on of None \<Rightarrow> None | Some p \<Rightarrow> if deref p \<noteq> TAB then None else Some (t, tl p)))"

section \<open>Printing and reading times\<close>

lemma NSECS_parts: "t div NSECS * NSECS + t mod NSECS = t"
  by (rule div_mult_mod_eq)

lemma unat_mod_NSECS: "unat (t mod NSECS) < 10 ^ 9"
proof -
  have "t mod NSECS < NSECS" by (rule word_mod_less_divisor) (simp add: NSECS_def)
  then have "unat (t mod NSECS) < unat NSECS" by (rule unat_mono)
  then show ?thesis by (simp add: NSECS_def)
qed

lemma unat_u64_less: "unat (w :: u64) < 2 ^ 64"
  using unsigned_less [of w, where 'a = nat] by simp

lemma strtotv_printed:
  assumes "ends_number rest"
  shows "strtotv (tvtostr t @ rest) = (t, Some rest)"
proof -
  let ?f = "unat (t mod NSECS)"
  let ?pad = "zero_pad 9 (dec_string ?f)"
  have "ends_number (''.'' @ ?pad @ rest)" by (simp add: ends_number_def starts_number_def digit_val_def)
  then have s: "strtoul 10 (tvtostr t @ rest) = (t div NSECS, ''.'' @ ?pad @ rest)"
    using strtoul_dec_string [of "unat (t div NSECS)" "''.'' @ ?pad @ rest"] unat_u64_less [of "t div NSECS"]
    by (simp add: tvtostr_def)
  have "length (dec_string ?f) \<le> 9" using dec_string_length [of ?f 8] unat_mod_NSECS [of t] by simp
  then have len: "length ?pad = 9" by (rule zero_pad_length)
  have "?f < 2 ^ 64" by (rule less_trans [OF unat_mod_NSECS]) simp
  then have "strtoul 10 (?pad @ rest) = (t mod NSECS, rest)"
    using strtoul_zero_pad [of ?f rest 9] assms by simp
  with s len show ?thesis by (simp add: strtotv_def NSECS_parts)
qed

lemma line_time_printed: "t \<noteq> NOT_A_TIME \<Longrightarrow> line_time (tvtostr t @ TAB # on) = Some (t, on)"
  by (subst line_time_def, subst strtotv_printed)
    (simp_all add: ends_number_def starts_number_def digit_val_def)

lemma tvtostr_length: "length (tvtostr t) \<le> 21"
proof -
  have "unat t < 2 ^ 64" by (rule unat_u64_less)
  then have "unat (t div NSECS) < 10 ^ Suc 10" by (simp add: NSECS_def unat_div)
  from dec_string_length [OF this] have "length (dec_string (unat (t div NSECS))) \<le> 11" by simp
  moreover have "length (zero_pad 9 (dec_string (unat (t mod NSECS)))) = 9"
    using dec_string_length [of "unat (t mod NSECS)" 8] unat_mod_NSECS by (intro zero_pad_length) simp
  ultimately show ?thesis by (simp add: tvtostr_def)
qed

end
