(* ===== verification/Bitfin2b.thy ===== *)
theory Bitfin2b
  imports Convert
begin

text \<open>
  \<open>src/bitfin2b.c\<close>: it remembers the subscriptions by their channel and turns the events of a
  channel into lines of books, tops and trades. A call yields the C result, the lines written
  and the state.
\<close>

section \<open>Data\<close>

datatype btf_side_t = BTF_SIDE_UNK | BTF_SIDE_BID | BTF_SIDE_ASK | BTF_SIDE_TRA

datatype btf_subt_t = SUBT_UNK | SUBT_BOK | SUBT_TOP | SUBT_TRA

type_synonym btf_chid_t = "8 word"

text \<open>
  The statics: for each channel the 16 bytes of the instrument, the last of them the number of
  bytes unused, and the kind of subscription; the time of the line.
\<close>

record btf_state =
  subins :: "btf_chid_t \<Rightarrow> string"
  subtys :: "btf_chid_t \<Rightarrow> btf_subt_t"
  metr :: tv_t

definition btf_init :: btf_state where
  "btf_init = \<lparr>subins = (\<lambda>_. replicate 16 NUL), subtys = (\<lambda>_. SUBT_UNK), metr = 0\<rparr>"

section \<open>Instruments\<close>

definition btf_instostr :: "btf_state \<Rightarrow> btf_chid_t \<Rightarrow> string option" where
  "btf_instostr st ci = do {
     c \<leftarrow> at (subins st ci) 15;
     check (of_char c \<le> (15 :: nat));
     Some (take (15 - of_char c) (subins st ci)) }"

definition btf_strtoins :: "string \<Rightarrow> btf_chid_t \<Rightarrow> btf_state \<Rightarrow> btf_state" where
  "btf_strtoins ins ci st =
     (let z = (if length ins < 16 then length ins else 15) in
      st\<lparr>subins := (subins st)(ci := (take z ins @ drop z (subins st ci))[15 := char_of (15 - z)])\<rparr>)"

section \<open>Subscriptions\<close>

definition btf_sbok :: string where
  "btf_sbok = ''\"event\":\"subscribed\",\"channel\":\"book\",\"chanId\":''"

definition btf_stop :: string where
  "btf_stop = ''\"event\":\"subscribed\",\"channel\":\"ticker\",\"chanId\":''"

definition btf_stra :: string where
  "btf_stra = ''\"event\":\"subscribed\",\"channel\":\"trades\",\"chanId\":''"

definition btf_subscr :: "string \<Rightarrow> btf_state \<Rightarrow> int \<times> btf_state" where
  "btf_subscr line st =
     (case (if length line \<le> length btf_stra then None
            else if memcmp_eq line btf_sbok then Some (SUBT_BOK, drop (length btf_sbok) line)
            else if memcmp_eq line btf_stop then Some (SUBT_TOP, drop (length btf_stop) line)
            else if memcmp_eq line btf_stra then Some (SUBT_TRA, drop (length btf_stra) line)
            else None) of
        None \<Rightarrow> (-1, st)
      | Some (ty, sel) \<Rightarrow>
          (let ci = ucast (fst (strtoul 10 sel)) in
           case xmemmem_str sel ''\"pair\":'' of
             None \<Rightarrow> (-1, st)
           | Some p \<Rightarrow>
               if deref p \<noteq> DQUOTE then (-1, st)
               else (case memchr DQUOTE (tl p) of
                 None \<Rightarrow> (-1, st)
               | Some eop \<Rightarrow>
                   (0, (btf_strtoins (upto_ptr (tl p) eop) ci st)\<lparr>subtys := (subtys st)(ci := ty)\<rparr>))))"

section \<open>Events\<close>

text \<open>What every line of output starts with.\<close>

definition btf_prefix :: "btf_state \<Rightarrow> btf_chid_t \<Rightarrow> string option" where
  "btf_prefix st ci = do {
     ins \<leftarrow> btf_instostr st ci;
     puts [] [tvtostr (metr st), [TAB], ins, [TAB]] }"

text \<open>
  One level of a book: whether it is an ask, its price, its quantity, which is the one last seen,
  \<open>q\<close>, if the count is zero, and where it ends; no level is \<open>None\<close>.
\<close>

definition btf_level :: "string \<Rightarrow> string \<Rightarrow> (bool \<times> string \<times> string \<times> string) option" where
  "btf_level on q =
     (case memchr (CHR '','') on of
        None \<Rightarrow> None
      | Some on1 \<Rightarrow>
          (case strtoul 10 (tl on1) of (cnt, on2) \<Rightarrow>
             if deref on2 \<noteq> CHR '','' then None
             else
               (let ask = (deref (tl on2) = CHR ''-'');
                    on4 = (if ask then tl (tl on2) else tl on2) in
                if cnt > 0
                then (case memchr (CHR '']'') on4 of
                        None \<Rightarrow> None
                      | Some on5 \<Rightarrow> Some (ask, upto_ptr on on1, upto_ptr on4 on5, tl on5))
                else Some (ask, upto_ptr on on1, q, on4))))"

lemma upto_ptr_length: "length on \<le> length s \<Longrightarrow> length (upto_ptr s on) + length on = length s"
  by (simp add: upto_ptr_def)

lemma deref_nonempty: "deref s = c \<Longrightarrow> c \<noteq> NUL \<Longrightarrow> s \<noteq> []"
  by auto

lemma btf_level_length:
  assumes "btf_level on q = Some (ask, p, q1, on6)"
  shows "length on6 < length on" "length p + length q1 + length on6 < length on + length q"
proof -
  from assms obtain on1 cnt on2 where *: "memchr (CHR '','') on = Some on1" "strtoul 10 (tl on1) = (cnt, on2)"
      "p = upto_ptr on on1"
    by (auto simp: btf_level_def Let_def split: option.splits prod.splits if_split_asm)
  have 1: "length on1 \<le> length on" "length on1 > 0" "length on2 \<le> length (tl on1)"
    using memchr_length [OF *(1)] memchr_SomeD [OF *(1)] strtoul_rest_le [OF *(2)] by auto
  have 2: "length p + length on1 = length on" using upto_ptr_length [OF 1(1)] *(3) by simp
  have 3: "length on6 \<le> length on2 \<and> length q1 + length on6 \<le> length on2 + length q"
    using assms * by (auto simp: btf_level_def Let_def upto_ptr_def split: option.splits if_split_asm
        dest!: memchr_length)
  have "length (tl on1) < length on1" using 1(2) by simp
  with 1 2 3 show "length on6 < length on" "length p + length q1 + length on6 < length on + length q"
    by linarith+
qed

text \<open>
  \<open>evtbok\<close> from \<open>again:\<close> on. \<open>ini\<close> is the start of the lines once there is one.
\<close>

function btf_evtbok_loop ::
  "btf_state \<Rightarrow> btf_chid_t \<Rightarrow> string \<Rightarrow> string \<Rightarrow> string option \<Rightarrow> string list \<Rightarrow> (int \<times> string list) option" where
  "btf_evtbok_loop st ci on q ini out =
     (case btf_level on q of
        None \<Rightarrow> Some (-1, out)
      | Some (ask, p, q1, on6) \<Rightarrow> do {
          pre \<leftarrow> (case ini of Some b \<Rightarrow> Some b | None \<Rightarrow> btf_prefix st ci);
          b \<leftarrow> puts pre [(if ask then ''A2'' else ''B2''), [TAB], p, [TAB], q1, [LF]];
          if deref on6 = CHR '','' \<and> deref (tl on6) = CHR ''[''
          then btf_evtbok_loop st ci (tl (tl on6)) q1 (Some pre) (out @ [b])
          else Some (0, out @ [b]) })"
  by pat_completeness auto
termination
  by (relation "measure (\<lambda>(st, ci, on, q, ini, out). length on)") (auto dest!: btf_level_length(1))

declare btf_evtbok_loop.simps [simp del]

text \<open>\<open>q\<close> starts out as the text 0.\<close>

definition btf_evtbok :: "btf_state \<Rightarrow> btf_chid_t \<Rightarrow> string \<Rightarrow> (int \<times> string list) option" where
  "btf_evtbok st ci line = btf_evtbok_loop st ci line ''0'' None []"

definition btf_evttop :: "btf_state \<Rightarrow> btf_chid_t \<Rightarrow> string \<Rightarrow> (int \<times> string list) option" where
  "btf_evttop st ci line =
     (case memchr (CHR '','') line of
        None \<Rightarrow> Some (-1, [])
      | Some c1 \<Rightarrow> (case memchr (CHR '','') (tl c1) of
        None \<Rightarrow> Some (-1, [])
      | Some c2 \<Rightarrow> (case memchr (CHR '','') (tl c2) of
        None \<Rightarrow> Some (-1, [])
      | Some c3 \<Rightarrow> (case memchr (CHR '','') (tl c3) of
        None \<Rightarrow> Some (-1, [])
      | Some c4 \<Rightarrow> do {
          pre \<leftarrow> btf_prefix st ci;
          b1 \<leftarrow> puts pre [''B1'', [TAB], upto_ptr line c1, [TAB], upto_ptr (tl c1) c2, [LF]];
          b2 \<leftarrow> puts pre [''A1'', [TAB], upto_ptr (tl c2) c3, [TAB], upto_ptr (tl c3) c4, [LF]];
          Some (0, [b1, b2]) }))))"

text \<open>The loop to the last comma: where the field before it starts, if there is one, and what follows.\<close>

function btf_last_comma :: "string option \<Rightarrow> string \<Rightarrow> string option \<times> string" where
  "btf_last_comma pr on =
     (case memchr (CHR '','') on of None \<Rightarrow> (pr, on) | Some x \<Rightarrow> btf_last_comma (Some on) (tl x))"
  by pat_completeness auto
termination
proof (relation "measure (\<lambda>(pr, on). length on)", goal_cases)
  case (2 pr on x)
  then show ?case using memchr_length [of "CHR '',''" on x] memchr_SomeD [of "CHR '',''" on x]
    by (cases x) auto
qed simp

declare btf_last_comma.simps [simp del]

definition btf_evttra :: "btf_state \<Rightarrow> btf_chid_t \<Rightarrow> string \<Rightarrow> (int \<times> string list) option" where
  "btf_evttra st ci line =
     (if \<not> memcmp_eq line ''\"te\"'' then Some (-1, [])
      else (case btf_last_comma None line of (pr, on) \<Rightarrow>
        (case memchr (CHR '']'') on of
           None \<Rightarrow> Some (-1, [])
         | Some eol \<Rightarrow> do {
             pre \<leftarrow> btf_prefix st ci;
             p \<leftarrow> pr;
             (let sell = (deref on = CHR ''-''); on1 = (if sell then tl on else on) in do {
                b \<leftarrow> puts pre [(if sell then ''S0'' else ''T0''), [TAB], take (length p - length on - 1) p, [TAB],
                  upto_ptr on1 eol, [LF]];
                Some (0, [b]) }) })))"

definition btf_events :: "btf_state \<Rightarrow> string \<Rightarrow> (int \<times> string list) option" where
  "btf_events st line =
     (case strtoul 10 line of (x, on) \<Rightarrow>
        if deref on \<noteq> CHR '','' then Some (-1, [])
        else
          (let ci = ucast x; on1 = tl on in
           case subtys st ci of
             SUBT_BOK \<Rightarrow>
               btf_evtbok st ci
                 (if deref on1 = CHR ''['' then (if deref (tl on1) = CHR ''['' then tl (tl on1) else tl on1) else on1)
           | SUBT_TOP \<Rightarrow> btf_evttop st ci on1
           | SUBT_TRA \<Rightarrow> btf_evttra st ci on1
           | SUBT_UNK \<Rightarrow> Some (-1, [])))"

definition btf_procln :: "btf_state \<Rightarrow> string \<Rightarrow> (int \<times> string list \<times> btf_state) option" where
  "btf_procln st line =
     (case strtotv line of (t, p) \<Rightarrow>
        let st1 = st\<lparr>metr := t\<rparr> in
        case line_time line of
          None \<Rightarrow> Some (-1, [], st1)
        | Some (_, on) \<Rightarrow>
            if deref on = CHR ''{'' then (case btf_subscr (tl on) st1 of (rc, st2) \<Rightarrow> Some (rc, [], st2))
            else if deref on = CHR ''['' then do { (rc, out) \<leftarrow> btf_events st1 (tl on); Some (rc, out, st1) }
            else Some (-1, [], st1))"

text \<open>The loop of \<open>main\<close> over the lines.\<close>

fun btf_run :: "btf_state \<Rightarrow> string list \<Rightarrow> (string list \<times> btf_state) option" where
  "btf_run st [] = Some ([], st)"
| "btf_run st (line # ls) = do {
     (rc, out, st1) \<leftarrow> btf_procln st line;
     (out2, st2) \<leftarrow> btf_run st1 ls;
     Some (out @ out2, st2) }"

end
