(* ===== verification/Bitfin2b_Props.thy ===== *)
theory Bitfin2b_Props
  imports Bitfin2b
begin

text \<open>
  Properties of \<open>src/bitfin2b.c\<close>: times and instruments read back as they were written, the table
  of subscriptions keeps its shape and changes by subscriptions only, a snapshot of a book gives
  a line for each level, and what makes a line of input go wrong.
\<close>

section \<open>Times\<close>

text \<open>C25. A time in nanoseconds that \<open>tvtostr\<close> printed is read back by \<open>strtotv\<close>, for all 64-bit
  values, with the pointer right behind it, whatever follows unless that goes on with a digit.\<close>

theorem strtotv_tvtostr:
  assumes "ends_number rest"
  shows "strtotv (tvtostr t @ rest) = (t, Some rest)"
  using assms by (rule strtotv_printed)

theorem strtotv_tvtostr_witness:
  "strtotv (tvtostr 1500000000012345678 @ TAB # ''[1'') = (1500000000012345678, Some (TAB # ''[1''))"
  by (rule strtotv_tvtostr) code_simp

section \<open>Instruments\<close>

definition btf_ok :: "btf_state \<Rightarrow> bool" where
  "btf_ok st \<longleftrightarrow> (\<forall>ci. length (subins st ci) = 16 \<and> of_char (subins st ci ! 15) \<le> (15 :: nat))"

lemma btf_ok_init: "btf_ok btf_init"
  by (simp add: btf_ok_def btf_init_def)

lemma btf_ok_metr [simp]: "btf_ok (st\<lparr>metr := t\<rparr>) = btf_ok st"
  by (simp add: btf_ok_def)

lemma btf_ok_subtys [simp]: "btf_ok (st\<lparr>subtys := f\<rparr>) = btf_ok st"
  by (simp add: btf_ok_def)

lemma of_char_small: "n < 256 \<Longrightarrow> (of_char (char_of n) :: nat) = n"
  by simp

lemma btf_instostr_ok:
  assumes "btf_ok st"
  shows "\<exists>k \<le> 15. btf_instostr st ci = Some (take k (subins st ci))"
  using assms by (intro exI [of _ "15 - of_char (subins st ci ! 15)"]) (simp add: btf_ok_def btf_instostr_def)

lemma btf_ok_strtoins: "btf_ok st \<Longrightarrow> btf_ok (btf_strtoins ins ci st)"
  by (auto simp: btf_ok_def btf_strtoins_def Let_def)

text \<open>C26. An instrument that \<open>strtoins\<close> stored is what \<open>instostr\<close> gives, cut to 15 characters; other
  channels keep theirs.\<close>

theorem btf_instostr_strtoins:
  assumes "btf_ok st"
  shows "btf_instostr (btf_strtoins ins ci st) cj = (if cj = ci then Some (take 15 ins) else btf_instostr st cj)"
proof (cases "length ins < 16")
  case True
  then have "take 15 ins = ins" by simp
  with True assms show ?thesis
    by (auto simp: btf_ok_def btf_strtoins_def btf_instostr_def Let_def)
next
  case False
  with assms show ?thesis
    by (auto simp: btf_ok_def btf_strtoins_def btf_instostr_def Let_def)
qed

theorem btf_instostr_strtoins_witness:
  "btf_instostr (btf_strtoins ''tBTCUSD'' 7 btf_init) 7 = Some ''tBTCUSD''"
  using btf_instostr_strtoins [OF btf_ok_init, of "''tBTCUSD''" 7 7] by simp

section \<open>The table of subscriptions\<close>

lemma btf_evtbok_lines:
  "btf_evtbok_loop st ci on q ini out = Some (rc, ls) \<Longrightarrow> \<forall>b \<in> set out. out_line b \<Longrightarrow> \<forall>b \<in> set ls. out_line b"
proof (induction st ci on q ini out rule: btf_evtbok_loop.induct)
  case (1 st ci on q ini out)
  show ?case
  proof (cases "btf_level on q")
    case None
    then show ?thesis using "1.prems" by (simp add: btf_evtbok_loop.simps [of st ci on])
  next
    case (Some l)
    obtain ask p q1 on6 where l: "l = (ask, p, q1, on6)" by (metis prod.exhaust)
    from "1.prems"(1) Some l obtain pre b where *: "(case ini of Some b \<Rightarrow> Some b | None \<Rightarrow> btf_prefix st ci) = Some pre"
        "puts pre [(if ask then ''A2'' else ''B2''), [TAB], p, [TAB], q1, [LF]] = Some b"
      by (subst (asm) btf_evtbok_loop.simps) (auto elim!: bindE split del: if_split)
    have b: "out_line b" by (rule out_line_puts [OF *(2)]) simp
    note IH = "1.IH" [OF Some l [symmetric] refl refl *(1) *(2)]
    have "btf_evtbok_loop st ci on q ini out =
        (if deref on6 = CHR '','' \<and> deref (tl on6) = CHR ''['' then btf_evtbok_loop st ci (tl (tl on6)) q1 (Some pre) (out @ [b])
         else Some (0, out @ [b]))"
      using Some l * by (simp add: btf_evtbok_loop.simps [of st ci on])
    with "1.prems" IH b show ?thesis by (auto split: if_split_asm)
  qed
qed

lemma btf_evttop_lines: "btf_evttop st ci line = Some (rc, ls) \<Longrightarrow> \<forall>b \<in> set ls. out_line b"
  by (auto simp: btf_evttop_def dest!: out_line_puts elim!: bind_elims split: option.splits)

lemma btf_evttra_lines: "btf_evttra st ci line = Some (rc, ls) \<Longrightarrow> \<forall>b \<in> set ls. out_line b"
  by (auto simp: btf_evttra_def Let_def dest!: out_line_puts elim!: bind_elims
      split: option.splits prod.splits if_split_asm)

lemma btf_events_lines: "btf_events st line = Some (rc, ls) \<Longrightarrow> \<forall>b \<in> set ls. out_line b"
  by (auto simp: btf_events_def btf_evtbok_def Let_def split: prod.splits if_split_asm btf_subt_t.splits
      dest!: btf_evtbok_lines btf_evttop_lines btf_evttra_lines)

lemma btf_subscr_ok: "btf_subscr line st = (rc, st') \<Longrightarrow> btf_ok st \<Longrightarrow> btf_ok st'"
  by (auto simp: btf_subscr_def Let_def btf_ok_strtoins split: option.splits prod.splits if_split_asm)

lemma btf_procln_ok:
  "btf_procln st line = Some (rc, ls, st') \<Longrightarrow> btf_ok st \<Longrightarrow> btf_ok st' \<and> (\<forall>b \<in> set ls. out_line b)"
  by (auto simp: btf_procln_def Let_def split: prod.splits option.splits if_split_asm elim!: bind_elims
      dest!: btf_subscr_ok btf_events_lines)

text \<open>C28. A line that \<open>procln\<close> refuses, and every line that is not a subscription, leaves all
  subscriptions as they were; a subscription changes those of its own channel only.\<close>

theorem btf_procln_subscriptions:
  assumes "btf_procln st line = Some (rc, out, st')"
  shows "(rc = -1 \<or> out \<noteq> [] \<longrightarrow> subins st' = subins st \<and> subtys st' = subtys st) \<and>
    (\<exists>ci. \<forall>cj. cj \<noteq> ci \<longrightarrow> subins st' cj = subins st cj \<and> subtys st' cj = subtys st cj)"
proof -
  have sub: "(rc = -1 \<longrightarrow> s2 = s1) \<and> (\<exists>ci. \<forall>cj. cj \<noteq> ci \<longrightarrow> subins s2 cj = subins s1 cj \<and> subtys s2 cj = subtys s1 cj)"
    if "btf_subscr on s1 = (rc, s2)" for on s1 s2 rc
    using that by (auto simp: btf_subscr_def btf_strtoins_def Let_def split: option.splits prod.splits if_split_asm)
  have all: "\<exists>ci. \<forall>cj. cj \<noteq> ci \<longrightarrow> subins s cj = subins s cj \<and> subtys s cj = subtys s cj" for s :: btf_state
    by blast
  show ?thesis
    using assms all
    by (auto simp: btf_procln_def Let_def split: prod.splits option.splits if_split_asm elim!: bind_elims dest!: sub)
      blast+
qed

theorem btf_procln_subscriptions_witness:
  "(\<exists>out st'. btf_procln btf_init (tvtostr 1 @ TAB # ''x'') = Some (-1, out, st') \<and> subtys st' = subtys btf_init)"
proof -
  have "case btf_procln btf_init (tvtostr 1 @ TAB # ''x'') of Some (rc, _, _) \<Rightarrow> rc = -1 | None \<Rightarrow> False"
    using line_time_printed [of 1 "''x''"] strtotv_printed [of "TAB # ''x''" 1]
    by (simp add: btf_procln_def NOT_A_TIME_def ends_number_def starts_number_def digit_val_def)
  then obtain out st' where *: "btf_procln btf_init (tvtostr 1 @ TAB # ''x'') = Some (-1, out, st')"
    by (auto split: option.splits)
  from btf_procln_subscriptions [OF *] * show ?thesis by blast
qed

section \<open>Books\<close>

text \<open>A level as the exchange sends it: price, count, whether it is an ask, amount.\<close>

type_synonym btf_lvl = "string \<times> nat \<times> bool \<times> string"

definition btf_lvl_ok :: "btf_lvl \<Rightarrow> bool" where
  "btf_lvl_ok l = (case l of (p, cnt, ask, q) \<Rightarrow>
     CHR '','' \<notin> set p \<and> 0 < cnt \<and> cnt < 2 ^ 64 \<and> CHR '']'' \<notin> set q \<and> \<not> prefix ''-'' q)"

definition btf_lvl_text :: "btf_lvl \<Rightarrow> string" where
  "btf_lvl_text l = (case l of (p, cnt, ask, q) \<Rightarrow>
     p @ '','' @ dec_string cnt @ '','' @ (if ask then ''-'' else []) @ q @ '']'')"

fun btf_book_text :: "btf_lvl list \<Rightarrow> string" where
  "btf_book_text [] = []"
| "btf_book_text [l] = btf_lvl_text l"
| "btf_book_text (l # ls) = btf_lvl_text l @ '',['' @ btf_book_text ls"

definition btf_lvl_line :: "string \<Rightarrow> btf_lvl \<Rightarrow> string" where
  "btf_lvl_line pre l = (case l of (p, cnt, ask, q) \<Rightarrow>
     pre @ (if ask then ''A2'' else ''B2'') @ [TAB] @ p @ [TAB] @ q @ [LF])"

lemma of_nat_u64_pos: "0 < n \<Longrightarrow> n < 2 ^ 64 \<Longrightarrow> 0 < (of_nat n :: u64)"
  by (simp add: word_less_nat_alt unsigned_of_nat take_bit_eq_mod)

lemma btf_level_text:
  assumes "btf_lvl_ok (p, cnt, ask, q)"
  shows "btf_level (btf_lvl_text (p, cnt, ask, q) @ rest) q0 = Some (ask, p, q, rest)"
proof -
  from assms have ok: "CHR '','' \<notin> set p" "0 < cnt" "cnt < 2 ^ 64" "CHR '']'' \<notin> set q" "\<not> prefix ''-'' q"
    by (auto simp: btf_lvl_ok_def)
  define r where "r = q @ CHR '']'' # rest"
  define s where "s = (if ask then CHR ''-'' # r else r)"
  define u where "u = dec_string cnt @ CHR '','' # s"
  have lt: "btf_lvl_text (p, cnt, ask, q) @ rest = p @ CHR '','' # u"
    by (simp add: btf_lvl_text_def u_def s_def r_def)
  have 1: "memchr (CHR '','') (p @ CHR '','' # u) = Some (CHR '','' # u)" using ok(1) by simp
  have "ends_number (CHR '','' # s)" by (simp add: ends_number_def starts_number_def digit_val_def)
  then have 2: "strtoul 10 u = (of_nat cnt, CHR '','' # s)" using ok(3) strtoul_dec_string by (simp add: u_def)
  have 3: "0 < (of_nat cnt :: u64)" using ok(2,3) by (rule of_nat_u64_pos)
  have 4: "memchr (CHR '']'') r = Some (CHR '']'' # rest)" using ok(4) by (simp add: r_def)
  have 5: "deref s = CHR ''-'' \<longleftrightarrow> ask" using ok(5) by (cases q) (auto simp: s_def r_def)
  have 6: "ask \<Longrightarrow> tl s = r" "\<not> ask \<Longrightarrow> s = r" by (simp_all add: s_def)
  have up: "upto_ptr (p @ CHR '','' # u) (CHR '','' # u) = p" "upto_ptr r (CHR '']'' # rest) = q"
    unfolding r_def by (rule upto_ptr_append)+
  show ?thesis
    unfolding lt btf_level_def 1 using 6 up 5 by (cases ask) (simp_all add: 2 3 4 Let_def)
qed

lemma puts_out: "length buf + length (concat ss) \<le> 256 \<Longrightarrow> puts buf ss = Some (buf @ concat ss)"
  by (simp add: puts_iff BUF_SIZE_def)

lemma btf_evtbok_book:
  assumes "ls \<noteq> []" "\<forall>l \<in> set ls. btf_lvl_ok l \<and> length (btf_lvl_line pre l) \<le> 256"
    and "\<not> prefix '',['' rest" "case ini of Some b \<Rightarrow> b = pre | None \<Rightarrow> btf_prefix st ci = Some pre"
  shows "btf_evtbok_loop st ci (btf_book_text ls @ rest) q ini out = Some (0, out @ map (btf_lvl_line pre) ls)"
  using assms
proof (induction ls arbitrary: q ini out rule: btf_book_text.induct)
  case (2 l)
  obtain p cnt ask q1 where l: "l = (p, cnt, ask, q1)" by (metis prod.exhaust)
  have "puts pre [(if ask then ''A2'' else ''B2''), [TAB], p, [TAB], q1, [LF]] = Some (btf_lvl_line pre l)"
    using 2 by (subst puts_out) (auto simp: l btf_lvl_line_def)
  moreover have "\<not> (deref rest = CHR '','' \<and> deref (tl rest) = CHR ''['')"
    using 2(3) by (cases rest rule: deref.cases; cases "tl rest" rule: deref.cases) auto
  ultimately show ?case
    using 2 btf_level_text [of p cnt ask q1 rest q]
    by (subst btf_evtbok_loop.simps) (auto simp: l split: option.splits)
next
  case (3 l l2 ls)
  obtain p cnt ask q1 where l: "l = (p, cnt, ask, q1)" by (metis prod.exhaust)
  have "puts pre [(if ask then ''A2'' else ''B2''), [TAB], p, [TAB], q1, [LF]] = Some (btf_lvl_line pre l)"
    using "3.prems"(2) by (subst puts_out) (auto simp: l btf_lvl_line_def)
  then show ?case
    using "3.prems" btf_level_text [of p cnt ask q1 "'',['' @ btf_book_text (l2 # ls) @ rest" q]
      "3.IH" [of "Some pre" q1 "out @ [btf_lvl_line pre l]"]
    by (subst btf_evtbok_loop.simps) (auto simp: l split: option.splits)
qed simp

text \<open>C29. A message with the levels of a book, each with a positive count, gives for each of them, in
  order, one line with the time, the instrument, the side, the price and the amount without its
  sign.\<close>

theorem btf_book_snapshot:
  assumes "subtys st ci = SUBT_BOK" "btf_instostr st ci = Some ins" "ls \<noteq> []"
    and "\<forall>l \<in> set ls. btf_lvl_ok l \<and> length (btf_lvl_line (tvtostr t @ [TAB] @ ins @ [TAB]) l) \<le> 256"
    and "t \<noteq> NOT_A_TIME"
  shows "btf_procln st (tvtostr t @ [TAB] @ ''['' @ dec_string (unat ci) @ '',[['' @ btf_book_text ls @ '']]'' @ [LF]) =
    Some (0, map (btf_lvl_line (tvtostr t @ [TAB] @ ins @ [TAB])) ls, st\<lparr>metr := t\<rparr>)"
proof -
  define st1 where "st1 = st\<lparr>metr := t\<rparr>"
  define pre where "pre = tvtostr t @ [TAB] @ ins @ [TAB]"
  define r where "r = btf_book_text ls @ '']]'' @ [LF]"
  obtain l where l: "l \<in> set ls" using assms(3) by (cases ls) auto
  have "length (btf_lvl_line pre l) \<le> 256" using assms(4) l by (auto simp: pre_def)
  then have "length pre \<le> 256" by (auto simp: btf_lvl_line_def split: prod.splits)
  moreover have "btf_instostr st1 ci = Some ins" using assms(2) by (simp add: st1_def btf_instostr_def)
  ultimately have pre: "btf_prefix st1 ci = Some pre"
    unfolding btf_prefix_def by (simp add: puts_out pre_def st1_def)
  have bok: "btf_evtbok st1 ci r = Some (0, map (btf_lvl_line pre) ls)"
    unfolding btf_evtbok_def r_def
    using btf_evtbok_book [where ls = ls and pre = pre and rest = "'']]'' @ [LF]" and ini = None and out = "[]"] assms(3,4) pre
    by (simp add: pre_def)
  have "ends_number ('',[['' @ r)" by (simp add: ends_number_def starts_number_def digit_val_def)
  moreover have "unat ci < 2 ^ 64" using unsigned_less [of ci, where 'a = nat] by simp
  ultimately have num: "strtoul 10 (dec_string (unat ci) @ '',[['' @ r) = (of_nat (unat ci), '',[['' @ r)"
    by (intro strtoul_dec_string)
  have ci: "ucast (of_nat (unat ci) :: u64) = ci" by (simp, intro bit_word_eqI) (simp add: bit_simps)
  have ev: "btf_events st1 (dec_string (unat ci) @ '',[['' @ r) = Some (0, map (btf_lvl_line pre) ls)"
    unfolding btf_events_def num using assms(1) bok ci by (simp add: st1_def Let_def)
  have "line_time (tvtostr t @ TAB # CHR ''['' # dec_string (unat ci) @ '',[['' @ r) =
      Some (t, CHR ''['' # dec_string (unat ci) @ '',[['' @ r)"
    using assms(5) by (rule line_time_printed)
  moreover have "strtotv (tvtostr t @ TAB # CHR ''['' # dec_string (unat ci) @ '',[['' @ r) =
      (t, Some (TAB # CHR ''['' # dec_string (unat ci) @ '',[['' @ r))"
    by (rule strtotv_printed) (simp add: ends_number_def starts_number_def digit_val_def)
  ultimately show ?thesis
    using ev by (simp add: btf_procln_def Let_def st1_def [symmetric] r_def pre_def)
qed

theorem btf_book_snapshot_witness:
  "\<exists>st. btf_procln st (tvtostr 1 @ [TAB] @ ''['' @ dec_string (unat (7 :: btf_chid_t)) @ '',[['' @
      btf_book_text [(''4.2'', 1, False, ''3''), (''4.3'', 2, True, ''5'')] @ '']]'' @ [LF]) =
    Some (0, [tvtostr 1 @ TAB # ''BTCUSD'' @ TAB # ''B2'' @ TAB # ''4.2'' @ TAB # ''3'' @ [LF],
              tvtostr 1 @ TAB # ''BTCUSD'' @ TAB # ''A2'' @ TAB # ''4.3'' @ TAB # ''5'' @ [LF]], st\<lparr>metr := 1\<rparr>)"
proof -
  define st where "st = (btf_strtoins ''BTCUSD'' 7 btf_init)\<lparr>subtys := (\<lambda>_. SUBT_BOK)\<rparr>"
  have "btf_instostr (btf_strtoins ''BTCUSD'' 7 btf_init) 7 = Some ''BTCUSD''"
    by (simp add: btf_instostr_def btf_strtoins_def btf_init_def Let_def)
  then have i: "btf_instostr st 7 = Some ''BTCUSD''" by (simp add: st_def btf_instostr_def)
  show ?thesis
    using btf_book_snapshot [of st 7, OF _ i, of "[(''4.2'', 1, False, ''3''), (''4.3'', 2, True, ''5'')]" 1]
      tvtostr_length [of 1]
    by (intro exI [of _ st]) (simp add: st_def btf_lvl_ok_def btf_lvl_line_def NOT_A_TIME_def)
qed

section \<open>What goes wrong\<close>

lemma btf_prefix_ok: "btf_ok st \<Longrightarrow> \<exists>pre. btf_prefix st ci = Some pre \<and> length pre \<le> 38"
proof -
  assume "btf_ok st"
  then obtain k where k: "k \<le> 15" "btf_instostr st ci = Some (take k (subins st ci))" using btf_instostr_ok by blast
  with tvtostr_length [of "metr st"] show ?thesis
    by (auto simp: btf_prefix_def puts_iff BUF_SIZE_def)
qed

lemma btf_evtbok_loop_returns:
  assumes "btf_ok st"
  shows "length on + length q \<le> 213 \<Longrightarrow> (case ini of Some b \<Rightarrow> length b \<le> 38 | None \<Rightarrow> True) \<Longrightarrow>
    btf_evtbok_loop st ci on q ini out \<noteq> None"
proof (induction "length on" arbitrary: on q ini out rule: less_induct)
  case less
  show ?case
  proof (cases "btf_level on q")
    case None
    then show ?thesis by (simp add: btf_evtbok_loop.simps [of st ci on])
  next
    case (Some l)
    obtain ask p q1 on6 where l: "l = (ask, p, q1, on6)" by (metis prod.exhaust)
    note len = btf_level_length [OF Some [unfolded l]]
    obtain pre where pre: "(case ini of Some b \<Rightarrow> Some b | None \<Rightarrow> btf_prefix st ci) = Some pre" "length pre \<le> 38"
      using less.prems(2) btf_prefix_ok [OF assms, of ci] by (cases ini) auto
    have "\<exists>b. puts pre [(if ask then ''A2'' else ''B2''), [TAB], p, [TAB], q1, [LF]] = Some b"
      using pre(2) len less.prems(1) by (auto simp: puts_iff BUF_SIZE_def)
    then show ?thesis
      using Some l pre len less.prems(1) less.hyps [of "tl (tl on6)" q1 "Some pre"]
      by (subst btf_evtbok_loop.simps) auto
  qed
qed

lemma btf_evtbok_returns: "btf_ok st \<Longrightarrow> length line \<le> 212 \<Longrightarrow> btf_evtbok st ci line \<noteq> None"
  unfolding btf_evtbok_def by (rule btf_evtbok_loop_returns) simp_all

lemma upto_ptr_le: "length (upto_ptr s on) \<le> length s"
  by (simp add: upto_ptr_def)

lemma btf_evttop_returns:
  assumes "btf_ok st" "length line \<le> 212"
  shows "btf_evttop st ci line \<noteq> None"
proof -
  obtain pre where pre: "btf_prefix st ci = Some pre" "length pre \<le> 38" using btf_prefix_ok [OF assms(1)] by blast
  have cut: "length (upto_ptr s c) + length (tl c) < length s" if "memchr (CHR '','') s = Some c" for s c
    using that upto_ptr_length [OF memchr_length [OF that]] memchr_SomeD [OF that] by (cases c) auto
  have "\<exists>b. puts pre [x, [TAB], upto_ptr s c, [TAB], upto_ptr (tl c) d, [LF]] = Some b"
    if "memchr (CHR '','') s = Some c" "memchr (CHR '','') (tl c) = Some d" "length s \<le> 212" "length x = 2" for x s c d
    using cut [OF that(1)] cut [OF that(2)] that(3,4) pre(2) by (auto simp: puts_iff BUF_SIZE_def)
  note puts = this
  show ?thesis
  proof (cases "\<exists>c1 c2 c3 c4. memchr (CHR '','') line = Some c1 \<and> memchr (CHR '','') (tl c1) = Some c2 \<and>
      memchr (CHR '','') (tl c2) = Some c3 \<and> memchr (CHR '','') (tl c3) = Some c4")
    case True
    then obtain c1 c2 c3 c4 where c: "memchr (CHR '','') line = Some c1" "memchr (CHR '','') (tl c1) = Some c2"
      "memchr (CHR '','') (tl c2) = Some c3" "memchr (CHR '','') (tl c3) = Some c4" by blast
    have "length (tl c2) \<le> 212" using cut [OF c(1)] cut [OF c(2)] assms(2) by simp
    with puts [OF c(1,2) assms(2), of "''B1''"] puts [OF c(3,4), of "''A1''"] pre c show ?thesis
      by (auto simp: btf_evttop_def)
  next
    case False
    then show ?thesis by (auto simp: btf_evttop_def split: option.splits)
  qed
qed

lemma btf_last_comma_cut:
  "btf_last_comma pr on = (pr', on') \<Longrightarrow>
    suffix on' on \<and> (CHR '','' \<notin> set on \<and> pr' = pr \<and> on' = on \<or>
      CHR '','' \<in> set on \<and> (\<exists>p. pr' = Some p \<and> suffix p on \<and> length on' < length p))"
proof (induction pr on rule: btf_last_comma.induct)
  case (1 pr on)
  show ?case
  proof (cases "memchr (CHR '','') on")
    case None
    with "1.prems" show ?thesis by (simp add: btf_last_comma.simps [of pr on] memchr_None_iff)
  next
    case (Some x)
    then have m: "CHR '','' \<in> set on" by (metis memchr_None_iff option.distinct(1))
    obtain pre y where x: "on = pre @ x" "x = CHR '','' # y" using memchr_SomeD [OF Some] by (cases x) auto
    from 1(1) [OF Some] "1.prems" Some x(2)
    have "suffix on' y" "pr' = Some on \<and> on' = y \<or> (\<exists>p. pr' = Some p \<and> suffix p y \<and> length on' < length p)"
      by (auto simp: btf_last_comma.simps [of pr on])
    moreover have "suffix y on" using x by (auto simp: suffix_def)
    moreover have "length y < length on" using x by simp
    ultimately show ?thesis using m by (auto intro: suffix_order.trans)
  qed
qed

lemma btf_evttra_returns:
  assumes "btf_ok st" "length line \<le> 212"
  shows "btf_evttra st ci line = None \<longleftrightarrow>
    memcmp_eq line ''\"te\"'' \<and> CHR '','' \<notin> set line \<and> CHR '']'' \<in> set line"
proof -
  obtain pre where pre: "btf_prefix st ci = Some pre" "length pre \<le> 38" using btf_prefix_ok [OF assms(1)] by blast
  obtain pr on where l: "btf_last_comma None line = (pr, on)" by (metis prod.exhaust)
  note cut = btf_last_comma_cut [OF l]
  show ?thesis
  proof (cases "CHR '','' \<in> set line")
    case False
    with cut l pre show ?thesis
      by (auto simp: btf_evttra_def memchr_None_iff split: option.splits)
        (metis memchr_None_iff option.distinct(1))+
  next
    case True
    with cut obtain p where p: "pr = Some p" "suffix p line" "length on < length p" by auto
    define q where "q = take (length p - Suc (length on)) p"
    have q: "length q + length on < length p" using p(3) by (simp add: q_def)
    have "\<exists>b. puts pre [x, [TAB], q, [TAB], upto_ptr y eol, [LF]] = Some b"
      if "length x = 2" "length y \<le> length on" for x y eol
      using that q pre(2) assms(2) suffix_length_le [OF p(2)] upto_ptr_le [of y eol]
      by (auto simp: puts_iff BUF_SIZE_def)
    then have put: "puts pre [x, [TAB], q, [TAB], upto_ptr on eol, [LF]] \<noteq> None"
        "puts pre [x, [TAB], q, [TAB], upto_ptr (tl on) eol, [LF]] \<noteq> None" if "length x = 2" for x eol
      using that by fastforce+
    show ?thesis
    proof (cases "memchr (CHR '']'') on")
      case None
      with True l show ?thesis by (simp add: btf_evttra_def)
    next
      case (Some eol)
      with True l pre p(1) put [of "''S0''" eol] put [of "''T0''" eol] show ?thesis
        by (auto simp: btf_evttra_def q_def [symmetric] Let_def)
    qed
  qed
qed

lemma btf_procln_None_iff:
  assumes "btf_ok st" "length line \<le> 200"
  shows "btf_procln st line = None \<longleftrightarrow>
    (\<exists>t on x r. line_time line = Some (t, CHR ''['' # on) \<and> strtoul 10 on = (x, CHR '','' # r) \<and>
      subtys st (ucast x) = SUBT_TRA \<and> memcmp_eq r ''\"te\"'' \<and> CHR '','' \<notin> set r \<and> CHR '']'' \<in> set r)"
proof -
  obtain u v where uv: "strtotv line = (u, v)" by (metis prod.exhaust)
  define st1 where "st1 = st\<lparr>metr := u\<rparr>"
  have ok: "btf_ok st1" using assms(1) by (simp add: st1_def)
  have ev: "btf_events st1 s = None \<longleftrightarrow> (\<exists>x r. strtoul 10 s = (x, CHR '','' # r) \<and>
      subtys st (ucast x) = SUBT_TRA \<and> memcmp_eq r ''\"te\"'' \<and> CHR '','' \<notin> set r \<and> CHR '']'' \<in> set r)"
    if "length s \<le> 200" for s
  proof -
    obtain x on where x: "strtoul 10 s = (x, on)" by (metis prod.exhaust)
    have "length on \<le> 200" using strtoul_rest_le [OF x] that by simp
    then have len: "length (tl on) \<le> 212" "length (tl (tl on)) \<le> 212" "length (tl (tl (tl on))) \<le> 212" by auto
    show ?thesis
    proof (cases "deref on = CHR '',''")
      case False
      with x show ?thesis by (auto simp: btf_events_def)
    next
      case True
      then have "on = CHR '','' # tl on" by (cases on) auto
      with x True len show ?thesis
        using btf_evtbok_returns [OF ok] btf_evttop_returns [OF ok len(1)] btf_evttra_returns [OF ok len(1)]
        by (cases "subtys st (ucast x)") (auto simp: btf_events_def Let_def st1_def)
    qed
  qed
  have lt: "length p \<le> length line" if "line_time line = Some (t, p)" for t p
  proof -
    from that obtain q where q: "strtotv line = (t, Some q)" "p = tl q"
      by (auto simp: line_time_def split: prod.splits option.splits if_split_asm)
    have "length q \<le> length line"
      using q(1) by (auto simp: strtotv_def Let_def split: prod.splits if_split_asm dest!: strtoul_rest_le)
    with q(2) show ?thesis by simp
  qed
  show ?thesis
  proof (cases "line_time line")
    case None
    with uv show ?thesis by (simp add: btf_procln_def Let_def)
  next
    case (Some tp)
    obtain t p where tp: "tp = (t, p)" by (metis prod.exhaust)
    show ?thesis
    proof (cases "deref p = CHR ''[''")
      case False
      with Some tp uv show ?thesis by (auto simp: btf_procln_def Let_def split: prod.splits)
    next
      case True
      then obtain s where s: "p = CHR ''['' # s" by (cases p) auto
      have "length s \<le> 200" using lt Some tp s assms(2) by fastforce
      from ev [OF this] Some tp uv s show ?thesis
        by (auto simp: btf_procln_def Let_def st1_def [symmetric])
    qed
  qed
qed

text \<open>C30. For lines of up to 200 characters there is one way to leave the defined behaviour of C: a
  trade on a subscribed channel without any comma behind its mark, for which the price is read
  through a pointer that was never set. In all other cases \<open>procln\<close> returns, within its buffer.\<close>

theorem btf_procln_returns:
  assumes "btf_ok st" "length line \<le> 200"
  shows "btf_procln st line = None \<longleftrightarrow>
    (\<exists>t on x r. line_time line = Some (t, CHR ''['' # on) \<and> strtoul 10 on = (x, CHR '','' # r) \<and>
      subtys st (ucast x) = SUBT_TRA \<and> memcmp_eq r ''\"te\"'' \<and> CHR '','' \<notin> set r \<and> CHR '']'' \<in> set r)"
  using assms by (rule btf_procln_None_iff)

theorem btf_procln_returns_witness:
  "btf_procln (btf_init\<lparr>subtys := (\<lambda>_. SUBT_TRA)\<rparr>) (tvtostr 1 @ TAB # ''['' @ dec_string 5 @ '',\"te\"]'') = None"
proof -
  let ?st = "btf_init\<lparr>subtys := (\<lambda>_. SUBT_TRA)\<rparr>"
  have "length (tvtostr 1 @ TAB # ''['' @ dec_string 5 @ '',\"te\"]'') \<le> 200"
    using tvtostr_length [of 1] dec_string_length [of 5 0] by simp
  moreover have "line_time (tvtostr 1 @ TAB # ''['' @ dec_string 5 @ '',\"te\"]'') =
      Some (1, CHR ''['' # dec_string 5 @ '',\"te\"]'')"
    by (subst line_time_printed) (simp_all add: NOT_A_TIME_def)
  moreover have "strtoul 10 (dec_string 5 @ '',\"te\"]'') = (5, CHR '','' # ''\"te\"]'')"
    by (subst strtoul_dec_string) (simp_all add: ends_number_def starts_number_def digit_val_def)
  ultimately show ?thesis
    using btf_ok_init by (subst btf_procln_returns) (simp_all add: memcmp_eq_def)
qed

text \<open>The line that makes \<open>procln\<close> read a pointer that is not set, on a channel with trades.\<close>

definition trade_without_comma :: "string \<Rightarrow> bool" where
  "trade_without_comma line \<longleftrightarrow> (\<exists>t on x r. line_time line = Some (t, CHR ''['' # on) \<and>
     strtoul 10 on = (x, CHR '','' # r) \<and> memcmp_eq r ''\"te\"'' \<and> CHR '','' \<notin> set r \<and> CHR '']'' \<in> set r)"

lemma btf_procln_some:
  assumes "btf_ok st" "length line \<le> 200" "\<not> trade_without_comma line"
  obtains rc out st1 where "btf_procln st line = Some (rc, out, st1)" "btf_ok st1" "\<forall>b \<in> set out. out_line b"
proof -
  have "\<not> (\<exists>t on x r. line_time line = Some (t, CHR ''['' # on) \<and> strtoul 10 on = (x, CHR '','' # r) \<and>
      subtys st (ucast x) = SUBT_TRA \<and> memcmp_eq r ''\"te\"'' \<and> CHR '','' \<notin> set r \<and> CHR '']'' \<in> set r)"
    using assms(3) unfolding trade_without_comma_def by blast
  then have "btf_procln st line \<noteq> None" using btf_procln_None_iff [OF assms(1,2)] by simp
  then obtain rc out st1 where "btf_procln st line = Some (rc, out, st1)" by (metis not_None_eq prod.exhaust)
  with that btf_procln_ok [OF this assms(1)] show thesis by blast
qed

text \<open>C27. Whatever the lines are, if none has more than 200 characters or is a trade without a comma,
  the loop over them comes to its end without leaving the buffer or the table: the 256 entries of
  the table remain 16 bytes with a sound length in the last of them, and all that is written are
  lines of at most 256 characters that end in a newline.\<close>

theorem btf_run_ok:
  assumes "\<And>line. line \<in> set ls \<Longrightarrow> length line \<le> 200 \<and> \<not> trade_without_comma line"
  shows "\<exists>out st. btf_run btf_init ls = Some (out, st) \<and> btf_ok st \<and>
    (\<forall>b \<in> set out. length b \<le> 256 \<and> b \<noteq> [] \<and> last b = LF)"
proof -
  have "\<exists>out st. btf_run st0 ls = Some (out, st) \<and> btf_ok st \<and> (\<forall>b \<in> set out. out_line b)" if "btf_ok st0" for st0
    using assms that
  proof (induction ls arbitrary: st0)
    case (Cons line ls)
    have "length line \<le> 200" "\<not> trade_without_comma line" using Cons.prems(1) [of line] by auto
    from btf_procln_some [OF Cons.prems(2) this] obtain rc out1 st1 where
      1: "btf_procln st0 line = Some (rc, out1, st1)" "btf_ok st1" "\<forall>b \<in> set out1. out_line b" .
    have "\<exists>out st. btf_run st1 ls = Some (out, st) \<and> btf_ok st \<and> (\<forall>b \<in> set out. out_line b)"
      using Cons.IH 1(2) Cons.prems(1) by (meson list.set_intros(2))
    with 1 show ?case by auto
  qed simp
  from this [OF btf_ok_init] show ?thesis by (simp add: out_line_def)
qed

theorem btf_run_ok_witness:
  "\<exists>out st. btf_run btf_init [tvtostr 1 @ TAB # ''x'', tvtostr 2 @ TAB # CHR ''['' # dec_string 7 @ '',\"hb\"]''] = Some (out, st) \<and> btf_ok st \<and>
     (\<forall>b \<in> set out. length b \<le> 256 \<and> b \<noteq> [] \<and> last b = LF)"
proof (rule btf_run_ok)
  fix line assume l: "line \<in> set [tvtostr 1 @ TAB # ''x'', tvtostr 2 @ TAB # CHR ''['' # dec_string 7 @ '',\"hb\"]'']"
  have t: "line_time (tvtostr 1 @ TAB # ''x'') = Some (1, ''x'')"
    "line_time (tvtostr 2 @ TAB # CHR ''['' # dec_string 7 @ '',\"hb\"]'') = Some (2, CHR ''['' # dec_string 7 @ '',\"hb\"]'')"
    by (rule line_time_printed, simp add: NOT_A_TIME_def)+
  have "strtoul 10 (dec_string 7 @ '',\"hb\"]'') = (7, CHR '','' # ''\"hb\"]'')"
    by (subst strtoul_dec_string) (simp_all add: ends_number_def starts_number_def digit_val_def)
  then have "\<not> trade_without_comma (tvtostr 1 @ TAB # ''x'')" "\<not> trade_without_comma (tvtostr 2 @ TAB # CHR ''['' # dec_string 7 @ '',\"hb\"]'')"
    unfolding trade_without_comma_def t by (simp_all add: memcmp_eq_def)
  moreover have "length (tvtostr 1 @ TAB # ''x'') \<le> 200" "length (tvtostr 2 @ TAB # CHR ''['' # dec_string 7 @ '',\"hb\"]'') \<le> 200"
    using tvtostr_length [of 1] tvtostr_length [of 2] dec_string_length [of 7 0] by simp_all
  moreover have "line = tvtostr 1 @ TAB # ''x'' \<or> line = tvtostr 2 @ TAB # CHR ''['' # dec_string 7 @ '',\"hb\"]''"
    using l by (simp only: set_simps insert_iff empty_iff simp_thms)
  ultimately show "length line \<le> 200 \<and> \<not> trade_without_comma line" by metis
qed

end
