(* ===== verification/Hit2b.thy ===== *)
theory Hit2b
  imports Convert
begin

text \<open>
  \<open>src/hit2b.c\<close>: market data of one instrument, snapshots and increments, become lines of both
  sides of the book and of trades. A call yields the C result and the lines written.
\<close>

datatype hit_side_t = HIT_SIDE_UNK | HIT_SIDE_BID | HIT_SIDE_ASK | HIT_SIDE_TRA

section \<open>Keys\<close>

definition hit_hx_full :: u32 where "hit_hx_full = hash ''MarketDataSnapshotFullRefresh''"

definition hit_hx_incr :: u32 where "hit_hx_incr = hash ''MarketDataIncrementalRefresh''"

definition hit_hx_sym :: u32 where "hit_hx_sym = hash (take 3 ''symbol'')"

definition hit_hx_bid :: u32 where "hit_hx_bid = hash ''bid''"

definition hit_hx_ask :: u32 where "hit_hx_ask = hash ''ask''"

definition hit_hx_tra :: u32 where "hit_hx_tra = hash (take 3 ''trade'')"

fun hit_sides :: "hit_side_t \<Rightarrow> string" where
  "hit_sides HIT_SIDE_UNK = ''????''"
| "hit_sides HIT_SIDE_BID = ''BID2''"
| "hit_sides HIT_SIDE_ASK = ''ASK2''"
| "hit_sides HIT_SIDE_TRA = ''TRA0''"

section \<open>Lines of an array\<close>

text \<open>
  The array loop: \<open>in2\<close> is the start of the lines, the number the elements left; the token it
  stops at and the lines.
\<close>

fun hit_arr ::
  "string \<Rightarrow> jsmntok_t list \<Rightarrow> string \<Rightarrow> nat \<Rightarrow> nat \<Rightarrow> string list \<Rightarrow> (nat \<times> string list) option" where
  "hit_arr on toks in2 0 i out = Some (i, out)"
| "hit_arr on toks in2 (Suc k) i out = do {
     obj \<leftarrow> tok_is toks (i + 1) JSMN_OBJECT;
     if \<not> obj then Some (i + 1, out) else do {
     str \<leftarrow> tok_is toks (i + 2) JSMN_STRING;
     if \<not> str then Some (i + 2, out) else do {
     price \<leftarrow> tok_starts on toks (i + 2) ''price'';
     if \<not> price then Some (i + 3, out) else do {
     p \<leftarrow> tok_str on toks (i + 3);
     len \<leftarrow> puts in2 [p, [TAB]];
     str \<leftarrow> tok_is toks (i + 4) JSMN_STRING;
     if \<not> str then Some (i + 4, out) else do {
     size \<leftarrow> tok_starts on toks (i + 4) ''size'';
     if \<not> size then hit_arr on toks in2 k (i + 5) out else do {
     q \<leftarrow> tok_str on toks (i + 5);
     b \<leftarrow> puts len [q, [LF]];
     hit_arr on toks in2 k (i + 5) (out @ [b]) }}}}}}"

lemma hit_arr_forward: "forward i (hit_arr on toks in2 k i out)"
proof (induction k arbitrary: i out)
  case (Suc k)
  show ?case
    unfolding hit_arr.simps by (intro forward_intros forward_le [OF Suc]) simp_all
qed (simp add: forward_intros)

section \<open>A message\<close>

definition hit_side_of :: "u32 \<Rightarrow> hit_side_t" where
  "hit_side_of hx =
     (if hx = hit_hx_bid then HIT_SIDE_BID else if hx = hit_hx_ask then HIT_SIDE_ASK
      else if hx = hit_hx_tra then HIT_SIDE_TRA else HIT_SIDE_UNK)"

text \<open>
  The loop over the tokens. \<open>ini\<close> is the start of the lines, which the symbol extends; \<open>rstp\<close> says
  that this is a snapshot, for which the book is cleared first.
\<close>

function hit_loop ::
  "string \<Rightarrow> jsmntok_t list \<Rightarrow> bool \<Rightarrow> string \<Rightarrow> nat \<Rightarrow> string list \<Rightarrow> string list option" where
  "hit_loop on toks rstp ini i out =
     (if i < length toks then do {
        str \<leftarrow> tok_is toks i JSMN_STRING;
        if \<not> str then hit_loop on toks rstp ini (i + 1) out else do {
        p \<leftarrow> tok_on on toks i;
        hx \<leftarrow> hash_at p 3;
        if hx = hit_hx_sym then do {
          str \<leftarrow> tok_is toks (i + 1) JSMN_STRING;
          if \<not> str then hit_loop on toks rstp ini (i + 2) out else do {
          v \<leftarrow> tok_str on toks (i + 1);
          ini2 \<leftarrow> puts ini [v, [TAB]];
          if rstp then do {
            clr \<leftarrow> puts ini2 [''clr0'', [TAB], [TAB], [LF]];
            hit_loop on toks rstp ini2 (i + 2) (out @ [clr]) }
          else hit_loop on toks rstp ini2 (i + 2) out }}
        else if hit_side_of hx \<noteq> HIT_SIDE_UNK then do {
          arr \<leftarrow> tok_is toks (i + 1) JSMN_ARRAY;
          if \<not> arr then hit_loop on toks rstp ini (i + 2) out else do {
          in2 \<leftarrow> puts ini [hit_sides (hit_side_of hx), [TAB]];
          t \<leftarrow> at toks (i + 1);
          (j, out2) \<leftarrow> hit_arr on toks in2 (tok_size t) (i + 1) out;
          hit_loop on toks rstp ini (j + 1) out2 }}
        else hit_loop on toks rstp ini (i + 1) out }}
      else Some out)"
  by pat_completeness auto
termination
  by (relation "measure (\<lambda>(on, toks, rstp, ini, i, out). length toks - i)") (auto dest!: forwardD [OF hit_arr_forward])

declare hit_loop.simps [simp del]

definition hit_procln :: "string \<Rightarrow> (int \<times> string list) option" where
  "hit_procln line =
     (case line_time line of
        None \<Rightarrow> Some (-1, [])
      | Some (rt, on) \<Rightarrow>
          if deref on \<noteq> CHR ''{'' then Some (-1, [])
          else do {
            r \<leftarrow> json_tokens 4096 on;
            (case r of None \<Rightarrow> Some (-1, []) | Some toks \<Rightarrow>
             if toks = [] \<or> tok_type (hd toks) \<noteq> JSMN_OBJECT then Some (-1, []) else do {
             str \<leftarrow> tok_is toks 1 JSMN_STRING;
             if \<not> str then Some (-1, []) else do {
             obj \<leftarrow> tok_is toks 2 JSMN_OBJECT;
             if \<not> obj then Some (-1, []) else do {
             v \<leftarrow> tok_str on toks 1;
             let hx = hash v in
             if hx \<noteq> hit_hx_incr \<and> hx \<noteq> hit_hx_full then Some (-1, []) else do {
             str \<leftarrow> tok_is toks (length toks - 2) JSMN_STRING;
             if \<not> str then Some (-1, []) else do {
             prm \<leftarrow> tok_is toks (length toks - 1) JSMN_PRIMITIVE;
             if \<not> prm then Some (-1, []) else do {
             key \<leftarrow> tok_starts on toks (length toks - 2) ''timestamp'';
             if \<not> key then Some (-1, []) else do {
             vs \<leftarrow> tok_on on toks (length toks - 1);
             let xt = smstotv vs in
             if xt = NOT_A_TIME then Some (-1, []) else do {
             ini \<leftarrow> puts [] [tvtostr xt, [TAB], tvtostr rt, [TAB]];
             out \<leftarrow> hit_loop on toks (hx \<noteq> hit_hx_incr) ini 3 [];
             Some (0, out) }}}}}}}}) })"

text \<open>The loop of \<open>main\<close>.\<close>

fun hit_run :: "string list \<Rightarrow> string list option" where
  "hit_run [] = Some []"
| "hit_run (line # ls) = do { (rc, out) \<leftarrow> hit_procln line; out2 \<leftarrow> hit_run ls; Some (out @ out2) }"

end
