(* ===== verification/Convert_Json.thy ===== *)
theory Convert_Json
  imports Convert Jsmn_Tree
begin

text \<open>
  What the accesses of the converters to the tokens yield when the line is JSON: the tokens of a
  value show their types and texts, and the loops over an array see its elements.
\<close>

section \<open>Types and texts of the tokens of a value\<close>

type_synonym view = "(jsmntype_t \<times> string) list"

function (sequential) jview :: "jvalue \<Rightarrow> view"
  and jview_list :: "jvalue list \<Rightarrow> view"
  and jview_kvs :: "(string \<times> jvalue) list \<Rightarrow> view" where
  "jview (JPrim s) = [(JSMN_PRIMITIVE, s)]"
| "jview (JStr s) = [(JSMN_STRING, s)]"
| "jview (JArr vs) = (JSMN_ARRAY, jren (JArr vs)) # jview_list vs"
| "jview (JObj kvs) = (JSMN_OBJECT, jren (JObj kvs)) # jview_kvs kvs"
| "jview_list [] = []"
| "jview_list (v # vs) = jview v @ jview_list vs"
| "jview_kvs [] = []"
| "jview_kvs ((k, v) # kvs) = (JSMN_STRING, k) # jview v @ jview_kvs kvs"
  by pat_completeness auto
termination by (relation "measure jmeasure") auto

lemma jview_count [simp]:
  "length (jview v) = jcount v" "length (jview_list vs) = jcount_list vs" "length (jview_kvs kvs) = jcount_kvs kvs"
  by (induction v and vs and kvs rule: jview_jview_list_jview_kvs.induct) simp_all

definition tok_shows :: "string \<Rightarrow> jsmntok_t \<Rightarrow> jsmntype_t \<times> string \<Rightarrow> bool" where
  "tok_shows js t x \<longleftrightarrow> tok_type t = fst x \<and> tok_text js t = Some (snd x) \<and>
     (\<exists>r. tok_ptr js t = Some (snd x @ r) \<and> (fst x = JSMN_PRIMITIVE \<longrightarrow> delim_next r))"

lemma tok_shows_at:
  "js = pre @ s @ post \<Longrightarrow> b = length pre \<Longrightarrow> e = length pre + length s \<Longrightarrow>
    (ty = JSMN_PRIMITIVE \<Longrightarrow> delim_next post) \<Longrightarrow> tok_shows js (mk_tok ty b e sz par) (ty, s)"
  by (simp add: tok_shows_def tok_text_def tok_ptr_def)

lemma jtoks_show:
  "js = pre @ jren v @ post \<Longrightarrow> delim_next post \<Longrightarrow> list_all2 (tok_shows js) (jtoks v (length pre) n par) (jview v)"
  "js = pre @ jren_list vs @ post \<Longrightarrow> delim_next post \<Longrightarrow> list_all2 (tok_shows js) (jtoks_list vs (length pre) n par) (jview_list vs)"
  "js = pre @ jren_kvs kvs @ post \<Longrightarrow> delim_next post \<Longrightarrow> list_all2 (tok_shows js) (jtoks_kvs kvs (length pre) n par) (jview_kvs kvs)"
proof (induction v and vs and kvs arbitrary: pre post n par and pre post n par and pre post n par
    rule: jren_jren_list_jren_kvs.induct)
  case (1 s)
  then show ?case by (auto intro: tok_shows_at)
next
  case (2 s)
  then have "js = (pre @ [DQUOTE]) @ s @ DQUOTE # post" by simp
  from tok_shows_at [OF this refl refl, of JSMN_STRING] show ?case by simp
next
  case (3 vs)
  then have "js = (pre @ ''['') @ jren_list vs @ '']'' @ post" by simp
  from 3(1) [OF this _, of "n + 1" "int n"] tok_shows_at [OF 3(2) refl refl, of JSMN_ARRAY "length vs" par]
  show ?case by (simp add: delim_next_def jdelims_def)
next
  case (4 kvs)
  then have "js = (pre @ ''{'') @ jren_kvs kvs @ ''}'' @ post" by simp
  from 4(1) [OF this _, of "n + 1" "int n"] tok_shows_at [OF 4(2) refl refl, of JSMN_OBJECT "length kvs" par]
  show ?case by (simp add: delim_next_def jdelims_def)
next
  case (6 v vs)
  have v: "list_all2 (tok_shows js) (jtoks v (length pre) n par) (jview v)"
    using 6(1) [of pre "(if vs = [] then [] else CHR '','' # jren_list vs) @ post"] 6(3,4) by (auto simp: delim_next_def jdelims_def)
  show ?case
  proof (cases vs)
    case Nil
    with v show ?thesis by simp
  next
    case (Cons w ws)
    then have "js = (pre @ jren v @ '','') @ jren_list vs @ post" "vs \<noteq> []" using 6(3) by simp_all
    from 6(2) [OF this(2,1) 6(4), of "n + jcount v" par] v show ?thesis by (simp add: list_all2_appendI add.assoc)
  qed
next
  case (8 k v kvs)
  have js: "js = (pre @ DQUOTE # k @ DQUOTE # '':'') @ jren v @ (if kvs = [] then [] else CHR '','' # jren_kvs kvs) @ post"
    using 8(3) by simp
  have "delim_next ((if kvs = [] then [] else CHR '','' # jren_kvs kvs) @ post)"
    using 8(4) by (auto simp: delim_next_def jdelims_def)
  from 8(1) [OF js this, of "n + 1" "int n"]
  have v: "list_all2 (tok_shows js) (jtoks v (length pre + length k + 3) (n + 1) (int n)) (jview v)"
    by (simp add: numeral_eq_Suc)
  have k: "tok_shows js (mk_tok JSMN_STRING (length pre + 1) (length pre + 1 + length k) 1 par) (JSMN_STRING, k)"
    using js by (intro tok_shows_at [of js "pre @ [DQUOTE]" k]) auto
  show ?case
  proof (cases kvs)
    case Nil
    with v k show ?thesis by simp
  next
    case (Cons w ws)
    then have "js = (pre @ DQUOTE # k @ DQUOTE # CHR '':'' # jren v @ '','') @ jren_kvs kvs @ post" "kvs \<noteq> []"
      using js by simp_all
    from 8(2) [OF this(2,1) 8(4), of "n + 1 + jcount v" par] v k show ?thesis
      by (simp add: list_all2_appendI add.assoc numeral_eq_Suc)
  qed
qed auto

lemma mk_tok_eq: "mk_tok ty b e sz par = mk_tok ty' b' e' sz' par' \<longleftrightarrow> ty = ty' \<and> b = b' \<and> e = e' \<and> sz = sz' \<and> par = par'"
  by (simp add: mk_tok_def)

text \<open>Where the tokens of a value start.\<close>

lemma jren_pos: "jok v \<Longrightarrow> 0 < length (jren v)"
  by (cases v) (auto simp: prim_ok_def)

lemma jtoks_range:
  "jok v \<Longrightarrow> t \<in> set (jtoks v p n par) \<Longrightarrow> int p \<le> tok_start t \<and> tok_start t < int (p + length (jren v))"
  "jok_list vs \<Longrightarrow> t \<in> set (jtoks_list vs p n par) \<Longrightarrow> int p \<le> tok_start t \<and> tok_start t < int (p + length (jren_list vs))"
  "jok_kvs kvs \<Longrightarrow> t \<in> set (jtoks_kvs kvs p n par) \<Longrightarrow> int p \<le> tok_start t \<and> tok_start t < int (p + length (jren_kvs kvs))"
proof (induction v p n par and vs p n par and kvs p n par rule: jtoks_jtoks_list_jtoks_kvs.induct)
  case (1 s p n par)
  then show ?case by (auto simp: prim_ok_def)
next
  case (6 v vs p n par)
  then show ?case by (cases vs) fastforce+
next
  case (8 k v kvs p n par)
  then show ?case by (cases kvs) fastforce+
qed fastforce+

section \<open>The tokens of a line\<close>

lemma json_tokens_text:
  assumes "jok v" "\<forall>w \<in> set ws. w \<in> {TAB, CR, LF, CHR '' ''}" "jcount v \<le> n"
  shows "json_tokens n (jren v @ ws) = Some (Some (jtoks v 0 0 (-1)))"
  using jsmn_parse_text [OF assms(1,2), of "replicate n tok_raw"] assms(3) by (simp add: json_tokens_def)

lemma jtoks_show_line: "delim_next ws \<Longrightarrow> list_all2 (tok_shows (jren v @ ws)) (jtoks v 0 0 (-1)) (jview v)"
  using jtoks_show(1) [of "jren v @ ws" "[]"] by simp

text \<open>What a converter relies on: an array of tokens that shows the types and texts of a view.\<close>

locale token_view =
  fixes js :: string and toks :: "jsmntok_t list" and vw :: view
  assumes toks_show: "list_all2 (tok_shows js) toks vw"
begin

lemma view_length: "length toks = length vw"
  using toks_show by (rule list_all2_lengthD)

lemma view_nth: "i < length vw \<Longrightarrow> tok_shows js (toks ! i) (vw ! i)"
  using toks_show by (simp add: list_all2_conv_all_nth)

lemma view_is: "i < length vw \<Longrightarrow> tok_is toks i ty = Some (fst (vw ! i) = ty)"
  using view_nth [of i] by (auto simp: tok_is_def tok_shows_def view_length)

lemma view_str: "i < length vw \<Longrightarrow> tok_str js toks i = Some (snd (vw ! i))"
  using view_nth [of i] by (auto simp: tok_str_def tok_shows_def view_length)

lemma view_on: "i < length vw \<Longrightarrow> \<exists>r. tok_on js toks i = Some (snd (vw ! i) @ r)"
  using view_nth [of i] by (auto simp: tok_on_def tok_shows_def view_length)

lemma view_starts:
  "i < length vw \<Longrightarrow> length w \<le> length (snd (vw ! i)) \<Longrightarrow> tok_starts js toks i w = Some (take (length w) (snd (vw ! i)) = w)"
  using view_on [of i] by (auto simp: tok_starts_def memcmp_eq_def)

lemma view_number: "i < length vw \<Longrightarrow> fst (vw ! i) = JSMN_PRIMITIVE \<Longrightarrow>
    \<exists>r. tok_on js toks i = Some (snd (vw ! i) @ r) \<and> delim_next r"
  using view_nth [of i] by (auto simp: tok_on_def tok_shows_def view_length)

lemma view_hash: "i < length vw \<Longrightarrow> n \<le> length (snd (vw ! i)) \<Longrightarrow>
    \<exists>p. tok_on js toks i = Some p \<and> hash_at p n = Some (hash (take n (snd (vw ! i))))"
  using view_on [of i] by (auto simp: hash_at_def)

end

text \<open>The tokens of JSON.\<close>

interpretation json_line: token_view "jren v @ [LF]" "jtoks v 0 0 (-1)" "jview v" for v
  by unfold_locales (rule jtoks_show_line, simp add: delim_next_def jdelims_def)

lemma delim_ends_number: "delim_next r \<Longrightarrow> ends_number r \<and> deref r \<noteq> CHR ''.''"
  by (cases r) (auto simp: delim_next_def jdelims_def ends_number_def starts_number_def digit_val_def)

lemma prim_ok_dec_string: "prim_ok (dec_string n)"
proof -
  have "prim_char (digit_char d) \<and> digit_char d \<notin> {CHR ''{'', CHR ''['', DQUOTE}" if "d < 10" for d
    using that digit_char_neq(1) [OF that]
    by (auto simp: prim_char_def jdelims_def digit_char_def)
  moreover have "hd (dec_string n) \<in> set (dec_string n)" by simp
  ultimately show ?thesis using dec_string_digits [of n] unfolding prim_ok_def by fastforce
qed

section \<open>Loops\<close>

lemma usz_small [simp]: "k < 2 ^ 64 \<Longrightarrow> usz (int k) = k"
  by (simp add: usz_def)

lemma tok_skip_over:
  assumes "B \<noteq> []" "e \<le> usz (tok_start (hd B))"
  shows "\<forall>t \<in> set T. usz (tok_start t) < e \<Longrightarrow> tok_skip (A @ T @ B) (length A) e = Some (length A + length T)"
proof (induction T arbitrary: A)
  case Nil
  with assms show ?case by (subst tok_skip.simps) (cases B; simp add: tok_before_def nth_append)
next
  case (Cons t T)
  from Cons.IH [of "A @ [t]"] Cons.prems show ?case
    by (subst tok_skip.simps) (simp add: tok_before_def nth_append)
qed

lemma usz_less: "0 \<le> k \<Longrightarrow> k < int e \<Longrightarrow> e \<le> 2 ^ 64 \<Longrightarrow> usz k < e"
  by (simp add: usz_def)

lemma array_inside:
  assumes "jok_list vs" "t \<in> set (jtoks_list vs (p + 1) n par)" "p + length (jren (JArr vs)) \<le> 2 ^ 64"
  shows "usz (tok_start t) < p + length (jren (JArr vs))"
  using jtoks_range(2) [OF assms(1,2)] assms(3) by (intro usz_less) auto

text \<open>A level of a book as an array of two numbers.\<close>

definition jlevel :: "string \<times> string \<Rightarrow> jvalue" where
  "jlevel l = JArr [JPrim (fst l), JPrim (snd l)]"

definition level_ok :: "string \<times> string \<Rightarrow> bool" where
  "level_ok l \<longleftrightarrow> prim_ok (fst l) \<and> prim_ok (snd l)"

definition level_line :: "string \<Rightarrow> string \<times> string \<Rightarrow> string" where
  "level_line pre l = pre @ fst l @ [TAB] @ snd l @ [LF]"

fun level_lines :: "string \<Rightarrow> string \<Rightarrow> (string \<times> string) list \<Rightarrow> string list" where
  "level_lines pre pre2 [] = []"
| "level_lines pre pre2 (l # ls) = level_line pre l # map (level_line pre2) ls"

lemma level_lines_Cons: "level_lines pre pre2 (l # ls) = level_line pre l # level_lines pre2 pre2 ls"
  by (cases ls) simp_all

lemma jok_levels [simp]: "jok_list (map jlevel ls) \<longleftrightarrow> (\<forall>l \<in> set ls. level_ok l)"
  by (induction ls) (auto simp: jlevel_def level_ok_def)

lemma jcount_levels [simp]: "jcount_list (map jlevel ls) = 3 * length ls"
  by (induction ls) (simp_all add: jlevel_def)

lemma jview_jlevel [simp]:
  "jview (jlevel l) = [(JSMN_ARRAY, jren (jlevel l)), (JSMN_PRIMITIVE, fst l), (JSMN_PRIMITIVE, snd l)]"
  by (simp add: jlevel_def)

lemma print_pairs_levels:
  "list_all2 (tok_shows on) T (jview_list (map jlevel ls)) \<Longrightarrow> \<forall>t \<in> set T. usz (tok_start t) < e \<Longrightarrow>
    e \<le> usz (tok_start (hd (with_final B))) \<Longrightarrow>
    \<forall>l \<in> set ls. length (level_line ini l) \<le> 256 \<Longrightarrow> length ini2 \<le> length ini \<Longrightarrow>
    print_pairs on (A @ T @ B) ini ini2 (length A) e out = Some (out @ level_lines ini ini2 ls)"
proof (induction ls arbitrary: A T ini out)
  case Nil
  then have "tok_before (with_final (A @ T @ B)) (length A) e = Some False"
    by (cases B) (simp_all add: tok_before_def with_final_def nth_append)
  with Nil show ?case by (subst print_pairs.simps) simp
next
  case (Cons l ls)
  obtain p q where l: "l = (p, q)" by (metis prod.exhaust)
  from Cons.prems(1) obtain a b c T' where T: "T = a # b # c # T'" and s: "tok_shows on a (JSMN_ARRAY, jren (jlevel l))"
      "tok_shows on b (JSMN_PRIMITIVE, p)" "tok_shows on c (JSMN_PRIMITIVE, q)"
      "list_all2 (tok_shows on) T' (jview_list (map jlevel ls))"
    by (auto simp: l list_all2_Cons2)
  have b: "tok_before (with_final (A @ T @ B)) (length A) e = Some True"
    using Cons.prems(2) by (simp add: T tok_before_def with_final_def nth_append)
  have acc: "tok_is (A @ T @ B) (length A) JSMN_ARRAY = Some True" "tok_str on (A @ T @ B) (length A + 1) = Some p"
    "tok_str on (A @ T @ B) (length A + 2) = Some q"
    using s by (simp_all add: T tok_is_def tok_str_def tok_shows_def nth_append)
  have "puts ini [p, [TAB], q, [LF]] = Some (level_line ini l)"
    using Cons.prems(4) by (subst puts_iff) (auto simp: l level_line_def BUF_SIZE_def)
  then have "print_pairs on (A @ T @ B) ini ini2 (length A) e out =
      print_pairs on ((A @ [a, b, c]) @ T' @ B) ini2 ini2 (length (A @ [a, b, c])) e (out @ [level_line ini l])"
    using b acc by (subst print_pairs.simps) (simp add: T numeral_3_eq_3)
  also have "\<dots> = Some ((out @ [level_line ini l]) @ level_lines ini2 ini2 ls)"
    using Cons.prems by (intro Cons.IH) (auto simp: T s level_line_def)
  finally show ?case by (simp add: level_lines_Cons del: level_lines.simps)
qed

text \<open>A level of a book as an object of two numbers under the keys given.\<close>

definition jlevel_obj :: "string \<Rightarrow> string \<Rightarrow> string \<times> string \<Rightarrow> jvalue" where
  "jlevel_obj k1 k2 l = JObj [(k1, JPrim (fst l)), (k2, JPrim (snd l))]"

lemma jview_jlevel_obj [simp]:
  "jview (jlevel_obj k1 k2 l) = [(JSMN_OBJECT, jren (jlevel_obj k1 k2 l)), (JSMN_STRING, k1), (JSMN_PRIMITIVE, fst l),
     (JSMN_STRING, k2), (JSMN_PRIMITIVE, snd l)]"
  by (simp add: jlevel_obj_def)

lemma jok_levels_obj [simp]:
  "str_ok k1 \<Longrightarrow> str_ok k2 \<Longrightarrow> jok_list (map (jlevel_obj k1 k2) ls) \<longleftrightarrow> (\<forall>l \<in> set ls. level_ok l)"
  by (induction ls) (auto simp: jlevel_obj_def level_ok_def)

lemma jcount_levels_obj [simp]: "jcount_list (map (jlevel_obj k1 k2) ls) = 5 * length ls"
  by (induction ls) (simp_all add: jlevel_obj_def)

lemma level_obj_tokens:
  assumes "list_all2 (tok_shows on) T (jview_list (map (jlevel_obj k1 k2) (l # ls)))"
  obtains o' a b c d T' where "T = o' # a # b # c # d # T'" "tok_shows on o' (JSMN_OBJECT, jren (jlevel_obj k1 k2 l))"
    "tok_shows on a (JSMN_STRING, k1)" "tok_shows on b (JSMN_PRIMITIVE, fst l)" "tok_shows on c (JSMN_STRING, k2)"
    "tok_shows on d (JSMN_PRIMITIVE, snd l)" "list_all2 (tok_shows on) T' (jview_list (map (jlevel_obj k1 k2) ls))"
  using assms by (auto simp: list_all2_Cons2)

end
