(* ===== verification/Hit2b_Props.thy ===== *)
theory Hit2b_Props
  imports Hit2b Convert_Json
begin











end
