(* ===== verification/Cex2b.thy ===== *)
theory Cex2b
  imports Convert
begin

text \<open>
  \<open>src/cex2b.c\<close>: a message about the book of a pair becomes lines of its bids, then of its asks.
  A call yields the C result and the lines written.
\<close>

section \<open>Keys\<close>

definition cex_hx_time :: u32 where "cex_hx_time = hash ''time''"

definition cex_hx_stmp :: u32 where "cex_hx_stmp = hash ''timestamp''"

definition cex_hx_pair :: u32 where "cex_hx_pair = hash ''pair''"

definition cex_hx_bids :: u32 where "cex_hx_bids = hash ''bids''"

definition cex_hx_asks :: u32 where "cex_hx_asks = hash ''asks''"

section \<open>A message\<close>

text \<open>What is looked for: the time and the tokens of the pair, the bids and the asks, \<open>None\<close> for -1.\<close>

record cex_keys_t =
  cex_xt :: tv_t
  cex_pair :: "nat option"
  cex_bids :: "nat option"
  cex_asks :: "nat option"

definition cex_keys_init :: cex_keys_t where
  "cex_keys_init = \<lparr>cex_xt = NOT_A_TIME, cex_pair = None, cex_bids = None, cex_asks = None\<rparr>"

text \<open>The loop over the tokens; the inner \<open>None\<close> is to return -1.\<close>

function cex_keys :: "string \<Rightarrow> jsmntok_t list \<Rightarrow> nat \<Rightarrow> cex_keys_t \<Rightarrow> cex_keys_t option option" where
  "cex_keys on toks i k =
     (if i < length toks then do {
        v \<leftarrow> tok_str on toks i;
        let hx = hash v in
        if hx = cex_hx_time then do {
          prm \<leftarrow> tok_is toks (i + 1) JSMN_PRIMITIVE;
          if \<not> prm then Some None else do {
          p \<leftarrow> tok_on on toks (i + 1);
          cex_keys on toks (i + 2) (k\<lparr>cex_xt := smstotv p\<rparr>) }}
        else if hx = cex_hx_stmp then do {
          prm \<leftarrow> tok_is toks (i + 1) JSMN_PRIMITIVE;
          if \<not> prm then Some None else do {
          p \<leftarrow> tok_on on toks (i + 1);
          cex_keys on toks (i + 2) (k\<lparr>cex_xt := fst (strtotv p)\<rparr>) }}
        else if hx = cex_hx_pair then do {
          str \<leftarrow> tok_is toks (i + 1) JSMN_STRING;
          if \<not> str then Some None else cex_keys on toks (i + 2) (k\<lparr>cex_pair := Some (i + 1)\<rparr>) }
        else if hx = cex_hx_bids then do {
          arr \<leftarrow> tok_is toks (i + 1) JSMN_ARRAY;
          if \<not> arr then Some None else do {
          eoa \<leftarrow> tok_eot toks (i + 1);
          j \<leftarrow> tok_skip toks (i + 2) eoa;
          cex_keys on toks j (k\<lparr>cex_bids := Some (i + 1)\<rparr>) }}
        else if hx = cex_hx_asks then do {
          arr \<leftarrow> tok_is toks (i + 1) JSMN_ARRAY;
          if \<not> arr then Some None else do {
          eoa \<leftarrow> tok_eot toks (i + 1);
          j \<leftarrow> tok_skip toks (i + 2) eoa;
          cex_keys on toks j (k\<lparr>cex_asks := Some (i + 1)\<rparr>) }}
        else cex_keys on toks (i + 1) k }
      else Some (Some k))"
  by pat_completeness auto
termination
  by (relation "measure (\<lambda>(on, toks, i, k). length toks - i)") (auto dest!: tok_skip_ge)

declare cex_keys.simps [simp del]

text \<open>
  The printing. A key that was not found is the index -1; the check against it compares with the
  number of tokens, which it is below of.
\<close>

definition cex_print :: "tv_t \<Rightarrow> string \<Rightarrow> jsmntok_t list \<Rightarrow> cex_keys_t \<Rightarrow> (int \<times> string list) option" where
  "cex_print rt on toks k =
     (if (\<exists>i \<in> set_option (cex_pair k) \<union> set_option (cex_bids k) \<union> set_option (cex_asks k). length toks \<le> i)
         \<or> cex_xt k = NOT_A_TIME
      then Some (-1, [])
      else do {
        check (length toks < 65536);
        pair \<leftarrow> cex_pair k;
        ins \<leftarrow> tok_str on toks pair;
        pre \<leftarrow> puts [] [tvtostr (cex_xt k), [TAB], tvtostr rt, [TAB], ins, [TAB]];
        b2 \<leftarrow> puts pre [''B2'', [TAB]];
        bids \<leftarrow> cex_bids k;
        eob \<leftarrow> tok_eot toks bids;
        out \<leftarrow> print_pairs on toks b2 b2 (bids + 1) eob [];
        a2 \<leftarrow> puts pre [''A2'', [TAB]];
        asks \<leftarrow> cex_asks k;
        eoa \<leftarrow> tok_eot toks asks;
        out2 \<leftarrow> print_pairs on toks a2 a2 (asks + 1) eoa out;
        Some (0, out2) })"

definition cex_procln :: "string \<Rightarrow> (int \<times> string list) option" where
  "cex_procln line =
     (case line_time line of
        None \<Rightarrow> Some (-1, [])
      | Some (rt, on) \<Rightarrow>
          if deref on \<noteq> CHR ''{'' then Some (-1, [])
          else do {
            r \<leftarrow> json_tokens 65536 on;
            (case r of None \<Rightarrow> Some (-1, []) | Some toks \<Rightarrow>
             if toks = [] \<or> tok_type (hd toks) \<noteq> JSMN_OBJECT then Some (-1, [])
             else if length toks \<le> 3 then Some (-1, []) else do {
             str \<leftarrow> tok_is toks 3 JSMN_STRING;
             if \<not> str then Some (-1, []) else do {
             dat \<leftarrow> tok_starts on toks 3 ''data'';
             if \<not> dat then Some (-1, []) else do {
             obj \<leftarrow> tok_is toks 4 JSMN_OBJECT;
             if \<not> obj then Some (-1, []) else do {
             ks \<leftarrow> cex_keys on toks 5 cex_keys_init;
             (case ks of None \<Rightarrow> Some (-1, []) | Some k \<Rightarrow> cex_print rt on toks k) }}}}) })"

text \<open>The loop of \<open>main\<close>.\<close>

fun cex_run :: "string list \<Rightarrow> string list option" where
  "cex_run [] = Some []"
| "cex_run (line # ls) = do { (rc, out) \<leftarrow> cex_procln line; out2 \<leftarrow> cex_run ls; Some (out @ out2) }"

end
