(* ===== verification/Cex2b_Props.thy ===== *)
theory Cex2b_Props
  imports Cex2b Convert_Json
begin

text \<open>
  Properties of \<open>src/cex2b.c\<close>: the book of a pair, as the exchange sends it, becomes a line for each
  level; a message without one of its keys is not refused.
\<close>

section \<open>Messages\<close>

definition cex_msg ::
  "string \<Rightarrow> string \<Rightarrow> (string \<times> string) list \<Rightarrow> (string \<times> string) list \<Rightarrow> string \<Rightarrow> jvalue" where
  "cex_msg ev ts bs as ins = JObj [(''e'', JStr ev), (''data'', JObj
     [(''timestamp'', JPrim ts), (''bids'', JArr (map jlevel bs)), (''asks'', JArr (map jlevel as)), (''pair'', JStr ins)])]"

lemma cex_hashes:
  "cex_hx_time = 0xe238f080" "cex_hx_stmp = 0x9807cbf5" "cex_hx_pair = 0xa27c7f3c" "cex_hx_bids = 0x2d952168"
  "cex_hx_asks = 0xdaaff53b" "hash ''timestamp'' = 0x9807cbf5" "hash ''pair'' = 0xa27c7f3c" "hash ''bids'' = 0x2d952168"
  "hash ''asks'' = 0xdaaff53b"
  unfolding cex_hx_time_def cex_hx_stmp_def cex_hx_pair_def cex_hx_bids_def cex_hx_asks_def
  by (simp add: hash_unfold, simp add: hash_arith)+

lemma cex_view:
  "jview (cex_msg ev ts bs as ins) =
     [(JSMN_OBJECT, jren (cex_msg ev ts bs as ins)), (JSMN_STRING, ''e''), (JSMN_STRING, ev), (JSMN_STRING, ''data''),
      (JSMN_OBJECT, jren (JObj [(''timestamp'', JPrim ts), (''bids'', JArr (map jlevel bs)), (''asks'', JArr (map jlevel as)),
        (''pair'', JStr ins)])),
      (JSMN_STRING, ''timestamp''), (JSMN_PRIMITIVE, ts), (JSMN_STRING, ''bids''), (JSMN_ARRAY, jren (JArr (map jlevel bs)))] @
     jview_list (map jlevel bs) @
     [(JSMN_STRING, ''asks''), (JSMN_ARRAY, jren (JArr (map jlevel as)))] @
     jview_list (map jlevel as) @
     [(JSMN_STRING, ''pair''), (JSMN_STRING, ins)]"
  by (simp add: cex_msg_def)

text \<open>Where the arrays start, and the tokens.\<close>

definition cex_pos_bids :: "string \<Rightarrow> string \<Rightarrow> nat" where
  "cex_pos_bids ev ts = length ev + length ts + 36"

definition cex_pos_asks :: "string \<Rightarrow> string \<Rightarrow> (string \<times> string) list \<Rightarrow> nat" where
  "cex_pos_asks ev ts bs = cex_pos_bids ev ts + length (jren (JArr (map jlevel bs))) + 8"

lemma cex_toks:
  "\<exists>a0 a1 a2 a3 a4 a5 a6 a7 e e' a n n' q q'. jtoks (cex_msg ev ts bs as ins) 0 0 (-1) =
     [a0, a1, a2, a3, a4, a5, a6, a7,
      mk_tok JSMN_ARRAY (cex_pos_bids ev ts) (cex_pos_bids ev ts + length (jren (JArr (map jlevel bs)))) (length bs) 7] @
     jtoks_list (map jlevel bs) (cex_pos_bids ev ts + 1) n q @
     [mk_tok JSMN_STRING (cex_pos_bids ev ts + length (jren (JArr (map jlevel bs))) + 2) e 1 4,
      mk_tok JSMN_ARRAY (cex_pos_asks ev ts bs) (cex_pos_asks ev ts bs + length (jren (JArr (map jlevel as)))) (length as) (int (9 + 3 * length bs))] @
     jtoks_list (map jlevel as) (cex_pos_asks ev ts bs + 1) n' q' @
     [mk_tok JSMN_STRING (cex_pos_asks ev ts bs + length (jren (JArr (map jlevel as))) + 2) e' 1 4, a]"
  by (simp add: cex_msg_def cex_pos_bids_def cex_pos_asks_def mk_tok_eq) blast

section \<open>Keys\<close>

lemma cex_keys_steps:
  "tok_str on toks i = Some ''timestamp'' \<Longrightarrow> i < length toks \<Longrightarrow> tok_is toks (i + 1) JSMN_PRIMITIVE = Some True \<Longrightarrow>
    tok_on on toks (i + 1) = Some p \<Longrightarrow>
    cex_keys on toks i k = cex_keys on toks (i + 2) (k\<lparr>cex_xt := fst (strtotv p)\<rparr>)"
  "tok_str on toks i = Some ''bids'' \<Longrightarrow> i < length toks \<Longrightarrow> tok_is toks (i + 1) JSMN_ARRAY = Some True \<Longrightarrow>
    tok_eot toks (i + 1) = Some e \<Longrightarrow> tok_skip toks (i + 2) e = Some j \<Longrightarrow>
    cex_keys on toks i k = cex_keys on toks j (k\<lparr>cex_bids := Some (i + 1)\<rparr>)"
  "tok_str on toks i = Some ''asks'' \<Longrightarrow> i < length toks \<Longrightarrow> tok_is toks (i + 1) JSMN_ARRAY = Some True \<Longrightarrow>
    tok_eot toks (i + 1) = Some e \<Longrightarrow> tok_skip toks (i + 2) e = Some j \<Longrightarrow>
    cex_keys on toks i k = cex_keys on toks j (k\<lparr>cex_asks := Some (i + 1)\<rparr>)"
  "tok_str on toks i = Some ''pair'' \<Longrightarrow> i < length toks \<Longrightarrow> tok_is toks (i + 1) JSMN_STRING = Some True \<Longrightarrow>
    cex_keys on toks i k = cex_keys on toks (i + 2) (k\<lparr>cex_pair := Some (i + 1)\<rparr>)"
  "length toks \<le> i \<Longrightarrow> cex_keys on toks i k = Some (Some k)"
  by (subst cex_keys.simps, simp add: cex_hashes)+

section \<open>Books\<close>

lemma cex_book_print:
  fixes on toks
  assumes toks: "toks = A1 @ BT @ A2 @ AT @ A3" "length A1 = 9" "length A2 = 2" "length A3 = 2" "length toks < 65536"
    and bt: "list_all2 (tok_shows on) BT (jview_list (map jlevel bs))"
      "\<forall>t \<in> set BT. usz (tok_start t) < eb" "eb \<le> usz (tok_start (A2 ! 0))"
    and at: "list_all2 (tok_shows on) AT (jview_list (map jlevel as))"
      "\<forall>t \<in> set AT. usz (tok_start t) < ea" "ea \<le> usz (tok_start (A3 ! 0))"
    and ends: "tok_eot toks 8 = Some eb" "tok_eot toks (10 + 3 * length bs) = Some ea"
    and keys: "tok_str on toks 5 = Some ''timestamp''" "tok_is toks 6 JSMN_PRIMITIVE = Some True" "tok_on on toks 6 = Some p"
      "tok_str on toks 7 = Some ''bids''" "tok_is toks 8 JSMN_ARRAY = Some True"
      "tok_str on toks (9 + 3 * length bs) = Some ''asks''" "tok_is toks (10 + 3 * length bs) JSMN_ARRAY = Some True"
      "tok_str on toks (11 + 3 * length bs + 3 * length as) = Some ''pair''"
      "tok_is toks (12 + 3 * length bs + 3 * length as) JSMN_STRING = Some True"
      "tok_str on toks (12 + 3 * length bs + 3 * length as) = Some ins"
    and xt: "fst (strtotv p) = xt" "xt \<noteq> NOT_A_TIME"
    and pre: "pre = tvtostr xt @ [TAB] @ tvtostr rt @ [TAB] @ ins @ [TAB]" "length pre \<le> 253"
    and fits: "\<forall>l \<in> set bs \<union> set as. length (level_line pre l) \<le> 253"
  shows "\<exists>k. cex_keys on toks 5 cex_keys_init = Some (Some k) \<and> cex_print rt on toks k =
    Some (0, map (level_line (pre @ ''B2'' @ [TAB])) bs @ map (level_line (pre @ ''A2'' @ [TAB])) as)"
proof -
  define kb where "kb = 3 * length bs"
  define ka where "ka = 3 * length as"
  have lb: "length BT = kb" using list_all2_lengthD [OF bt(1)] by (simp add: kb_def)
  have la: "length AT = ka" using list_all2_lengthD [OF at(1)] by (simp add: ka_def)
  have len: "length toks = 13 + kb + ka" using toks lb la by simp
  have skip1: "tok_skip toks 9 eb = Some (9 + kb)"
    using tok_skip_over [of "A2 @ AT @ A3" eb BT A1] toks bt(2,3) lb by (cases A2) auto
  have skip2: "tok_skip toks (11 + kb) ea = Some (11 + kb + ka)"
    using tok_skip_over [of A3 ea AT "A1 @ BT @ A2"] toks at(2,3) lb la by (cases A3) auto
  define k where "k = cex_keys_init\<lparr>cex_xt := xt, cex_bids := Some 8, cex_asks := Some (10 + kb), cex_pair := Some (12 + kb + ka)\<rparr>"
  have "cex_keys on toks 5 cex_keys_init = Some (Some k)"
    using cex_keys_steps(1) [of on toks 5 p] cex_keys_steps(2) [of on toks 7 eb "9 + kb"]
      cex_keys_steps(3) [of on toks "9 + kb" ea "11 + kb + ka"] cex_keys_steps(4) [of on toks "11 + kb + ka"]
      cex_keys_steps(5) [of toks "13 + kb + ka" on] keys [folded kb_def ka_def] len skip1 skip2 xt
      ends [folded kb_def ka_def]
    by (simp add: k_def add.assoc)
  moreover have "cex_print rt on toks k =
      Some (0, map (level_line (pre @ ''B2'' @ [TAB])) bs @ map (level_line (pre @ ''A2'' @ [TAB])) as)"
  proof -
    have b: "print_pairs on toks (pre @ ''B2'' @ [TAB]) (pre @ ''B2'' @ [TAB]) 9 eb [] =
        Some (map (level_line (pre @ ''B2'' @ [TAB])) bs)"
      using print_pairs_levels [OF bt(1,2), of "A2 @ AT @ A3" "pre @ ''B2'' @ [TAB]" "pre @ ''B2'' @ [TAB]" A1 "[]"]
        toks bt(3) fits by (cases A2; cases bs) (auto simp: with_final_def level_line_def)
    have a: "print_pairs on toks (pre @ ''A2'' @ [TAB]) (pre @ ''A2'' @ [TAB]) (11 + kb) ea out =
        Some (out @ map (level_line (pre @ ''A2'' @ [TAB])) as)" for out
      using print_pairs_levels [OF at(1,2), of A3 "pre @ ''A2'' @ [TAB]" "pre @ ''A2'' @ [TAB]" "A1 @ BT @ A2" out]
        toks at(3) fits lb by (cases A3; cases as) (auto simp: with_final_def level_line_def)
    show ?thesis
      using keys(10) [folded kb_def ka_def] ends [folded kb_def] len xt(2) a b toks(5) pre
      by (simp add: cex_print_def k_def cex_keys_init_def puts_iff BUF_SIZE_def)
  qed
  ultimately show ?thesis by blast
qed

text \<open>C31. A line with the message of a book, with its time, its bids, its asks and its pair, gives one
  line for each bid and then one for each ask, in their order, with the time of the exchange, the
  time of the line, the pair, the side, the price and the quantity.\<close>

theorem cex_procln_book:
  fixes bs as :: "(string \<times> string) list" and n :: nat and ev ins :: string and rt :: tv_t
  defines "msg \<equiv> cex_msg ev (dec_string n) bs as ins"
    and "pre \<equiv> tvtostr (of_nat n * NSECS) @ [TAB] @ tvtostr rt @ [TAB] @ ins @ [TAB]"
  assumes "str_ok ev" "str_ok ins" "\<forall>l \<in> set bs \<union> set as. level_ok l \<and> length (level_line pre l) \<le> 253"
    and "length pre \<le> 253" "length (jren msg) < 2 ^ 64" "length bs + length as \<le> 20000"
    and "n < 2 ^ 64" "of_nat n * NSECS \<noteq> NOT_A_TIME" "rt \<noteq> NOT_A_TIME"
  shows "cex_procln (tvtostr rt @ TAB # jren msg @ [LF]) =
    Some (0, map (level_line (pre @ ''B2'' @ [TAB])) bs @ map (level_line (pre @ ''A2'' @ [TAB])) as)"
proof -
  define on where "on = jren msg @ [LF]"
  define toks where "toks = jtoks msg 0 0 (-1)"
  have jok: "jok msg" using assms(3-5) prim_ok_dec_string by (simp add: msg_def cex_msg_def str_ok_def)
  have cnt: "jcount msg = 13 + 3 * length bs + 3 * length as" by (simp add: msg_def cex_msg_def)
  have shows_all: "list_all2 (tok_shows on) toks (jview msg)"
    unfolding on_def toks_def by (rule json_line.toks_show)
  have js: "json_tokens 65536 on = Some (Some toks)"
    unfolding on_def toks_def using jok cnt assms(8) by (intro json_tokens_text) auto
  define pb where "pb = cex_pos_bids ev (dec_string n)"
  define pa where "pa = cex_pos_asks ev (dec_string n) bs"
  define eb where "eb = pb + length (jren (JArr (map jlevel bs)))"
  define ea where "ea = pa + length (jren (JArr (map jlevel as)))"
  obtain a0 a1 a2 a3 a4 a5 a6 a7 e e' a m m' q q' where toks: "toks = [a0, a1, a2, a3, a4, a5, a6, a7,
      mk_tok JSMN_ARRAY pb eb (length bs) 7] @ jtoks_list (map jlevel bs) (pb + 1) m q @
     [mk_tok JSMN_STRING (eb + 2) e 1 4, mk_tok JSMN_ARRAY pa ea (length as) (int (9 + 3 * length bs))] @
     jtoks_list (map jlevel as) (pa + 1) m' q' @ [mk_tok JSMN_STRING (ea + 2) e' 1 4, a]"
    using cex_toks [of ev "dec_string n" bs as ins] unfolding toks_def msg_def pb_def pa_def eb_def ea_def by blast
  have sizes: "ea + 10 < length (jren msg)" "eb < pa" "pb < eb" "pa < ea"
    by (simp_all add: pb_def pa_def eb_def ea_def cex_pos_bids_def cex_pos_asks_def msg_def cex_msg_def)
  define BT where "BT = jtoks_list (map jlevel bs) (pb + 1) m q"
  define AT where "AT = jtoks_list (map jlevel as) (pa + 1) m' q'"
  let ?V = "jview msg"
  have lt: "length toks = 13 + 3 * length bs + 3 * length as" using cnt by (simp add: toks_def)
  have acc: "tok_is toks i ty = Some (fst (?V ! i) = ty)" "tok_str on toks i = Some (snd (?V ! i))"
    if "i < 13 + 3 * length bs + 3 * length as" for i ty
    using that json_line.view_is json_line.view_str cnt unfolding toks_def on_def by simp_all
  have "fst (?V ! 6) = JSMN_PRIMITIVE" "snd (?V ! 6) = dec_string n" by (simp_all add: msg_def cex_view)
  then obtain r where r: "tok_on on toks 6 = Some (dec_string n @ r)" "delim_next r"
    using json_line.view_number [of 6 msg] cnt unfolding toks_def on_def by auto
  have xt: "fst (strtotv (dec_string n @ r)) = of_nat n * NSECS"
    using delim_ends_number [OF r(2)] assms(9) by (simp add: strtotv_def strtoul_dec_string)
  have starts: "tok_starts on toks 3 ''data'' = Some True"
    using json_line.view_starts [of 3 msg "''data''"] cnt unfolding toks_def on_def by (simp add: msg_def cex_view)
  have BT: "list_all2 (tok_shows on) BT (jview_list (map jlevel bs))"
    and AT: "list_all2 (tok_shows on) AT (jview_list (map jlevel as))"
    using shows_all unfolding toks msg_def cex_view BT_def AT_def by (auto simp: list_all2_append)
  have inB: "\<forall>t \<in> set BT. usz (tok_start t) < eb"
    using array_inside [of "map jlevel bs" _ pb m q] assms(5,7) sizes by (auto simp: BT_def eb_def)
  have inA: "\<forall>t \<in> set AT. usz (tok_start t) < ea"
    using array_inside [of "map jlevel as" _ pa m' q'] assms(5,7) sizes by (auto simp: AT_def ea_def)
  have small: "eb < 2 ^ 64" "eb + 2 < 2 ^ 64" "ea < 2 ^ 64" "ea + 2 < 2 ^ 64" using sizes assms(7) by linarith+
  have next_start: "usz (2 + int eb) = eb + 2" "usz (2 + int ea) = ea + 2"
    using small usz_small [of "eb + 2"] usz_small [of "ea + 2"] by (simp_all add: add.commute)
  have eot: "tok_eot toks 8 = Some eb" "tok_eot toks (10 + 3 * length bs) = Some ea"
    using small by (simp_all add: toks tok_eot_def nth_append)
  have "\<exists>k. cex_keys on toks 5 cex_keys_init = Some (Some k) \<and> cex_print rt on toks k =
      Some (0, map (level_line (pre @ ''B2'' @ [TAB])) bs @ map (level_line (pre @ ''A2'' @ [TAB])) as)"
  proof (rule cex_book_print [OF toks [folded BT_def AT_def] _ _ _ _ BT inB _ AT inA _ eot])
    show "tok_on on toks 6 = Some (dec_string n @ r)" by (fact r(1))
    show "fst (strtotv (dec_string n @ r)) = of_nat n * NSECS" by (fact xt)
    show "pre = tvtostr (of_nat n * NSECS) @ [TAB] @ tvtostr rt @ [TAB] @ ins @ [TAB]" by (simp add: pre_def)
    show "\<forall>l\<in>set bs \<union> set as. length (level_line pre l) \<le> 253" using assms(5) by blast
  qed (use assms(6,8,10) small lt in \<open>simp_all add: acc msg_def cex_view nth_append next_start\<close>)
  then obtain k where k: "cex_keys on toks 5 cex_keys_init = Some (Some k)" "cex_print rt on toks k =
      Some (0, map (level_line (pre @ ''B2'' @ [TAB])) bs @ map (level_line (pre @ ''A2'' @ [TAB])) as)" by blast
  have "line_time (tvtostr rt @ TAB # on) = Some (rt, on)" using assms(11) by (rule line_time_printed)
  moreover have "deref on = CHR ''{''" by (simp add: on_def msg_def cex_msg_def)
  moreover have "toks \<noteq> []" using lt by auto
  moreover have "tok_type (hd toks) = JSMN_OBJECT" by (simp add: toks_def msg_def cex_msg_def)
  moreover note lt
  moreover have "tok_is toks 3 JSMN_STRING = Some True" "tok_is toks 4 JSMN_OBJECT = Some True"
    by (simp_all add: acc msg_def cex_view)
  ultimately show ?thesis
    unfolding cex_procln_def on_def [symmetric] using js starts k by simp
qed

theorem cex_procln_book_witness:
  "cex_procln (tvtostr 7 @ TAB # jren (cex_msg ''md'' (dec_string 5) [(''241.9'', ''15'')] [(''242'', ''3'')] ''BTC:USD'') @ [LF]) =
     Some (0, [tvtostr 5000000000 @ TAB # tvtostr 7 @ TAB # ''BTC:USD'' @ TAB # ''B2'' @ TAB # ''241.9'' @ TAB # ''15'' @ [LF],
               tvtostr 5000000000 @ TAB # tvtostr 7 @ TAB # ''BTC:USD'' @ TAB # ''A2'' @ TAB # ''242'' @ TAB # ''3'' @ [LF]])"
proof -
  have "length (dec_string 5) \<le> 1" using dec_string_length [of 5 0] by simp
  then show ?thesis
    using cex_procln_book [of "''md''" "''BTC:USD''" "[(''241.9'', ''15'')]" "[(''242'', ''3'')]" 5 7]
      tvtostr_length [of 5000000000] tvtostr_length [of 7]
    by (simp add: str_ok_def level_ok_def prim_ok_def prim_char_def jdelims_def level_line_def NSECS_def NOT_A_TIME_def
        cex_msg_def jlevel_def)
qed

section \<open>Missing keys\<close>

definition cex_keys_ok :: "nat \<Rightarrow> cex_keys_t \<Rightarrow> bool" where
  "cex_keys_ok n k \<longleftrightarrow> (\<forall>i \<in> set_option (cex_pair k) \<union> set_option (cex_bids k) \<union> set_option (cex_asks k). i < n)"

lemma tok_is_len: "tok_is toks i ty = Some b \<Longrightarrow> i < length toks"
  by (auto simp: tok_is_def at_Some_iff elim!: bindE)

lemma cex_keys_in_range: "cex_keys on toks i k = Some (Some k') \<Longrightarrow> cex_keys_ok (length toks) k \<Longrightarrow> cex_keys_ok (length toks) k'"
proof (induction "length toks - i" arbitrary: i k rule: less_induct)
  case less
  have ok: "cex_keys_ok n (k\<lparr>cex_xt := t\<rparr>) = cex_keys_ok n k"
    "cex_keys_ok n k \<Longrightarrow> j < n \<Longrightarrow> cex_keys_ok n (k\<lparr>cex_pair := Some j\<rparr>)"
    "cex_keys_ok n k \<Longrightarrow> j < n \<Longrightarrow> cex_keys_ok n (k\<lparr>cex_bids := Some j\<rparr>)"
    "cex_keys_ok n k \<Longrightarrow> j < n \<Longrightarrow> cex_keys_ok n (k\<lparr>cex_asks := Some j\<rparr>)" for n t j k
    by (auto simp: cex_keys_ok_def)
  show ?case
  proof (cases "i < length toks")
    case False
    with less.prems show ?thesis by (simp add: cex_keys_steps(5))
  next
    case True
    have step: "cex_keys_ok (length toks) k'"
      if "cex_keys on toks j kk = Some (Some k')" "i < j" "cex_keys_ok (length toks) kk" for j kk
      using less.hyps [OF _ that(1,3)] that(2) True by linarith
    from less.prems True show ?thesis
      by (subst (asm) cex_keys.simps)
        (auto simp: Let_def split: if_split_asm elim!: bindE dest!: tok_skip_ge tok_is_len,
          (drule step; simp add: ok)+)
  qed
qed

text \<open>The check for the keys does not find out that one is missing: unless the time is missing as
  well, a message without its pair, its bids or its asks makes \<open>procln\<close> read the token at index -1.\<close>

theorem cex_print_missing_key:
  assumes "cex_keys on toks 5 cex_keys_init = Some (Some k)" "cex_xt k \<noteq> NOT_A_TIME"
    and "cex_pair k = None \<or> cex_bids k = None \<or> cex_asks k = None"
  shows "cex_print rt on toks k = None"
proof -
  have "cex_keys_ok (length toks) k"
    using cex_keys_in_range [OF assms(1)] by (simp add: cex_keys_ok_def cex_keys_init_def)
  then have "\<not> (\<exists>i \<in> set_option (cex_pair k) \<union> set_option (cex_bids k) \<union> set_option (cex_asks k). length toks \<le> i)"
    by (auto simp: cex_keys_ok_def)
  with assms(2,3) show ?thesis
    unfolding cex_print_def by (auto simp: Option.bind_eq_None_conv)
qed

definition cex_msg_no_pair :: jvalue where
  "cex_msg_no_pair = JObj [(''e'', JStr ''md''), (''data'', JObj [(''timestamp'', JPrim (dec_string 5))])]"

theorem cex_print_missing_key_witness:
  "\<exists>k. cex_keys (jren cex_msg_no_pair @ [LF]) (jtoks cex_msg_no_pair 0 0 (-1)) 5 cex_keys_init = Some (Some k) \<and>
    cex_print 7 (jren cex_msg_no_pair @ [LF]) (jtoks cex_msg_no_pair 0 0 (-1)) k = None"
proof -
  let ?v = cex_msg_no_pair
  let ?on = "jren ?v @ [LF]" and ?toks = "jtoks ?v 0 0 (-1)"
  have cnt: "jcount ?v = 7" by (simp add: cex_msg_no_pair_def)
  have vw: "jview ?v ! 5 = (JSMN_STRING, ''timestamp'')" "jview ?v ! 6 = (JSMN_PRIMITIVE, dec_string 5)"
    by (simp_all add: cex_msg_no_pair_def)
  obtain r where r: "tok_on ?on ?toks 6 = Some (dec_string 5 @ r)" "delim_next r"
    using json_line.view_number [of 6 ?v] cnt vw by auto
  have "fst (strtotv (dec_string 5 @ r)) = 5 * NSECS"
    using delim_ends_number [OF r(2)] by (simp add: strtotv_def strtoul_dec_string)
  then have "cex_keys ?on ?toks 5 cex_keys_init = Some (Some (cex_keys_init\<lparr>cex_xt := 5 * NSECS\<rparr>))"
    using cex_keys_steps(1) [of ?on ?toks 5 "dec_string 5 @ r"] cex_keys_steps(5) [of ?toks 7 ?on]
      json_line.view_str [of 5 ?v] json_line.view_is [of 6 ?v] r cnt vw by simp
  moreover from cex_print_missing_key [OF this] have "cex_print 7 ?on ?toks (cex_keys_init\<lparr>cex_xt := 5 * NSECS\<rparr>) = None"
    by (simp add: cex_keys_init_def NSECS_def NOT_A_TIME_def)
  ultimately show ?thesis by blast
qed

end
