(* ===== verification/Btsp2b.thy ===== *)
theory Btsp2b
  imports Convert
begin

text \<open>
  \<open>src/btsp2b.c\<close>: books and differences of books of the channels of bitstamp become lines of bids,
  then of asks; the first level of a side of a book is marked as its top. A call yields the C
  result and the lines written.
\<close>

section \<open>Values\<close>

datatype btsp_side_t = BTSP_SIDE_UNK | BTSP_SIDE_BID | BTSP_SIDE_ASK

datatype btsp_ins_t = INS_UNK | INS_BTCUSD | INS_BTCEUR | INS_EURUSD

datatype btsp_chan_t = CHAN_UNK | CHAN_TRAS | CHAN_BOOK | CHAN_DIFF | CHAN_ORDS

definition btsp_hx_evnt :: u32 where "btsp_hx_evnt = hash (take 4 ''event'')"

definition btsp_hx_data :: u32 where "btsp_hx_data = hash ''data''"

definition btsp_hx_chan :: u32 where "btsp_hx_chan = hash (take 4 ''channel'')"

definition btsp_hx_live :: u32 where "btsp_hx_live = hash ''live''"

definition btsp_hx_diff :: u32 where "btsp_hx_diff = hash (take 4 ''diff_order_book'')"

definition btsp_hx_ords :: u32 where "btsp_hx_ords = hash (take 4 ''order_book'')"

definition btsp_hx_bids :: u32 where "btsp_hx_bids = hash ''bids''"

definition btsp_hx_asks :: u32 where "btsp_hx_asks = hash ''asks''"

definition btsp_hx_btceur :: u32 where "btsp_hx_btceur = hash ''btceur''"

definition btsp_hx_eurusd :: u32 where "btsp_hx_eurusd = hash ''eurusd''"

definition btsp_hx_r_book :: u32 where "btsp_hx_r_book = hash ''r_book''"

definition btsp_hx_trades :: u32 where "btsp_hx_trades = hash ''trades''"

definition btsp_hx_orders :: u32 where "btsp_hx_orders = hash ''orders''"

text \<open>The channel; it is read from the text without regard to the length of the value.\<close>

definition btsp_snarf_chan :: "string \<Rightarrow> btsp_chan_t option" where
  "btsp_snarf_chan val = do {
     hx \<leftarrow> hash_from val 0 4;
     if hx = btsp_hx_live then do {
       hx2 \<leftarrow> hash_from val 5 6;
       c \<leftarrow> at val 4;
       Some (if c \<noteq> CHR ''_'' then CHAN_UNK
             else if hx2 = btsp_hx_orders then CHAN_ORDS
             else if hx2 = btsp_hx_trades then CHAN_TRAS else CHAN_UNK) }
     else if hx = btsp_hx_diff then do {
       hx2 \<leftarrow> hash_from val 9 6;
       Some (if hx2 = btsp_hx_r_book then CHAN_DIFF else CHAN_UNK) }
     else if hx = btsp_hx_ords then do {
       hx2 \<leftarrow> hash_from val 4 6;
       Some (if hx2 = btsp_hx_r_book then CHAN_BOOK else CHAN_UNK) }
     else Some CHAN_UNK }"

definition btsp_snarf_ins :: "string \<Rightarrow> btsp_ins_t" where
  "btsp_snarf_ins val =
     (if length val \<ge> 6
      then (let hx = hash (drop (length val - 6) val) in
            if hx = btsp_hx_orders \<or> hx = btsp_hx_trades \<or> hx = btsp_hx_r_book then INS_BTCUSD
            else if hx = btsp_hx_btceur then INS_BTCEUR
            else if hx = btsp_hx_eurusd then INS_EURUSD else INS_UNK)
      else INS_UNK)"

definition btsp_snarf_side :: "string \<Rightarrow> nat \<Rightarrow> btsp_side_t" where
  "btsp_snarf_side val len =
     (if len = 1
      then (if deref val = CHR ''0'' then BTSP_SIDE_BID else if deref val = CHR ''1'' then BTSP_SIDE_ASK
            else BTSP_SIDE_UNK)
      else BTSP_SIDE_UNK)"

fun btsp_inss :: "btsp_ins_t \<Rightarrow> string" where
  "btsp_inss INS_UNK = ''??????''"
| "btsp_inss INS_BTCUSD = ''BTCUSD''"
| "btsp_inss INS_BTCEUR = ''BTCEUR''"
| "btsp_inss INS_EURUSD = ''EURUSD''"

section \<open>A message\<close>

text \<open>What is filled in: the channel, the instrument, the event and the extent of the data.\<close>

record btsp_beef =
  btsp_ch :: btsp_chan_t
  btsp_ins :: btsp_ins_t
  btsp_ev :: u32
  btsp_dbeg :: nat
  btsp_dend :: nat

definition btsp_beef0 :: btsp_beef where
  "btsp_beef0 = \<lparr>btsp_ch = CHAN_UNK, btsp_ins = INS_UNK, btsp_ev = 0, btsp_dbeg = 0, btsp_dend = 0\<rparr>"

function btsp_fill :: "string \<Rightarrow> jsmntok_t list \<Rightarrow> nat \<Rightarrow> btsp_beef \<Rightarrow> btsp_beef option" where
  "btsp_fill on toks i beef =
     (if i < length toks then do {
        str \<leftarrow> tok_is toks i JSMN_STRING;
        if \<not> str then btsp_fill on toks (i + 1) beef else do {
        p \<leftarrow> tok_on on toks i;
        hx \<leftarrow> hash_at p 4;
        if hx = btsp_hx_chan then do {
          str \<leftarrow> tok_is toks (i + 1) JSMN_STRING;
          if \<not> str then btsp_fill on toks (i + 2) beef else do {
          vs \<leftarrow> tok_on on toks (i + 1);
          v \<leftarrow> tok_str on toks (i + 1);
          ch \<leftarrow> btsp_snarf_chan vs;
          btsp_fill on toks (i + 2) (beef\<lparr>btsp_ch := ch, btsp_ins := btsp_snarf_ins v\<rparr>) }}
        else if hx = btsp_hx_evnt then do {
          str \<leftarrow> tok_is toks (i + 1) JSMN_STRING;
          if \<not> str then btsp_fill on toks (i + 2) beef else do {
          v \<leftarrow> tok_str on toks (i + 1);
          btsp_fill on toks (i + 2) (beef\<lparr>btsp_ev := hash v\<rparr>) }}
        else if hx = btsp_hx_data then do {
          obj \<leftarrow> tok_is toks (i + 1) JSMN_OBJECT;
          if \<not> obj then btsp_fill on toks (i + 2) beef else do {
          e \<leftarrow> tok_eot toks (i + 1);
          j \<leftarrow> tok_skip (with_final toks) (i + 2) e;
          btsp_fill on toks j (beef\<lparr>btsp_dend := e, btsp_dbeg := i + 2\<rparr>) }}
        else btsp_fill on toks (i + 1) beef }}
      else Some beef)"
  by pat_completeness auto
termination
  by (relation "measure (\<lambda>(on, toks, i, beef). length toks - i)") (auto dest!: tok_skip_ge)

declare btsp_fill.simps [simp del]

text \<open>Where bids and asks begin and end in the data.\<close>

function btsp_sides ::
  "string \<Rightarrow> jsmntok_t list \<Rightarrow> nat \<Rightarrow> nat \<Rightarrow> nat \<times> nat \<Rightarrow> nat \<times> nat \<Rightarrow> ((nat \<times> nat) \<times> nat \<times> nat) option" where
  "btsp_sides on toks dend i bid ask = do {
     b \<leftarrow> tok_before (with_final toks) i dend;
     if \<not> b then Some (bid, ask) else do {
     v \<leftarrow> tok_str on toks i;
     let hx = hash v in
     if hx = btsp_hx_bids then do {
       e \<leftarrow> tok_eot toks (i + 1);
       j \<leftarrow> tok_skip (with_final toks) (i + 2) e;
       btsp_sides on toks dend j (i + 1, e) ask }
     else if hx = btsp_hx_asks then do {
       e \<leftarrow> tok_eot toks (i + 1);
       j \<leftarrow> tok_skip (with_final toks) (i + 2) e;
       btsp_sides on toks dend j bid (i + 1, e) }
     else btsp_sides on toks dend (i + 1) bid ask }}"
  by pat_completeness auto
termination
  by (relation "measure (\<lambda>(on, toks, dend, i, bid, ask). length toks + 1 - i)")
    (auto simp: with_final_def dest!: tok_skip_ge tok_before_len)

declare btsp_sides.simps [simp del]

definition btsp_book :: "tv_t \<Rightarrow> string \<Rightarrow> jsmntok_t list \<Rightarrow> btsp_beef \<Rightarrow> string list option" where
  "btsp_book rt on toks beef = do {
     ((bid, eob), (ask, eoa)) \<leftarrow> btsp_sides on toks (btsp_dend beef) (btsp_dbeg beef) (0, 0) (0, 0);
     pre \<leftarrow> puts [] [tvtostr rt, [TAB], btsp_inss (btsp_ins beef), [TAB]];
     let lvl = (if btsp_ch beef = CHAN_BOOK then ''1'' else ''2'') in do {
     b1 \<leftarrow> puts pre [''B'', lvl, [TAB]];
     b2 \<leftarrow> puts pre [''B2'', [TAB]];
     out \<leftarrow> print_pairs on toks b1 b2 (bid + 1) eob [];
     a1 \<leftarrow> puts pre [''A'', lvl, [TAB]];
     a2 \<leftarrow> puts pre [''A2'', [TAB]];
     print_pairs on toks a1 a2 (ask + 1) eoa out }}"

definition btsp_procln :: "string \<Rightarrow> (int \<times> string list) option" where
  "btsp_procln line =
     (case line_time line of
        None \<Rightarrow> Some (-1, [])
      | Some (rt, on) \<Rightarrow>
          if deref on \<noteq> CHR ''{'' then Some (-1, [])
          else do {
            r \<leftarrow> json_tokens 4096 on;
            (case r of None \<Rightarrow> Some (-1, []) | Some toks \<Rightarrow>
             if toks = [] \<or> tok_type (hd toks) \<noteq> JSMN_OBJECT then Some (-1, [])
             else do {
               check (length toks < 4096);
               beef \<leftarrow> btsp_fill on toks 1 btsp_beef0;
               (if btsp_ch beef = CHAN_BOOK \<or> btsp_ch beef = CHAN_DIFF
                then do { out \<leftarrow> btsp_book rt on toks beef; Some (0, out) }
                else Some (0, [])) }) })"

text \<open>The loop of \<open>main\<close>.\<close>

fun btsp_run :: "string list \<Rightarrow> string list option" where
  "btsp_run [] = Some []"
| "btsp_run (line # ls) = do { (rc, out) \<leftarrow> btsp_procln line; out2 \<leftarrow> btsp_run ls; Some (out @ out2) }"

end
