(* ===== verification/Plx2b.thy ===== *)
theory Plx2b
  imports Convert
begin

text \<open>
  \<open>src/plx2b.c\<close>: subscriptions, their confirmations with the identifier chosen by the exchange, and
  events of the books, which become lines. A call yields the C result, the lines written and the
  state; the warnings on the standard error are left out.
\<close>

section \<open>Data\<close>

type_synonym prim_t = u64

definition NOT_A_PRIM :: prim_t where "NOT_A_PRIM = -1"

datatype plx_side_t = PLX_SIDE_UNK | PLX_SIDE_BID | PLX_SIDE_ASK | PLX_SIDE_TRA

text \<open>The statics: what the exchange calls each subscription, its instrument in 16 bytes, and the time.\<close>

record plx_state =
  plx_subids :: "prim_t list"
  plx_subins :: "string list"
  plx_metr :: tv_t

definition plx_init :: plx_state where
  "plx_init = \<lparr>plx_subids = replicate 128 0, plx_subins = replicate 128 (replicate 16 NUL), plx_metr = 0\<rparr>"

definition plx_hx_modi :: u32 where "plx_hx_modi = hash ''orderBookModify''"

definition plx_hx_dele :: u32 where "plx_hx_dele = hash ''orderBookRemove''"

definition plx_hx_mtch :: u32 where "plx_hx_mtch = hash ''newTrade''"

text \<open>The number a text of \<open>len\<close> characters is, if it is one up to its end.\<close>

definition strtoprim :: "string \<Rightarrow> nat \<Rightarrow> prim_t" where
  "strtoprim str len =
     (case strtoul 10 str of (r, on) \<Rightarrow> if length str - length on \<noteq> len then NOT_A_PRIM else r)"

definition toktoprim :: "string \<Rightarrow> jsmntok_t list \<Rightarrow> nat \<Rightarrow> prim_t option" where
  "toktoprim base toks i = do {
     t \<leftarrow> at toks i;
     p \<leftarrow> tok_ptr base t;
     Some (strtoprim p (usz (tok_end t - tok_start t))) }"

section \<open>Instruments\<close>

definition plx_instostr :: "plx_state \<Rightarrow> nat \<Rightarrow> string option" where
  "plx_instostr st iid = do {
     s \<leftarrow> at (plx_subins st) iid;
     c \<leftarrow> at s 15;
     check (of_char c \<le> (15 :: nat));
     Some (take (15 - of_char c) s) }"

definition plx_strtoins :: "string \<Rightarrow> nat \<Rightarrow> plx_state \<Rightarrow> plx_state option" where
  "plx_strtoins ins iid st = do {
     s \<leftarrow> at (plx_subins st) iid;
     let z = (if length ins < 16 then length ins else 15) in
     Some (st\<lparr>plx_subins := (plx_subins st)[iid := (take z ins @ drop z s)[15 := char_of (15 - z)]]\<rparr>) }"

section \<open>Subscriptions\<close>

definition plx_subscr :: "plx_state \<Rightarrow> string \<Rightarrow> jsmntok_t list \<Rightarrow> (int \<times> plx_state) option" where
  "plx_subscr st base toks =
     (if length toks \<le> 4 then Some (-1, st) else do {
      prm \<leftarrow> tok_is toks 2 JSMN_PRIMITIVE;
      if \<not> prm then Some (-1, st) else do {
      str \<leftarrow> tok_is toks 4 JSMN_STRING;
      if \<not> str then Some (-1, st) else do {
      subid \<leftarrow> toktoprim base toks 2;
      if 128 \<le> subid then Some (-1, st) else do {
      ins \<leftarrow> tok_str base toks 4;
      st1 \<leftarrow> plx_strtoins ins (unat subid) (st\<lparr>plx_subids := (plx_subids st)[unat subid := 0]\<rparr>);
      Some (0, st1) }}}})"

definition plx_subscd :: "plx_state \<Rightarrow> string \<Rightarrow> jsmntok_t list \<Rightarrow> (int \<times> plx_state) option" where
  "plx_subscd st base toks =
     (if length toks \<le> 3 then Some (-1, st) else do {
      prm \<leftarrow> tok_is toks 2 JSMN_PRIMITIVE;
      if \<not> prm then Some (-1, st) else do {
      prm \<leftarrow> tok_is toks 3 JSMN_PRIMITIVE;
      if \<not> prm then Some (-1, st) else do {
      subix \<leftarrow> toktoprim base toks 2;
      subid \<leftarrow> toktoprim base toks 3;
      if 128 \<le> subix then Some (-1, st) else do {
      s \<leftarrow> at (plx_subins st) (unat subix);
      if deref s = NUL then Some (-1, st)
      else Some (0, st\<lparr>plx_subids := (plx_subids st)[unat subix := subid]\<rparr>) }}}})"

section \<open>Events\<close>

text \<open>The first subscription with an identifier.\<close>

fun plx_find :: "prim_t \<Rightarrow> prim_t list \<Rightarrow> nat \<Rightarrow> nat option" where
  "plx_find subid [] k = None"
| "plx_find subid (s # ss) k = (if s = subid then Some k else plx_find subid ss (k + 1))"

text \<open>A trade, from \<open>tra0:\<close> on, with \<open>i\<close> at the type.\<close>

definition plx_trade :: "string \<Rightarrow> jsmntok_t list \<Rightarrow> string \<Rightarrow> nat \<Rightarrow> (nat \<times> string list) option" where
  "plx_trade base toks ini i = do {
     dat \<leftarrow> tok_starts base toks (i + 1) ''data'';
     if \<not> dat then Some (i + 2, []) else do {
     obj \<leftarrow> tok_is toks (i + 2) JSMN_OBJECT;
     if \<not> obj then Some (i + 2, []) else do {
     b \<leftarrow> puts ini [''tra0'', [TAB]];
     rate \<leftarrow> tok_starts base toks (i + 7) ''rate'';
     if \<not> rate then Some (i + 2, []) else do {
     r \<leftarrow> tok_str base toks (i + 8);
     b \<leftarrow> puts b [r, [TAB]];
     amt \<leftarrow> tok_starts base toks (i + 3) ''amount'';
     if \<not> amt then Some (i + 2, []) else do {
     a \<leftarrow> tok_str base toks (i + 4);
     b \<leftarrow> puts b [a, [LF]];
     Some (i + 2, [b]) }}}}}"

text \<open>The first characters at a token.\<close>

definition tok_chars :: "string \<Rightarrow> jsmntok_t list \<Rightarrow> nat \<Rightarrow> nat \<Rightarrow> string option" where
  "tok_chars base toks i n = do {
     p \<leftarrow> tok_on base toks i;
     check (n \<le> length p + 1);
     Some (take n (p @ [NUL])) }"

text \<open>A modification or a removal, with \<open>i\<close> at the type; a removal may do without an amount.\<close>

definition plx_level ::
  "string \<Rightarrow> jsmntok_t list \<Rightarrow> string \<Rightarrow> nat \<Rightarrow> bool \<Rightarrow> nat \<Rightarrow> (nat \<times> string list) option" where
  "plx_level base toks ini eot dele i = do {
     dat \<leftarrow> tok_starts base toks (i + 1) ''data'';
     if \<not> dat then Some (i + 2, []) else do {
     obj \<leftarrow> tok_is toks (i + 2) JSMN_OBJECT;
     if \<not> obj then Some (i + 3, []) else do {
     ty \<leftarrow> tok_starts base toks (i + 3) ''type'';
     if \<not> ty then Some (i + 4, []) else do {
     sd \<leftarrow> tok_chars base toks (i + 4) 3;
     b \<leftarrow> puts ini [sd, ''2'', [TAB]];
     rate \<leftarrow> tok_starts base toks (i + 5) ''rate'';
     if \<not> rate then Some (i + 6, []) else do {
     r \<leftarrow> tok_str base toks (i + 6);
     b \<leftarrow> puts b [r, [TAB]];
     inside \<leftarrow> tok_before toks (i + 7) eot;
     if inside then do {
       amt \<leftarrow> tok_starts base toks (i + 7) ''amount'';
       if \<not> amt then Some (i + 8, []) else do {
       a \<leftarrow> tok_str base toks (i + 8);
       b \<leftarrow> puts b [a, [LF]];
       Some (i + 8, [b]) }}
     else if dele then do {
       b \<leftarrow> puts b [''0'', [LF]];
       Some (i + 7, [b]) }
     else Some (i + 7, []) }}}}}"

text \<open>One event: where the skipping to its end starts, and the lines.\<close>

definition plx_event :: "string \<Rightarrow> jsmntok_t list \<Rightarrow> string \<Rightarrow> nat \<Rightarrow> nat \<Rightarrow> (nat \<times> string list) option" where
  "plx_event base toks ini eot i = do {
     ty \<leftarrow> tok_starts base toks (i + 1) ''type'';
     if \<not> ty then Some (i + 2, []) else do {
     v \<leftarrow> tok_str base toks (i + 2);
     let hx = hash v in
     if hx = plx_hx_modi then plx_level base toks ini eot False (i + 2)
     else if hx = plx_hx_dele then plx_level base toks ini eot True (i + 2)
     else if hx = plx_hx_mtch then plx_trade base toks ini (i + 2)
     else Some (i + 2, []) }}"

lemma plx_level_forward: "forward i (plx_level base toks ini eot dele i)"
  unfolding plx_level_def by (intro forward_intros) simp_all

lemma plx_trade_forward: "forward i (plx_trade base toks ini i)"
  unfolding plx_trade_def by (intro forward_intros) simp_all

lemma plx_event_forward: "forward (i + 1) (plx_event base toks ini eot i)"
  unfolding plx_event_def Let_def
  by (intro forward_intros forward_le [OF plx_level_forward] forward_le [OF plx_trade_forward]) simp_all

function plx_events_loop ::
  "string \<Rightarrow> jsmntok_t list \<Rightarrow> string \<Rightarrow> nat \<Rightarrow> nat \<Rightarrow> string list \<Rightarrow> string list option" where
  "plx_events_loop base toks ini n i out = do {
     b \<leftarrow> tok_before toks i n;
     if \<not> b then Some out else do {
     eot \<leftarrow> tok_eot toks i;
     (j, ls) \<leftarrow> plx_event base toks ini eot i;
     k \<leftarrow> tok_skip toks j eot;
     plx_events_loop base toks ini n k (out @ ls) }}"
  by pat_completeness auto
termination
  by (relation "measure (\<lambda>(base, toks, ini, n, i, out). length toks - i)")
    (auto dest!: forwardD [OF plx_event_forward] tok_skip_ge tok_before_len)

declare plx_events_loop.simps [simp del]

definition plx_events :: "plx_state \<Rightarrow> string \<Rightarrow> jsmntok_t list \<Rightarrow> (int \<times> string list) option" where
  "plx_events st base toks =
     (if length toks \<le> 8 then Some (-1, []) else do {
      prm \<leftarrow> tok_is toks 2 JSMN_PRIMITIVE;
      if \<not> prm then Some (-1, []) else do {
      arr \<leftarrow> tok_is toks 5 JSMN_ARRAY;
      if \<not> arr then Some (-1, []) else do {
      obj \<leftarrow> tok_is toks 6 JSMN_OBJECT;
      if \<not> obj then Some (-1, []) else do {
      subid \<leftarrow> toktoprim base toks 2;
      (case plx_find subid (plx_subids st) 0 of
         None \<Rightarrow> Some (-1, [])
       | Some subix \<Rightarrow> do {
           ins \<leftarrow> plx_instostr st subix;
           ini \<leftarrow> puts [] [tvtostr (plx_metr st), [TAB], ins, [TAB]];
           n \<leftarrow> tok_eot toks 5;
           out \<leftarrow> plx_events_loop base toks ini n 6 [];
           Some (0, out) }) }}}})"

section \<open>Lines\<close>

definition plx_procln :: "plx_state \<Rightarrow> string \<Rightarrow> (int \<times> string list \<times> plx_state) option" where
  "plx_procln st line =
     (case strtotv line of (t, p) \<Rightarrow>
        let st1 = st\<lparr>plx_metr := t\<rparr> in
        case line_time line of
          None \<Rightarrow> Some (-1, [], st1)
        | Some (_, on) \<Rightarrow>
            if deref on \<noteq> CHR ''['' then Some (-1, [], st1)
            else do {
              r \<leftarrow> json_tokens 65536 on;
              (case r of None \<Rightarrow> Some (-1, [], st1) | Some toks \<Rightarrow>
               if toks = [] \<or> tok_type (hd toks) \<noteq> JSMN_ARRAY then Some (-1, [], st1) else do {
               prm \<leftarrow> tok_is toks 1 JSMN_PRIMITIVE;
               if \<not> prm then Some (-1, [], st1) else do {
               x \<leftarrow> toktoprim on toks 1;
               if x = 32 then do { (rc, st2) \<leftarrow> plx_subscr st1 on toks; Some (0, [], st2) }
               else if x = 33 then do { (rc, st2) \<leftarrow> plx_subscd st1 on toks; Some (0, [], st2) }
               else if x = 36 then do { (rc, out) \<leftarrow> plx_events st1 on toks; Some (0, out, st1) }
               else Some (0, [], st1) }}) })"

text \<open>The loop of \<open>main\<close>.\<close>

fun plx_run :: "plx_state \<Rightarrow> string list \<Rightarrow> (string list \<times> plx_state) option" where
  "plx_run st [] = Some ([], st)"
| "plx_run st (line # ls) = do {
     (rc, out, st1) \<leftarrow> plx_procln st line;
     (out2, st2) \<leftarrow> plx_run st1 ls;
     Some (out @ out2, st2) }"

end
