(* ===== verification/Trt2b.thy ===== *)
theory Trt2b
  imports Convert
begin

text \<open>
  \<open>src/trt2b.c\<close>: complete books and single changes of a book become lines. A call yields the C
  result and the lines written; the warnings on the standard error, and the number of the line that
  they mention, are left out.
\<close>

datatype trt_side_t = TRT_SIDE_UNK | TRT_SIDE_BID | TRT_SIDE_ASK | TRT_SIDE_TRA

section \<open>Keys\<close>

definition trt_hx_evt :: u32 where "trt_hx_evt = hash ''event''"

definition trt_hx_dat :: u32 where "trt_hx_dat = hash ''data''"

definition trt_hx_obk :: u32 where "trt_hx_obk = hash ''orderbook''"

definition trt_hx_odf :: u32 where "trt_hx_odf = hash ''orderbook_diff''"

definition trt_hx_cha :: u32 where "trt_hx_cha = hash ''channel''"

definition GET_TOK :: "string \<Rightarrow> jsmntok_t list \<Rightarrow> nat \<Rightarrow> u32 option" where
  "GET_TOK on toks i = map_option hash (tok_str on toks i)"

section \<open>Books\<close>

text \<open>The levels from \<open>j\<close> on: where they end and the lines.\<close>

function trt_levels ::
  "string \<Rightarrow> jsmntok_t list \<Rightarrow> string \<Rightarrow> nat \<Rightarrow> nat \<Rightarrow> string list \<Rightarrow> (nat \<times> string list) option" where
  "trt_levels on toks in2 n j out =
     (if j < length toks then do {
        b \<leftarrow> tok_before toks j n;
        if \<not> b then Some (j, out) else do {
        px \<leftarrow> tok_str on toks (j + 2);
        len \<leftarrow> puts in2 [px, [TAB]];
        qx \<leftarrow> tok_str on toks (j + 4);
        l \<leftarrow> puts len [qx, [LF]];
        trt_levels on toks in2 n (j + 5) (out @ [l]) }}
      else Some (j, out))"
  by pat_completeness auto
termination
  by (relation "measure (\<lambda>(on, toks, in2, n, j, out). length toks - j)") auto

declare trt_levels.simps [simp del]

definition proc_obk :: "tv_t \<Rightarrow> string \<Rightarrow> jsmntok_t list \<Rightarrow> (int \<times> string list) option" where
  "proc_obk rt on toks = do {
     ini \<leftarrow> puts [] [tvtostr rt, [TAB]];
     check (2 \<le> length toks);
     hx \<leftarrow> GET_TOK on toks (length toks - 2);
     if hx \<noteq> trt_hx_cha then Some (-1, []) else do {
     ch \<leftarrow> tok_str on toks (length toks - 1);
     ini \<leftarrow> puts ini [ch, [TAB]];
     clr \<leftarrow> puts ini [''clr0'', [TAB], [TAB], [LF]];
     in2 \<leftarrow> puts ini [''ask2'', [TAB]];
     n \<leftarrow> tok_eot toks 6;
     (j, out) \<leftarrow> trt_levels on toks in2 n 7 [clr];
     in2 \<leftarrow> puts ini [''bid2'', [TAB]];
     n \<leftarrow> tok_eot toks (j + 1);
     (j2, out2) \<leftarrow> trt_levels on toks in2 n (j + 2) out;
     Some (0, out2) }}"

definition proc_odf :: "tv_t \<Rightarrow> string \<Rightarrow> jsmntok_t list \<Rightarrow> (int \<times> string list) option" where
  "proc_odf rt on toks = do {
     len \<leftarrow> puts [] [tvtostr rt, [TAB]];
     check (2 \<le> length toks);
     hx \<leftarrow> GET_TOK on toks (length toks - 2);
     if hx \<noteq> trt_hx_cha then Some (-1, []) else do {
     ch \<leftarrow> tok_str on toks (length toks - 1);
     len \<leftarrow> puts len [ch, [TAB]];
     s \<leftarrow> tok_str on toks 6;
     len \<leftarrow> puts len [s, ''2'', [TAB]];
     px \<leftarrow> tok_str on toks 8;
     len \<leftarrow> puts len [px, [TAB]];
     qx \<leftarrow> tok_str on toks 10;
     l \<leftarrow> puts len [qx, [LF]];
     Some (0, [l]) }}"

section \<open>Lines\<close>

definition trt_procln :: "string \<Rightarrow> (int \<times> string list) option" where
  "trt_procln line =
     (case line_time line of
        None \<Rightarrow> Some (-1, [])
      | Some (rt, on) \<Rightarrow>
          if deref on \<noteq> CHR ''{'' then Some (-1, [])
          else do {
            r \<leftarrow> json_tokens 4096 on;
            (case r of None \<Rightarrow> Some (-1, []) | Some toks \<Rightarrow>
             if toks = [] \<or> tok_type (hd toks) \<noteq> JSMN_OBJECT then Some (-1, []) else do {
             str \<leftarrow> tok_is toks 1 JSMN_STRING;
             if \<not> str then Some (-1, []) else do {
             e1 \<leftarrow> GET_TOK on toks 1;
             if e1 \<noteq> trt_hx_evt then Some (-1, []) else do {
             e3 \<leftarrow> GET_TOK on toks 3;
             if e3 \<noteq> trt_hx_dat then Some (-1, []) else do {
             e \<leftarrow> GET_TOK on toks 2;
             if e = trt_hx_obk then proc_obk rt on toks
             else if e = trt_hx_odf then proc_odf rt on toks
             else Some (0, []) }}}}) })"

text \<open>The loop of \<open>main\<close>.\<close>

fun trt_run :: "string list \<Rightarrow> string list option" where
  "trt_run [] = Some []"
| "trt_run (line # ls) = do { (rc, out) \<leftarrow> trt_procln line; out2 \<leftarrow> trt_run ls; Some (out @ out2) }"

end
