(* ===== verification/Trt2b_Props.thy ===== *)
theory Trt2b_Props
  imports Trt2b Convert_Json
begin










end
