(* ===== verification/Dates.thy ===== *)
theory Dates
  imports Convert
begin

text \<open>
  Dates as three of the converters read them: \<open>strptime\<close> for the two formats in use, \<open>timegm\<close>, both
  of the C library, and the fractions of a second behind a date.
\<close>

section \<open>Fractions\<close>

text \<open>Fractions of a second in nanoseconds, and where they end, which is not written without any.\<close>

definition strtons :: "string \<Rightarrow> tv_t \<times> string option" where
  "strtons buf =
     (if deref buf \<noteq> CHR ''.'' then (0, None)
      else (case strtoul 10 (tl buf) of (r, on) \<Rightarrow>
              let d = length (tl buf) - length on in (if d \<le> 8 then r * 10 ^ (9 - d) else r, Some on)))"

section \<open>Dates\<close>

text \<open>
  A number of at most \<open>n\<close> digits between \<open>lo\<close> and \<open>hi\<close>, as \<open>strptime\<close> reads it: white space
  first, and no digit more than the upper bound allows for.
\<close>

fun sp_digits :: "nat \<Rightarrow> nat \<Rightarrow> nat \<Rightarrow> string \<Rightarrow> nat \<times> string" where
  "sp_digits hi 0 v s = (v, s)"
| "sp_digits hi (Suc n) v s =
     (case s of
        [] \<Rightarrow> (v, s)
      | c # cs \<Rightarrow>
          (case digit_val c of
             None \<Rightarrow> (v, s)
           | Some d \<Rightarrow> if v * 10 \<le> hi \<and> d < 10 then sp_digits hi n (v * 10 + d) cs else (v, s)))"

definition sp_number :: "nat \<Rightarrow> nat \<Rightarrow> nat \<Rightarrow> string \<Rightarrow> (nat \<times> string) option" where
  "sp_number lo hi n s0 =
     (let s = dropWhile is_space s0 in
      case digit_val (deref s) of
        None \<Rightarrow> None
      | Some d \<Rightarrow>
          if 10 \<le> d then None
          else (case sp_digits hi n 0 s of (v, r) \<Rightarrow> if lo \<le> v \<and> v \<le> hi then Some (v, r) else None))"

definition sp_char :: "char \<Rightarrow> string \<Rightarrow> string option" where
  "sp_char c s = (if deref s = c then Some (tl s) else None)"

record tm_t =
  tm_year :: nat
  tm_mon :: nat
  tm_mday :: nat
  tm_hour :: nat
  tm_min :: nat
  tm_sec :: nat

text \<open>\<open>%T\<close>, behind a date.\<close>

definition sp_clock :: "nat \<Rightarrow> nat \<Rightarrow> nat \<Rightarrow> string \<Rightarrow> (tm_t \<times> string) option" where
  "sp_clock Y m d s = do {
     (H, s) \<leftarrow> sp_number 0 23 2 s; s \<leftarrow> sp_char (CHR '':'') s;
     (M, s) \<leftarrow> sp_number 0 59 2 s; s \<leftarrow> sp_char (CHR '':'') s;
     (S, s) \<leftarrow> sp_number 0 61 2 s;
     Some (\<lparr>tm_year = Y, tm_mon = m, tm_mday = d, tm_hour = H, tm_min = M, tm_sec = S\<rparr>, s) }"

text \<open>\<open>strptime (s, "%FT%T", tm)\<close> and \<open>strptime (s, "%Y%m%d-%T", tm)\<close>, with the year and the month as they
  are read.\<close>

definition strptime_FT :: "string \<Rightarrow> (tm_t \<times> string) option" where
  "strptime_FT s = do {
     (Y, s) \<leftarrow> sp_number 0 9999 4 s; s \<leftarrow> sp_char (CHR ''-'') s;
     (m, s) \<leftarrow> sp_number 1 12 2 s; s \<leftarrow> sp_char (CHR ''-'') s;
     (d, s) \<leftarrow> sp_number 1 31 2 s; s \<leftarrow> sp_char (CHR ''T'') s;
     sp_clock Y m d s }"

definition strptime_YmdT :: "string \<Rightarrow> (tm_t \<times> string) option" where
  "strptime_YmdT s = do {
     (Y, s) \<leftarrow> sp_number 0 9999 4 s;
     (m, s) \<leftarrow> sp_number 1 12 2 s;
     (d, s) \<leftarrow> sp_number 1 31 2 s; s \<leftarrow> sp_char (CHR ''-'') s;
     sp_clock Y m d s }"

text \<open>\<open>timegm\<close>: days of the Gregorian calendar, counted from March on, from the first of January 1970.\<close>

definition days_from_civil :: "int \<Rightarrow> int \<Rightarrow> int \<Rightarrow> int" where
  "days_from_civil y m d =
     (let y1 = (if m \<le> 2 then y - 1 else y);
          m1 = (if m \<le> 2 then m + 9 else m - 3) in
      365 * y1 + y1 div 4 - y1 div 100 + y1 div 400 + (153 * m1 + 2) div 5 + d - 1 - 719468)"

definition timegm :: "tm_t \<Rightarrow> int" where
  "timegm t = ((days_from_civil (int (tm_year t)) (int (tm_mon t)) (int (tm_mday t)) * 24
     + int (tm_hour t)) * 60 + int (tm_min t)) * 60 + int (tm_sec t)"

end
