(* ===== verification/Coin2b.thy ===== *)
theory Coin2b
  imports Dates
begin

text \<open>
  \<open>src/coin2b.c\<close>: each event of an order becomes a line. A call yields the C result and the lines
  written.
\<close>

section \<open>Values\<close>

datatype coin_type_t = TYPE_UNK | TYPE_OPEN | TYPE_DONE | TYPE_MTCH

datatype coin_side_t = COIN_SIDE_UNK | COIN_SIDE_BID | COIN_SIDE_ASK

definition coin_snarf_type :: "string \<Rightarrow> coin_type_t" where
  "coin_snarf_type val =
     (if deref val = CHR ''o'' then TYPE_OPEN else if deref val = CHR ''d'' then TYPE_DONE
      else if deref val = CHR ''m'' then TYPE_MTCH else TYPE_UNK)"

definition coin_snarf_side :: "string \<Rightarrow> coin_side_t" where
  "coin_snarf_side val =
     (if deref val = CHR ''b'' then COIN_SIDE_BID else if deref val = CHR ''s'' then COIN_SIDE_ASK
      else COIN_SIDE_UNK)"

fun coin_sides :: "coin_side_t \<Rightarrow> string" where
  "coin_sides COIN_SIDE_UNK = ''???3''"
| "coin_sides COIN_SIDE_BID = ''BID3''"
| "coin_sides COIN_SIDE_ASK = ''ASK3''"

section \<open>Keys\<close>

definition coin_hx_type :: u32 where "coin_hx_type = hash ''type''"

definition coin_hx_side :: u32 where "coin_hx_side = hash ''side''"

definition coin_hx_time :: u32 where "coin_hx_time = hash ''time''"

definition coin_hx_prod :: u32 where "coin_hx_prod = hash (take 4 ''product_id'')"

definition coin_hx_pric :: u32 where "coin_hx_pric = hash (take 4 ''price'')"

definition coin_hx_size :: u32 where "coin_hx_size = hash ''size''"

definition coin_hx_rsiz :: u32 where "coin_hx_rsiz = hash (take 4 ''remaining_size'')"

section \<open>A message\<close>

text \<open>What is filled in; the price and the quantity are buffers of 16 bytes.\<close>

record coin_beef =
  coin_xt :: tv_t
  coin_rt :: tv_t
  coin_ins :: string
  coin_sd :: coin_side_t
  coin_p :: string
  coin_q :: string
  coin_ty :: coin_type_t

definition coin_beef0 :: coin_beef where
  "coin_beef0 = \<lparr>coin_xt = 0, coin_rt = 0, coin_ins = [], coin_sd = COIN_SIDE_UNK,
     coin_p = replicate 16 NUL, coin_q = replicate 16 NUL, coin_ty = TYPE_UNK\<rparr>"

text \<open>\<open>memcpy\<close> into such a buffer: what is behind the text stays.\<close>

definition copy16 :: "string \<Rightarrow> string \<Rightarrow> string option" where
  "copy16 buf v = (if length v \<le> 16 then Some (v @ drop (length v) buf) else None)"

definition strlen_text :: "string \<Rightarrow> string option" where
  "strlen_text buf = (if NUL \<in> set buf then Some (takeWhile (\<lambda>c. c \<noteq> NUL) buf) else None)"

text \<open>The date of an event. A date that is not one makes \<open>strtons\<close> read through \<open>NULL\<close>.\<close>

definition coin_time :: "string \<Rightarrow> tv_t option" where
  "coin_time vs = do {
     (tm, nanos) \<leftarrow> strptime_FT vs;
     Some (of_int (timegm tm) * NSECS + fst (strtons nanos)) }"

text \<open>The loop over the tokens; \<open>None\<close> inside is the short-cut for types that are of no interest.\<close>

function coin_fill :: "string \<Rightarrow> jsmntok_t list \<Rightarrow> nat \<Rightarrow> coin_beef \<Rightarrow> coin_beef option option" where
  "coin_fill on toks i beef =
     (if i < length toks then do {
        str \<leftarrow> tok_is toks i JSMN_STRING;
        if \<not> str then coin_fill on toks (i + 1) beef else do {
        p \<leftarrow> tok_on on toks i;
        hx \<leftarrow> hash_at p 4;
        if hx = coin_hx_type then do {
          str \<leftarrow> tok_is toks (i + 1) JSMN_STRING;
          if \<not> str then coin_fill on toks (i + 2) beef else do {
          vs \<leftarrow> tok_on on toks (i + 1);
          if coin_snarf_type vs = TYPE_UNK then Some None
          else coin_fill on toks (i + 2) (beef\<lparr>coin_ty := coin_snarf_type vs\<rparr>) }}
        else if hx = coin_hx_side then do {
          str \<leftarrow> tok_is toks (i + 1) JSMN_STRING;
          if \<not> str then coin_fill on toks (i + 2) beef else do {
          vs \<leftarrow> tok_on on toks (i + 1);
          coin_fill on toks (i + 2) (beef\<lparr>coin_sd := coin_snarf_side vs\<rparr>) }}
        else if hx = coin_hx_size \<or> hx = coin_hx_rsiz then do {
          str \<leftarrow> tok_is toks (i + 1) JSMN_STRING;
          if \<not> str then coin_fill on toks (i + 2) beef else do {
          v \<leftarrow> tok_str on toks (i + 1);
          q \<leftarrow> copy16 (coin_q beef) v;
          coin_fill on toks (i + 2) (beef\<lparr>coin_q := q\<rparr>) }}
        else if hx = coin_hx_time then do {
          str \<leftarrow> tok_is toks (i + 1) JSMN_STRING;
          if \<not> str then coin_fill on toks (i + 2) beef else do {
          vs \<leftarrow> tok_on on toks (i + 1);
          xt \<leftarrow> coin_time vs;
          coin_fill on toks (i + 2) (beef\<lparr>coin_xt := xt\<rparr>) }}
        else if hx = coin_hx_pric then do {
          str \<leftarrow> tok_is toks (i + 1) JSMN_STRING;
          if \<not> str then coin_fill on toks (i + 2) beef else do {
          v \<leftarrow> tok_str on toks (i + 1);
          p \<leftarrow> copy16 (coin_p beef) v;
          coin_fill on toks (i + 2) (beef\<lparr>coin_p := p\<rparr>) }}
        else if hx = coin_hx_prod then do {
          str \<leftarrow> tok_is toks (i + 1) JSMN_STRING;
          if \<not> str then coin_fill on toks (i + 2) beef else do {
          v \<leftarrow> tok_str on toks (i + 1);
          coin_fill on toks (i + 2) (beef\<lparr>coin_ins := v\<rparr>) }}
        else coin_fill on toks (i + 1) beef }}
      else Some (Some beef))"
  by pat_completeness auto
termination
  by (relation "measure (\<lambda>(on, toks, i, beef). length toks - i)") simp_all

declare coin_fill.simps [simp del]

definition coin_print :: "coin_beef \<Rightarrow> (int \<times> string list) option" where
  "coin_print beef = do {
     q0 \<leftarrow> at (coin_q beef) 0;
     q1 \<leftarrow> at (coin_q beef) 1;
     if q0 = NUL \<or> q0 = CHR ''0'' \<and> q1 = NUL then Some (0, []) else do {
     pre \<leftarrow> puts [] [tvtostr (coin_xt beef), [TAB], tvtostr (coin_rt beef), [TAB], coin_ins beef, [TAB],
       coin_sides (coin_sd beef), [TAB]];
     p \<leftarrow> strlen_text (coin_p beef);
     len \<leftarrow> puts pre [p, [TAB], if coin_ty beef \<noteq> TYPE_OPEN then ''-'' else []];
     q \<leftarrow> strlen_text (coin_q beef);
     l \<leftarrow> puts len [q, [LF]];
     Some (0, [l]) }}"

definition coin_procln :: "string \<Rightarrow> (int \<times> string list) option" where
  "coin_procln line =
     (case line_time line of
        None \<Rightarrow> Some (-1, [])
      | Some (rt, on) \<Rightarrow>
          if deref on \<noteq> CHR ''{'' then Some (-1, [])
          else do {
            r \<leftarrow> json_tokens 64 on;
            (case r of None \<Rightarrow> Some (-1, []) | Some toks \<Rightarrow>
             if toks = [] \<or> tok_type (hd toks) \<noteq> JSMN_OBJECT then Some (-1, []) else do {
             b \<leftarrow> coin_fill on toks 1 (coin_beef0\<lparr>coin_rt := rt\<rparr>);
             (case b of None \<Rightarrow> Some (0, []) | Some beef \<Rightarrow> coin_print beef) }) })"

text \<open>The loop of \<open>main\<close>.\<close>

fun coin_run :: "string list \<Rightarrow> string list option" where
  "coin_run [] = Some []"
| "coin_run (line # ls) = do { (rc, out) \<leftarrow> coin_procln line; out2 \<leftarrow> coin_run ls; Some (out @ out2) }"

end
