(* ===== verification/Fix2b.thy ===== *)
theory Fix2b
  imports Dates Fix
begin

text \<open>
  \<open>src/btcc2b.c\<close> and \<open>src/ok2b.c\<close>: the entries of FIX messages with market data become lines. A
  message is what \<open>fix_parse\<close> makes of a line, so its fields end in NUL. A call yields the C
  result and the lines written; the warnings on the standard error are left out.
\<close>

section \<open>Texts with NUL\<close>

definition cstr :: "string \<Rightarrow> string" where
  "cstr on = takeWhile (\<lambda>c. c \<noteq> NUL) on"

definition past_cstr :: "string \<Rightarrow> string" where
  "past_cstr on = dropWhile (\<lambda>c. c \<noteq> NUL) on"

text \<open>\<open>memcmp\<close> at a pointer: the terminating NUL is read if what is before it agrees, what is behind
  it must not be.\<close>

definition memcmp_mem :: "string \<Rightarrow> string \<Rightarrow> bool option" where
  "memcmp_mem p s =
     (let q = p @ [NUL] in
      if length q < length s \<and> take (length q) s = q then None else Some (take (length s) q = s))"

definition fix_tim :: string where "fix_tim = NUL # ''52=''"

definition fix_ins :: string where "fix_ins = NUL # ''55=''"

definition fix_ccy :: string where "fix_ccy = NUL # ''15=''"

definition fix_nup :: string where "fix_nup = NUL # ''268=''"

definition fix_ety :: string where "fix_ety = NUL # ''269=''"

definition fix_prc :: string where "fix_prc = NUL # ''270=''"

definition fix_qty :: string where "fix_qty = NUL # ''271=''"

lemma xmemmem_str_shorter: "xmemmem_str hay ndl = Some r \<Longrightarrow> ndl \<noteq> [] \<Longrightarrow> length r < length hay"
proof -
  assume r: "xmemmem_str hay ndl = Some r" and n: "ndl \<noteq> []"
  then obtain b where b: "find_after (bytes_of ndl) (bytes_of hay) = Some b" "r = drop (length hay - length b) hay"
    by (auto simp: xmemmem_str_def xmemmem_correct)
  have "length b + length ndl \<le> length hay" using find_after_length [OF b(1)] by simp
  moreover have "0 < length ndl" using n by simp
  ultimately have "length b < length hay" by linarith
  with b(2) show ?thesis by simp
qed

lemma past_cstr_le: "length (past_cstr on) \<le> length on"
  by (simp add: past_cstr_def length_dropWhile_le)

text \<open>The time of the message, if there is one.\<close>

definition fix_time :: "string \<Rightarrow> tv_t option" where
  "fix_time msg = do {
     on \<leftarrow> xmemmem_str msg fix_tim;
     (tm, on) \<leftarrow> strptime_YmdT on;
     Some (of_int (timegm tm) * NSECS + fst (strtons on)) }"

section \<open>btcc2b\<close>

definition btcc_side :: "char \<Rightarrow> string option" where
  "btcc_side c = (if c = CHR ''0'' then Some ''BID'' else if c = CHR ''1'' then Some ''ASK''
     else if c = CHR ''2'' then Some ''TRA'' else None)"

text \<open>The level: 0 for trades; else 1, or for the instruments with depth 2, 3 in increments.\<close>

definition btcc_level :: "char \<Rightarrow> string \<Rightarrow> bool \<Rightarrow> string option" where
  "btcc_level ty inp quote = do {
     depth \<leftarrow> (if deref inp = CHR ''X'' then Some True
       else do { c \<leftarrow> at (inp @ [NUL]) 3; Some (c = CHR ''U'') });
     Some (if \<not> quote then ''0'' else if \<not> depth then ''1'' else if ty = CHR ''X'' then ''3'' else ''2'') }"

text \<open>An entry, from its kind on; \<open>inp\<close> points at the instrument. The lines, where the scan goes on, and
  the instrument.\<close>

definition btcc_entry :: "char \<Rightarrow> string \<Rightarrow> string \<Rightarrow> string \<Rightarrow> (string list \<times> string \<times> string) option" where
  "btcc_entry ty pre on inp = do {
     check (on \<noteq> []);
     (case btcc_side (deref on) of
        None \<Rightarrow> Some ([], tl on, inp)
      | Some side \<Rightarrow> do {
          has_ins \<leftarrow> memcmp_mem (tl on) fix_ins;
          (inp, on) \<leftarrow> Some (if has_ins then (drop 4 (tl on), past_cstr (drop 4 (tl on))) else (inp, tl on));
          b \<leftarrow> puts pre [cstr inp, [TAB], side];
          l \<leftarrow> btcc_level ty inp (side \<noteq> ''TRA'');
          b \<leftarrow> puts b [l];
          has_prc \<leftarrow> memcmp_mem on fix_prc;
          if \<not> has_prc then Some ([], on, inp) else do {
          b \<leftarrow> puts b [[TAB], cstr (drop 5 on)];
          on \<leftarrow> Some (past_cstr (drop 5 on));
          has_qty \<leftarrow> memcmp_mem on fix_qty;
          on \<leftarrow> Some (if has_qty then drop 5 on else on);
          b \<leftarrow> puts b (if has_qty then [[TAB], cstr on, [LF]] else [[LF]]);
          Some ([b], on, inp) }}) }"

text \<open>A step over an entry that does not go back.\<close>

definition not_longer :: "string \<Rightarrow> ('a \<times> string \<times> 'b) option \<Rightarrow> bool" where
  "not_longer s m \<longleftrightarrow> (\<forall>a r b. m = Some (a, r, b) \<longrightarrow> length r \<le> length s)"

lemma not_longer_intros:
  "length r \<le> length s \<Longrightarrow> not_longer s (Some (a, r, b))"
  "(\<And>y. f = Some y \<Longrightarrow> not_longer s (g y)) \<Longrightarrow> not_longer s (Option.bind f g)"
  "not_longer s x \<Longrightarrow> not_longer s y \<Longrightarrow> not_longer s (if c then x else y)"
  by (auto simp: not_longer_def Option.bind_eq_Some_conv)

lemma past_cstr_le2:
  assumes "length on \<le> n + k"
  shows "length (past_cstr on) - k \<le> n" "length (past_cstr on) \<le> n + k"
  using past_cstr_le [of on] assms by simp_all

lemmas past_cstr_bounds = past_cstr_le2 past_cstr_le2 [where k = 0, simplified]
  past_cstr_le2 [where k = 1, simplified]

lemma btcc_entry_forward: "not_longer on (btcc_entry ty pre on inp)"
  unfolding btcc_entry_def
  by (cases "btcc_side (deref on)")
    (auto intro!: not_longer_intros past_cstr_bounds split: if_split_asm, linarith+)

text \<open>The loop over the entries.\<close>

function btcc_entries :: "char \<Rightarrow> string \<Rightarrow> string \<Rightarrow> string \<Rightarrow> string list \<Rightarrow> string list option" where
  "btcc_entries ty pre on inp out =
     (case xmemmem_str on fix_ety of
        None \<Rightarrow> Some out
      | Some on1 \<Rightarrow> do {
          (ls, on2, inp2) \<leftarrow> btcc_entry ty pre on1 inp;
          btcc_entries ty pre on2 inp2 (out @ ls) })"
  by pat_completeness auto
termination
proof (relation "measure (\<lambda>(ty, pre, on, inp, out). length on)", goal_cases)
  case (2 ty pre on inp out on1)
  then have "length on1 < length on" by (auto dest: xmemmem_str_shorter simp: fix_ety_def)
  with 2 btcc_entry_forward [of on1 ty pre inp] show ?case by (auto simp: not_longer_def)
qed simp

declare btcc_entries.simps [simp del]

definition btcc_route_quote :: "char \<Rightarrow> string \<Rightarrow> string \<Rightarrow> (int \<times> string list) option" where
  "btcc_route_quote ty msg prfx =
     (case fix_time msg of
        None \<Rightarrow> Some (-1, [])
      | Some t \<Rightarrow> do {
          pre \<leftarrow> puts [] [tvtostr t, [TAB], prfx];
          (case xmemmem_str msg fix_ins of
             None \<Rightarrow> Some (-1, [])
           | Some inp \<Rightarrow>
               (case xmemmem_str msg fix_nup of
                  None \<Rightarrow> Some (-1, [])
                | Some on \<Rightarrow> do { out \<leftarrow> btcc_entries ty pre on inp []; Some (0, out) })) })"

text \<open>
  The line without what is in front of the first tab is a message; the prefix, with its tab, is
  written again behind the time.
\<close>

definition fix_line :: "string \<Rightarrow> (string \<times> (char \<times> string) option) option" where
  "fix_line ln =
     (let prfz = (case memchr TAB ln of None \<Rightarrow> 0 | Some r \<Rightarrow> length ln - length r + 1);
          txt = drop prfz ln in do {
        (msg, buf) \<leftarrow> fix_parse (txt @ [NUL]) (length txt);
        (case msg of
           None \<Rightarrow> Some (take prfz ln, None)
         | Some (ty, k, len) \<Rightarrow> do {
             check (k \<le> length txt);
             Some (take prfz ln, Some (ty, drop k (take (length txt) buf))) }) })"

definition btcc_procln :: "string \<Rightarrow> (int \<times> string list) option" where
  "btcc_procln ln = do {
     (prfx, m) \<leftarrow> fix_line ln;
     (case m of
        None \<Rightarrow> Some (0, [])
      | Some (ty, msg) \<Rightarrow>
          if ty = CHR ''W'' \<or> ty = CHR ''X'' then do { (rc, out) \<leftarrow> btcc_route_quote ty msg prfx; Some (0, out) }
          else Some (0, [])) }"

fun btcc_run :: "string list \<Rightarrow> string list option" where
  "btcc_run [] = Some []"
| "btcc_run (line # ls) = do { (rc, out) \<leftarrow> btcc_procln line; out2 \<leftarrow> btcc_run ls; Some (out @ out2) }"

section \<open>ok2b\<close>

definition ok_side :: "char \<Rightarrow> string option" where
  "ok_side c = (if c = CHR ''0'' then Some ''BID2'' else if c = CHR ''1'' then Some ''ASK2'' else None)"

text \<open>
  An entry, from its kind on. The quantity is looked for behind the price and one field further:
  \<open>on += strlen(++on)\<close> is read as a step over the NUL and then over the field.
\<close>

definition ok_entry :: "string \<Rightarrow> string \<Rightarrow> (string list \<times> string \<times> unit) option" where
  "ok_entry pre on = do {
     check (on \<noteq> []);
     (case ok_side (deref on) of
        None \<Rightarrow> Some ([], tl on, ())
      | Some side \<Rightarrow> do {
          b \<leftarrow> puts pre [side, [TAB]];
          has_prc \<leftarrow> memcmp_mem (tl on) fix_prc;
          if \<not> has_prc then Some ([], tl on, ()) else do {
          b \<leftarrow> puts b [cstr (drop 5 (tl on))];
          on \<leftarrow> Some (past_cstr (drop 5 (tl on)));
          here \<leftarrow> memcmp_mem on fix_qty;
          check (here \<or> on \<noteq> []);
          on \<leftarrow> Some (if here then on else past_cstr (tl on));
          has_qty \<leftarrow> (if here then Some True else memcmp_mem on fix_qty);
          if \<not> has_qty then Some ([], on, ()) else do {
          on \<leftarrow> Some (drop 5 on);
          b \<leftarrow> puts b [[TAB], cstr on, [LF]];
          Some ([b], on, ()) }}}) }"

lemma ok_entry_forward: "not_longer on (ok_entry pre on)"
  unfolding ok_entry_def
  by (cases "ok_side (deref on)")
    (auto intro!: not_longer_intros past_cstr_bounds split: if_split_asm, linarith+)

function ok_entries :: "string \<Rightarrow> string \<Rightarrow> string list \<Rightarrow> string list option" where
  "ok_entries pre on out =
     (case xmemmem_str on fix_ety of
        None \<Rightarrow> Some out
      | Some on1 \<Rightarrow> do { (ls, on2, u) \<leftarrow> ok_entry pre on1; ok_entries pre on2 (out @ ls) })"
  by pat_completeness auto
termination
proof (relation "measure (\<lambda>(pre, on, out). length on)", goal_cases)
  case (2 pre on out on1)
  then have "length on1 < length on" by (auto dest: xmemmem_str_shorter simp: fix_ety_def)
  with 2 ok_entry_forward [of on1 pre] show ?case by (auto simp: not_longer_def)
qed simp

declare ok_entries.simps [simp del]

definition ok_route_quote :: "string \<Rightarrow> string \<Rightarrow> bool \<Rightarrow> (int \<times> string list) option" where
  "ok_route_quote msg prfx rstp =
     (case fix_time msg of
        None \<Rightarrow> Some (-1, [])
      | Some t \<Rightarrow> do {
          pre \<leftarrow> puts [] [tvtostr t, [TAB], prfx];
          (case xmemmem_str msg fix_ins of
             None \<Rightarrow> Some (-1, [])
           | Some ins \<Rightarrow> do {
               pre \<leftarrow> puts pre [cstr ins];
               pre \<leftarrow> (case xmemmem_str msg fix_ccy of None \<Rightarrow> Some pre | Some ccy \<Rightarrow> puts pre [''/'', cstr ccy]);
               pre \<leftarrow> puts pre [[TAB]];
               (case xmemmem_str msg fix_nup of
                  None \<Rightarrow> Some (-1, [])
                | Some on \<Rightarrow> do {
                    clr \<leftarrow> (if rstp then do { b \<leftarrow> puts pre [''clr0'', [TAB], [TAB], [LF]]; Some [b] } else Some []);
                    out \<leftarrow> ok_entries pre on clr;
                    Some (0, out) }) }) })"

definition ok_procln :: "string \<Rightarrow> (int \<times> string list) option" where
  "ok_procln ln = do {
     (prfx, m) \<leftarrow> fix_line ln;
     (case m of
        None \<Rightarrow> Some (0, [])
      | Some (ty, msg) \<Rightarrow>
          if ty = CHR ''W'' then do { (rc, out) \<leftarrow> ok_route_quote msg prfx True; Some (0, out) }
          else if ty = CHR ''X'' then do { (rc, out) \<leftarrow> ok_route_quote msg prfx False; Some (0, out) }
          else Some (0, [])) }"

fun ok_run :: "string list \<Rightarrow> string list option" where
  "ok_run [] = Some []"
| "ok_run (line # ls) = do { (rc, out) \<leftarrow> ok_procln line; out2 \<leftarrow> ok_run ls; Some (out @ out2) }"

end
