(* ===== verification/Fix2b_Props.thy ===== *)
theory Fix2b_Props
  imports Fix2b
begin

text \<open>
  Properties of \<open>src/ok2b.c\<close>: a message with market data becomes a line for each bid and ask in it.
\<close>

section \<open>Searching\<close>

lemma xmemmem_str_eq: "xmemmem_str hay ndl = find_after ndl hay"
proof -
  have inj: "inj byte_of_char" by (simp add: inj_def)
  have m: "find_after (bytes_of ndl) (bytes_of hay) = map_option bytes_of (find_after ndl hay)"
    using find_after_map [OF inj, of ndl hay] by (simp add: bytes_of_def [abs_def])
  have "suffix r hay" if "find_after ndl hay = Some r" for r
    using that by (induction ndl hay rule: find_after.induct)
      (auto split: if_split_asm intro: suffix_ConsI suffix_drop simp del: drop_Cons')
  then have suf: "drop (length hay - length r) hay = r" if "find_after ndl hay = Some r" for r
    using that by (fastforce simp: suffix_def)
  show ?thesis unfolding xmemmem_str_def xmemmem_correct m
    by (cases "find_after ndl hay") (simp_all add: suf)
qed

lemma cstr_append: "NUL \<notin> set s \<Longrightarrow> r = [] \<or> hd r = NUL \<Longrightarrow> cstr (s @ r) = s \<and> past_cstr (s @ r) = r"
  by (induction s) (cases r; auto simp: cstr_def past_cstr_def)+

section \<open>Messages\<close>

text \<open>An entry: its kind, the price and the quantity.\<close>

type_synonym fix_ety_t = "char \<times> string \<times> string"

text \<open>The number of a field behind the NUL that ends the one before.\<close>

definition fix_tag :: "string \<Rightarrow> string" where
  "fix_tag n = NUL # n @ ''=''"

lemma fix_tag_fields:
  "fix_tag ''55'' = fix_ins" "fix_tag ''15'' = fix_ccy" "fix_tag ''268'' = fix_nup" "fix_tag ''269'' = fix_ety"
  "fix_tag ''270'' = fix_prc" "fix_tag ''271'' = fix_qty"
  by (simp_all add: fix_tag_def fix_ins_def fix_ccy_def fix_nup_def fix_ety_def fix_prc_def fix_qty_def)

definition ety_text :: "fix_ety_t \<Rightarrow> string" where
  "ety_text = (\<lambda>(sd, p, q). fix_tag ''269'' @ sd # fix_tag ''270'' @ p @ fix_tag ''271'' @ q)"

definition ety_ok :: "fix_ety_t \<Rightarrow> bool" where
  "ety_ok = (\<lambda>(sd, p, q). NUL \<notin> set p \<and> NUL \<notin> set q)"

text \<open>Kind 0 is a bid and kind 1 an ask.\<close>

definition ok_lines :: "string \<Rightarrow> fix_ety_t \<Rightarrow> string list" where
  "ok_lines pre = (\<lambda>(sd, p, q).
     if sd = CHR ''0'' then [pre @ ''BID2'' @ [TAB] @ p @ [TAB] @ q @ [LF]]
     else if sd = CHR ''1'' then [pre @ ''ASK2'' @ [TAB] @ p @ [TAB] @ q @ [LF]]
     else [])"

lemma ok_lines_side:
  "ok_lines pre (sd, p, q) =
     (case ok_side sd of None \<Rightarrow> [] | Some side \<Rightarrow> [pre @ side @ [TAB] @ p @ [TAB] @ q @ [LF]])"
  by (simp add: ok_lines_def ok_side_def)

definition etys_text :: "fix_ety_t list \<Rightarrow> string \<Rightarrow> string" where
  "etys_text es tr = concat (map ety_text es) @ tr"

text \<open>What ends the message.\<close>

definition trailer :: "string \<Rightarrow> bool" where
  "trailer tr \<longleftrightarrow> (tr = [] \<or> hd tr = NUL) \<and> \<not> sublist (fix_tag ''269'') tr"

lemma etys_text_starts: "trailer tr \<Longrightarrow> etys_text es tr = [] \<or> hd (etys_text es tr) = NUL"
  by (cases es) (auto simp: etys_text_def ety_text_def trailer_def fix_tag_def split: prod.splits)

lemmas fix_tags = fix_ety_def fix_prc_def fix_qty_def

lemma find_ety_skip: "NUL \<notin> set s \<Longrightarrow> find_after fix_ety (s @ r) = find_after fix_ety r"
  unfolding fix_ety_def by (rule find_after_skip)

lemma find_ety_tags:
  "find_after fix_ety (fix_prc @ r) = find_after fix_ety r" "find_after fix_ety (fix_qty @ r) = find_after fix_ety r"
  "find_after fix_ety (fix_ety @ r) = Some r"
  by (simp_all add: fix_tags)

lemma memcmp_tags:
  "memcmp_mem (fix_prc @ r) fix_prc = Some True" "memcmp_mem (fix_qty @ r) fix_qty = Some True"
  by (simp_all add: memcmp_mem_def fix_tags)

lemma ok_side_length: "ok_side sd = Some side \<Longrightarrow> length side = 4"
  by (auto simp: ok_side_def split: if_split_asm)

lemma ok_entry_line:
  assumes "ety_ok (sd, p, q)" "r = [] \<or> hd r = NUL" "length pre + length p + length q + 7 \<le> 256"
  shows "\<exists>on. ok_entry pre (sd # fix_prc @ p @ fix_qty @ q @ r) = Some (ok_lines pre (sd, p, q), on, ())
    \<and> find_after fix_ety on = find_after fix_ety r"
proof (cases "ok_side sd")
  case None
  then show ?thesis using assms(1)
    by (simp add: ok_entry_def ok_lines_side find_ety_tags find_ety_skip ety_ok_def)
next
  case (Some side)
  have p: "drop 5 (fix_prc @ p @ fix_qty @ q @ r) = p @ fix_qty @ q @ r" "cstr (p @ fix_qty @ q @ r) = p"
    "past_cstr (p @ fix_qty @ q @ r) = fix_qty @ q @ r"
    using cstr_append [of p "fix_qty @ q @ r"] assms(1) by (simp_all add: fix_tags ety_ok_def)
  have q: "drop 5 (fix_qty @ q @ r) = q @ r" "cstr (q @ r) = q"
    using cstr_append [of q r] assms(1,2) by (simp_all add: fix_tags ety_ok_def)
  have "ok_entry pre (sd # fix_prc @ p @ fix_qty @ q @ r) = Some ([pre @ side @ [TAB] @ p @ [TAB] @ q @ [LF]], q @ r, ())"
    using Some assms(3) ok_side_length [OF Some] by (simp add: ok_entry_def puts_iff memcmp_tags p q BUF_SIZE_def
      del: drop_append)
  with Some assms(1) show ?thesis by (simp add: ok_lines_side find_ety_skip ety_ok_def)
qed

lemma ok_entries_lines:
  assumes "\<forall>e \<in> set es. ety_ok e" "trailer tr"
    and "\<forall>(sd, p, q) \<in> set es. length pre + length p + length q + 7 \<le> 256"
  shows "find_after fix_ety on = find_after fix_ety (etys_text es tr) \<Longrightarrow>
    ok_entries pre on out = Some (out @ concat (map (ok_lines pre) es))"
  using assms
proof (induction es arbitrary: on out)
  case Nil
  then show ?case
    using find_after_None_iff [of fix_ety tr] by (simp add: ok_entries.simps xmemmem_str_eq etys_text_def trailer_def fix_tag_fields)
next
  case (Cons e es)
  obtain sd p q where e: "e = (sd, p, q)" by (cases e)
  let ?r = "etys_text es tr"
  have "etys_text (e # es) tr = fix_ety @ sd # fix_prc @ p @ fix_qty @ q @ ?r"
    by (simp add: etys_text_def ety_text_def fix_tag_fields e)
  then have f: "xmemmem_str on fix_ety = Some (sd # fix_prc @ p @ fix_qty @ q @ ?r)"
    using Cons.prems(1) by (simp add: xmemmem_str_eq find_ety_tags)
  obtain on2 where on2: "ok_entry pre (sd # fix_prc @ p @ fix_qty @ q @ ?r) = Some (ok_lines pre e, on2, ())"
    "find_after fix_ety on2 = find_after fix_ety ?r"
    using ok_entry_line [of sd p q ?r pre] etys_text_starts [OF Cons.prems(3), of es] Cons.prems(2,4) by (auto simp: e)
  have "ok_entries pre on2 (out @ ok_lines pre e) = Some ((out @ ok_lines pre e) @ concat (map (ok_lines pre) es))"
    by (rule Cons.IH) (use on2(2) Cons.prems in auto)
  with f on2(1) show ?case by (simp add: ok_entries.simps [of pre on])
qed

section \<open>Properties\<close>

text \<open>C38. A message with an instrument, without a currency, and with a group of entries becomes, behind a
  line that resets the book if it is a full refresh, a line for each bid and ask, in their order, with
  the time of the message, the prefix of the line, the instrument, the side, the price and the
  quantity; entries of other kinds are left out. None of these lines may have more than 256 characters,
  which the code does not check.\<close>

theorem ok_route_quote_lines:
  assumes "msg = h @ fix_tag ''55'' @ ins @ fix_tag ''268'' @ n @ etys_text es tr"
    and "fix_time msg = Some t"
    and "\<not> sublist (fix_tag ''55'') (h @ butlast (fix_tag ''55''))" "\<not> sublist (fix_tag ''15'') msg"
    and "\<not> sublist (fix_tag ''268'') ((h @ fix_tag ''55'' @ ins) @ butlast (fix_tag ''268''))"
    and "NUL \<notin> set ins" "NUL \<notin> set n" "trailer tr"
    and "\<And>e. e \<in> set es \<Longrightarrow> ety_ok e"
    and "pre = tvtostr t @ [TAB] @ prfx @ ins @ [TAB]" "length pre + 7 \<le> 256"
    and "\<And>sd p q. (sd, p, q) \<in> set es \<Longrightarrow> length pre + length p + length q + 7 \<le> 256"
  shows "ok_route_quote msg prfx rstp =
    Some (0, (if rstp then [pre @ ''clr0'' @ [TAB, TAB, LF]] else []) @ concat (map (ok_lines pre) es))"
proof -
  note fields = assms(1,3-5) [unfolded fix_tag_fields]
  have ins: "xmemmem_str msg fix_ins = Some (ins @ fix_nup @ n @ etys_text es tr)"
    unfolding xmemmem_str_eq fields(1) by (rule find_after_first) (use fields(2) in \<open>simp_all add: fix_ins_def\<close>)
  have "find_after fix_nup ((h @ fix_ins @ ins) @ fix_nup @ n @ etys_text es tr) = Some (n @ etys_text es tr)"
    by (rule find_after_first) (use fields(4) in \<open>simp_all add: fix_nup_def\<close>)
  then have nup: "xmemmem_str msg fix_nup = Some (n @ etys_text es tr)" by (simp add: xmemmem_str_eq fields(1))
  have ccy: "xmemmem_str msg fix_ccy = None"
    using fields(3) find_after_None_iff [of fix_ccy msg] by (simp add: xmemmem_str_eq)
  have c: "cstr (ins @ fix_nup @ n @ etys_text es tr) = ins"
    using cstr_append [OF assms(6), of "fix_nup @ n @ etys_text es tr"] by (simp add: fix_nup_def)
  have "ok_entries pre (n @ etys_text es tr) out = Some (out @ concat (map (ok_lines pre) es))" for out
    by (rule ok_entries_lines) (use assms(7-9,12) in \<open>auto simp: find_ety_skip\<close>)
  with ins nup ccy c assms(2,10,11) show ?thesis
    by (simp add: ok_route_quote_def puts_iff BUF_SIZE_def)
qed

definition ok_front :: string where
  "ok_front = NUL # ''34=2'' @ fix_tag ''52'' @ ''19700101-00:00:05''"

definition ok_trailer :: string where
  "ok_trailer = NUL # ''10=000'' @ [NUL]"

definition ok_example :: "string" where
  "ok_example = ok_front @ fix_tag ''55'' @ ''BTC/USD'' @ fix_tag ''268'' @ ''2'' @
     etys_text [(CHR ''0'', ''1.5'', ''2''), (CHR ''1'', ''1.6'', ''30'')] ok_trailer"

lemma ok_example_time: "fix_time ok_example = Some 5000000000"
  unfolding fix_time_def xmemmem_str_eq by code_simp

lemma ok_example_time_text: "tvtostr 5000000000 = ''5.000000000''"
  by code_simp

theorem ok_route_quote_lines_witness:
  "ok_route_quote ok_example [] True = Some (0,
     [''5.000000000'' @ [TAB] @ ''BTC/USD'' @ [TAB] @ ''clr0'' @ [TAB, TAB, LF],
      ''5.000000000'' @ [TAB] @ ''BTC/USD'' @ [TAB] @ ''BID2'' @ [TAB] @ ''1.5'' @ [TAB] @ ''2'' @ [LF],
      ''5.000000000'' @ [TAB] @ ''BTC/USD'' @ [TAB] @ ''ASK2'' @ [TAB] @ ''1.6'' @ [TAB] @ ''30'' @ [LF]])"
proof -
  have "ok_route_quote ok_example [] True = Some (0,
      (if True then [(''5.000000000'' @ [TAB] @ ''BTC/USD'' @ [TAB]) @ ''clr0'' @ [TAB, TAB, LF]] else []) @
      concat (map (ok_lines (''5.000000000'' @ [TAB] @ ''BTC/USD'' @ [TAB]))
        [(CHR ''0'', ''1.5'', ''2''), (CHR ''1'', ''1.6'', ''30'')]))"
  proof (rule ok_route_quote_lines [OF ok_example_def ok_example_time])
    show "\<not> sublist (fix_tag ''55'') (ok_front @ butlast (fix_tag ''55''))" by code_simp
    show "\<not> sublist (fix_tag ''15'') ok_example" by code_simp
    show "\<not> sublist (fix_tag ''268'') ((ok_front @ fix_tag ''55'' @ ''BTC/USD'') @ butlast (fix_tag ''268''))" by code_simp
    show "trailer ok_trailer" by code_simp
  qed (auto simp: ok_example_time_text ety_ok_def)
  then show ?thesis by (simp add: ok_lines_def)
qed

end
