(* ===== verification/Massage.thy ===== *)
theory Massage
  imports Wssnarf_Log
begin

text \<open>
  The \<open>massage\<close> hooks of \<open>src/btsp.c\<close>, \<open>src/trtwss.c\<close>, \<open>src/paymium.c\<close> and \<open>src/spacebtc.c\<close>. These
  exchanges send objects as escaped strings inside of objects. Before a line is logged the quotes
  around these strings are dropped and their escapes undone, all in place. The loop is the same in
  all four; what differs is how the opening quote of the next such string is found, the parameter
  \<open>nxt\<close> of the definitions. The message starts at index 0 of \<open>mem\<close> and ends in front of \<open>eob\<close>; what
  follows in \<open>mem\<close> is the rest of the buffer. A result of \<open>None\<close> is an access behind the buffer.
\<close>

abbreviation QUOTE :: byte where "QUOTE \<equiv> 0x22"
abbreviation BSLASH :: byte where "BSLASH \<equiv> 0x5C"

section \<open>Finding the strings\<close>

text \<open>
  The copies of \<open>xmemmem\<close> that yield where the needle is found. Behind the end of the message the
  size passed, \<open>eob - bp\<close>, wraps around: \<open>memchr\<close> goes on to the first character of the needle,
  wherever that is, and the needle does not fit in front of the end.
\<close>

definition xmemmem_at :: "byte list \<Rightarrow> nat \<Rightarrow> nat \<Rightarrow> byte list \<Rightarrow> nat option option" where
  "xmemmem_at mem bp eob ndl =
     (if bp \<le> eob then do {
        hay \<leftarrow> buf_get mem bp (eob - bp);
        Some (map_option (\<lambda>r. eob - length r - length ndl) (xmemmem hay ndl)) }
      else if hd ndl \<in> set (drop bp mem) then Some None else None)"

function skip_blanks :: "byte list \<Rightarrow> nat \<Rightarrow> nat option" where
  "skip_blanks mem i =
     (if i < length mem then (if mem ! i \<le> 0x20 then skip_blanks mem (i + 1) else Some i) else None)"
  by pat_completeness auto
termination by (relation "measure (\<lambda>(mem, i). length mem - i)") auto

declare skip_blanks.simps [simp del]

definition data_tok :: "byte list" where
  "data_tok = [QUOTE, 0x64, 0x61, 0x74, 0x61, QUOTE]"

lemma xmemmem_at_range:
  "xmemmem_at mem bp eob ndl = Some (Some p) \<Longrightarrow> bp \<le> p \<and> p + length ndl \<le> eob \<and> eob \<le> length mem"
  by (auto simp: xmemmem_at_def buf_get_def xmemmem_correct split: if_split_asm elim!: bind_elims
      dest!: find_after_length)

lemma skip_blanks_range: "skip_blanks mem i = Some j \<Longrightarrow> i \<le> j \<and> j < length mem"
proof (induction mem i rule: skip_blanks.induct)
  case (1 mem i)
  from "1.prems" "1.IH" show ?case unfolding skip_blanks.simps [of mem i] by (auto split: if_split_asm)
qed

text \<open>
  \<open>next_data\<close>: the opening quote of the value of the next key \<open>data\<close> whose value is a string. The
  blanks around the colon are skipped without regard to the end of the message.
\<close>

function next_data :: "byte list \<Rightarrow> nat \<Rightarrow> nat \<Rightarrow> nat option option" where
  "next_data mem bp eob =
     (case xmemmem_at mem bp eob data_tok of
        None \<Rightarrow> None
      | Some None \<Rightarrow> Some None
      | Some (Some p) \<Rightarrow>
          (case skip_blanks mem (p + length data_tok) of
             None \<Rightarrow> None
           | Some i \<Rightarrow>
               if mem ! i \<noteq> 0x3A then next_data mem (i + 1) eob
               else (case skip_blanks mem (i + 1) of
                  None \<Rightarrow> None
                | Some j \<Rightarrow> if mem ! j \<noteq> QUOTE then next_data mem (j + 1) eob else Some (Some j))))"
  by pat_completeness auto
termination
  by (relation "measure (\<lambda>(mem, bp, eob). length mem - bp)")
    (auto dest!: xmemmem_at_range skip_blanks_range)

declare next_data.simps [simp del]

text \<open>In \<open>src/paymium.c\<close> and \<open>src/spacebtc.c\<close>: the quote of the next \<open>,"\<close>.\<close>

definition next_comma :: "byte list \<Rightarrow> nat \<Rightarrow> nat \<Rightarrow> nat option option" where
  "next_comma mem bp eob = map_option (map_option Suc) (xmemmem_at mem bp eob [0x2C, QUOTE])"

section \<open>Dropping the escapes\<close>

text \<open>The inner loop: \<open>x\<close> is the character last read, \<open>t\<close> where to write.\<close>

function unesc_loop :: "byte list \<Rightarrow> nat \<Rightarrow> nat \<Rightarrow> (byte list \<times> nat \<times> nat) option" where
  "unesc_loop mem x t =
     (if x + 1 < length mem \<and> t < length mem
      then (let c = mem ! (x + 1); mem1 = mem[t := c] in
         if c = BSLASH
         then (if x + 2 < length mem then unesc_loop (mem1[t := mem1 ! (x + 2)]) (x + 2) (t + 1) else None)
         else if c = QUOTE then Some (mem1, x + 2, t)
         else unesc_loop mem1 (x + 1) (t + 1))
      else None)"
  by pat_completeness auto
termination by (relation "measure (\<lambda>(mem, x, t). length mem - x)") auto

declare unesc_loop.simps [simp del]

lemma unesc_loop_range: "unesc_loop mem x t = Some (mem1, x1, t1) \<Longrightarrow> length mem1 = length mem \<and> x < x1 \<and> x1 \<le> length mem"
proof (induction mem x t rule: unesc_loop.induct)
  case (1 mem x t)
  from "1.prems" "1.IH" show ?case
    unfolding unesc_loop.simps [of mem x t] by (fastforce simp: Let_def split: if_split_asm)
qed

text \<open>The outer loop: \<open>x\<close> is the opening quote. The sizes of the moves must not be negative.\<close>

function massage_loop ::
  "(byte list \<Rightarrow> nat \<Rightarrow> nat \<Rightarrow> nat option option) \<Rightarrow> byte list \<Rightarrow> nat \<Rightarrow> nat \<Rightarrow> nat \<Rightarrow> (byte list \<times> nat) option" where
  "massage_loop nxt mem x t eob =
     (case unesc_loop mem x t of
        None \<Rightarrow> None
      | Some (mem1, x1, t1) \<Rightarrow>
          (case nxt mem1 x1 eob of
             None \<Rightarrow> None
           | Some None \<Rightarrow> do {
               check (x1 \<le> eob);
               mv \<leftarrow> buf_get mem1 x1 (eob - x1);
               mem2 \<leftarrow> buf_put mem1 t1 mv;
               Some (mem2, t1 + length mv) }
           | Some (Some y) \<Rightarrow>
               if x1 \<le> y then do {
                 mv \<leftarrow> buf_get mem1 x1 (y - x1);
                 mem2 \<leftarrow> buf_put mem1 t1 mv;
                 massage_loop nxt mem2 y (t1 + length mv) eob }
               else None))"
  by pat_completeness auto
termination
  by (relation "measure (\<lambda>(nxt, mem, x, t, eob). length mem - x)")
    (auto dest!: unesc_loop_range buf_put_length)

declare massage_loop.simps [simp del]

definition massage_in :: "(byte list \<Rightarrow> nat \<Rightarrow> nat \<Rightarrow> nat option option) \<Rightarrow> byte list \<Rightarrow> nat \<Rightarrow> (byte list \<times> nat) option" where
  "massage_in nxt mem bsz =
     (case nxt mem 0 bsz of
        None \<Rightarrow> None
      | Some None \<Rightarrow> Some (mem, bsz)
      | Some (Some x) \<Rightarrow> massage_loop nxt mem x x bsz)"

definition btsp_massage :: "byte list \<Rightarrow> nat \<Rightarrow> (byte list \<times> nat) option" where
  "btsp_massage = massage_in next_data"

definition paymium_massage :: "byte list \<Rightarrow> nat \<Rightarrow> (byte list \<times> nat) option" where
  "paymium_massage = massage_in next_comma"

text \<open>The other two are copies.\<close>

definition trtwss_massage :: "byte list \<Rightarrow> nat \<Rightarrow> (byte list \<times> nat) option" where
  "trtwss_massage = massage_in next_data"

definition spacebtc_massage :: "byte list \<Rightarrow> nat \<Rightarrow> (byte list \<times> nat) option" where
  "spacebtc_massage = massage_in next_comma"

end
