(* ===== verification/Massage_Props.thy ===== *)
theory Massage_Props
  imports Massage
begin

text \<open>
  The \<open>massage\<close> hooks compute in place what a function on the message alone computes, whatever
  follows in the buffer, and undo the escaping of the strings they look for.
\<close>

section \<open>On the message alone\<close>

fun unesc :: "byte list \<Rightarrow> (byte list \<times> byte list) option" where
  "unesc [] = None"
| "unesc (c # r) =
     (if c = BSLASH then (case r of [] \<Rightarrow> None | d # r1 \<Rightarrow> map_option (\<lambda>(u, s). (d # u, s)) (unesc r1))
      else if c = QUOTE then Some ([], r)
      else map_option (\<lambda>(u, s). (c # u, s)) (unesc r))"

lemma unesc_lengths: "unesc s = Some (u, r) \<Longrightarrow> length u + length r < length s"
proof (induction s arbitrary: u rule: unesc.induct)
  case (2 c s)
  from "2.prems" show ?case
  proof (cases "c = BSLASH")
    case True
    with "2.prems" obtain d s1 u1 where s: "s = d # s1" "unesc s1 = Some (u1, r)" "u = d # u1"
      by (auto split: list.splits)
    with "2.IH"(1) [OF True, of d s1 u1] show ?thesis by simp
  next
    case False
    with "2.prems" "2.IH"(2) show ?thesis by (fastforce split: if_split_asm)
  qed
qed simp

lemma unesc_rest: "unesc s = Some (u, r) \<Longrightarrow> drop (length s - length r) s = r"
proof (induction s arbitrary: u rule: unesc.induct)
  case (2 c s)
  have le: "length r < length (c # s)" using unesc_lengths [OF "2.prems"] by simp
  have "r = s \<or> drop (length s - length r) s = r"
  proof (cases "c = BSLASH")
    case True
    with "2.prems" obtain d s1 u1 where s: "s = d # s1" "unesc s1 = Some (u1, r)"
      by (auto split: list.splits)
    with "2.IH"(1) [OF True, of d s1 u1] unesc_lengths [OF s(2)] show ?thesis by (simp add: Suc_diff_le)
  next
    case False
    with "2.prems" "2.IH"(2) show ?thesis by (auto split: if_split_asm)
  qed
  with le show ?case by (auto simp: Suc_diff_le drop_Cons')
qed simp

text \<open>The message with its strings unescaped and their quotes dropped.\<close>

function massaged :: "(byte list \<Rightarrow> nat \<Rightarrow> nat \<Rightarrow> nat option option) \<Rightarrow> byte list \<Rightarrow> byte list option" where
  "massaged nxt s =
     (case nxt s 0 (length s) of
        None \<Rightarrow> None
      | Some None \<Rightarrow> Some s
      | Some (Some k) \<Rightarrow>
          (case unesc (drop (k + 1) s) of
             None \<Rightarrow> None
           | Some (u, r) \<Rightarrow> map_option (\<lambda>v. take k s @ u @ v) (massaged nxt r)))"
  by pat_completeness auto
termination
  by (relation "measure (\<lambda>(nxt, s). length s)") (auto dest!: unesc_lengths)

declare massaged.simps [simp del]

section \<open>The inner loop\<close>

lemma unesc_in_place:
  assumes "unesc (drop (x + 1) (take eob mem)) = Some (u, r)" "t \<le> x" "eob \<le> length mem"
  shows "\<exists>mem1. unesc_loop mem x t = Some (mem1, eob - length r, t + length u) \<and> length mem1 = length mem
    \<and> take (t + length u) mem1 = take t mem @ u \<and> drop (eob - length r) mem1 = drop (eob - length r) mem
    \<and> t + length u < eob - length r \<and> x < eob - length r"
  using assms
proof (induction mem x t arbitrary: u rule: unesc_loop.induct)
  case (1 mem x t)
  let ?c = "mem ! (x + 1)"
  let ?mem1 = "mem[t := ?c]"
  have x: "x + 1 < eob"
  proof (rule ccontr)
    assume "\<not> x + 1 < eob"
    with "1.prems"(1) show False by simp
  qed
  then have s: "drop (x + 1) (take eob mem) = ?c # drop (x + 2) (take eob mem)"
    using "1.prems"(3) by (simp add: Cons_nth_drop_Suc [symmetric])
  have in_mem: "x + 1 < length mem \<and> t < length mem" using x "1.prems" by simp
  show ?case
  proof (cases "?c = BSLASH")
    case True
    have x2: "x + 2 < eob"
    proof (rule ccontr)
      assume "\<not> x + 2 < eob"
      with "1.prems"(1) s True show False by simp
    qed
    let ?mem2 = "?mem1[t := mem ! (x + 2)]"
    have s2: "drop (x + 2) (take eob mem) = mem ! (x + 2) # drop (x + 3) (take eob mem)"
      using x2 "1.prems"(3) by (simp add: Cons_nth_drop_Suc [symmetric] numeral_3_eq_3)
    with "1.prems"(1) s True obtain u1 where
      u1: "u = mem ! (x + 2) # u1" "unesc (drop (x + 3) (take eob mem)) = Some (u1, r)" by auto
    have keep: "drop (x + 3) (take eob ?mem2) = drop (x + 3) (take eob mem)" "?mem1 ! (x + 2) = mem ! (x + 2)"
      using "1.prems"(2) by (simp_all add: take_update_swap)
    have "\<exists>mem1. unesc_loop ?mem2 (x + 2) (t + 1) = Some (mem1, eob - length r, t + 1 + length u1)
      \<and> length mem1 = length ?mem2 \<and> take (t + 1 + length u1) mem1 = take (t + 1) ?mem2 @ u1
      \<and> drop (eob - length r) mem1 = drop (eob - length r) ?mem2 \<and> t + 1 + length u1 < eob - length r \<and> x + 2 < eob - length r"
      using "1.IH"(1) [OF in_mem refl refl True, of u1] x2 "1.prems" u1(2) keep by (simp add: eval_nat_numeral)
    then obtain mem1 where m: "unesc_loop ?mem2 (x + 2) (t + 1) = Some (mem1, eob - length r, t + 1 + length u1)"
      "length mem1 = length mem" "take (t + 1 + length u1) mem1 = take (t + 1) ?mem2 @ u1"
      "drop (eob - length r) mem1 = drop (eob - length r) ?mem2" "t + 1 + length u1 < eob - length r" "x + 2 < eob - length r"
      by auto
    moreover have "take (t + 1) ?mem2 = take t mem @ [mem ! (x + 2)]"
      using in_mem by (simp add: take_Suc_conv_app_nth)
    moreover have "drop (eob - length r) ?mem2 = drop (eob - length r) mem" using m(5) by simp
    ultimately show ?thesis
      using True in_mem x2 "1.prems"(3) u1(1) keep(2) unfolding unesc_loop.simps [of mem x t] by (simp add: Let_def)
  next
    case nb: False
    show ?thesis
    proof (cases "?c = QUOTE")
      case True
      with nb "1.prems"(1) s have "u = []" "r = drop (x + 2) (take eob mem)" by auto
      moreover from this have "eob - length r = x + 2" using x "1.prems"(3) by simp
      ultimately show ?thesis
        using True in_mem "1.prems"(2) unfolding unesc_loop.simps [of mem x t] by (simp add: Let_def)
    next
      case False
      with nb "1.prems"(1) s obtain u1 where
        u1: "u = ?c # u1" "unesc (drop (x + 2) (take eob mem)) = Some (u1, r)" by auto
      have keep: "drop (x + 2) (take eob ?mem1) = drop (x + 2) (take eob mem)"
        using "1.prems"(2) by (simp add: take_update_swap)
      have "\<exists>mem1. unesc_loop ?mem1 (x + 1) (t + 1) = Some (mem1, eob - length r, t + 1 + length u1)
        \<and> length mem1 = length ?mem1 \<and> take (t + 1 + length u1) mem1 = take (t + 1) ?mem1 @ u1
        \<and> drop (eob - length r) mem1 = drop (eob - length r) ?mem1 \<and> t + 1 + length u1 < eob - length r \<and> x + 1 < eob - length r"
        using "1.IH"(2) [OF in_mem refl refl nb False, of u1] x "1.prems" u1(2) keep by simp
      then obtain mem1 where m: "unesc_loop ?mem1 (x + 1) (t + 1) = Some (mem1, eob - length r, t + 1 + length u1)"
        "length mem1 = length mem" "take (t + 1 + length u1) mem1 = take (t + 1) ?mem1 @ u1"
        "drop (eob - length r) mem1 = drop (eob - length r) ?mem1" "t + 1 + length u1 < eob - length r" "x + 1 < eob - length r"
        by auto
      moreover have "take (t + 1) ?mem1 = take t mem @ [?c]"
        using in_mem by (simp add: take_Suc_conv_app_nth)
      moreover have "drop (eob - length r) ?mem1 = drop (eob - length r) mem" using m(5) by simp
      ultimately show ?thesis
        using False nb in_mem u1(1) unfolding unesc_loop.simps [of mem x t] by (simp add: Let_def)
    qed
  qed
qed

section \<open>The interface\<close>

text \<open>
  What the outer loop relies on: where the next string starts follows from the message alone, if
  that is enough to tell, and it is inside of the message.
\<close>

locale extents =
  fixes nxt :: "byte list \<Rightarrow> nat \<Rightarrow> nat \<Rightarrow> nat option option"
  assumes nxt_local: "bp \<le> eob \<Longrightarrow> eob \<le> length mem \<Longrightarrow> nxt (drop bp (take eob mem)) 0 (eob - bp) = Some q \<Longrightarrow>
      nxt mem bp eob = Some (map_option ((+) bp) q)"
    and nxt_inside: "nxt s 0 (length s) = Some (Some k) \<Longrightarrow> k < length s"
begin

lemma massage_loop_in_place:
  assumes "unesc (drop (x + 1) (take eob mem)) = Some (u, r)" "massaged nxt r = Some v" "t \<le> x" "eob \<le> length mem"
  shows "\<exists>mem1. massage_loop nxt mem x t eob = Some (mem1, t + length u + length v) \<and> length mem1 = length mem
    \<and> take (t + length u + length v) mem1 = take t mem @ u @ v \<and> drop eob mem1 = drop eob mem
    \<and> t + length u + length v \<le> eob"
  using assms
proof (induction "length r" arbitrary: mem x t u r v rule: less_induct)
  case less
  let ?x1 = "eob - length r" and ?t1 = "t + length u"
  obtain mem1 where m: "unesc_loop mem x t = Some (mem1, ?x1, ?t1)" "length mem1 = length mem"
    "take ?t1 mem1 = take t mem @ u" "drop ?x1 mem1 = drop ?x1 mem" "?t1 < ?x1" "x < ?x1"
    using unesc_in_place [OF less.prems(1,3,4)] by blast
  have le: "length r \<le> eob" using m(5) by simp
  have "drop ?x1 (take eob mem1) = drop ?x1 (take eob mem)" using m(4) by (simp add: drop_take)
  also have "\<dots> = r"
  proof -
    have "length (drop (x + 1) (take eob mem)) = eob - (x + 1)" using less.prems(4) by simp
    then have "drop (eob - (x + 1) - length r + (x + 1)) (take eob mem) = r"
      using unesc_rest [OF less.prems(1)] by (simp only: drop_drop)
    moreover have "eob - (x + 1) - length r + (x + 1) = ?x1" using m(6) by simp
    ultimately show ?thesis by (simp only:)
  qed
  finally have rest: "drop ?x1 (take eob mem1) = r" .
  obtain q where q: "nxt r 0 (length r) = Some q"
    using less.prems(2) by (auto simp: massaged.simps [of nxt r] split: option.splits)
  have nx: "nxt mem1 ?x1 eob = Some (map_option ((+) ?x1) q)"
  proof (rule nxt_local)
    have "eob - ?x1 = length r" using le by simp
    then show "nxt (drop ?x1 (take eob mem1)) 0 (eob - ?x1) = Some q" using q rest by simp
  qed (use less.prems(4) m(2) in simp_all)
  have end_kept: "drop eob mem1 = drop eob mem"
  proof -
    have "drop (length r) (drop ?x1 mem1) = drop (length r) (drop ?x1 mem)" by (simp only: m(4))
    then show ?thesis using le by simp
  qed
  have get: "buf_get mem1 ?x1 k = Some (take k r)" if "k \<le> length r" for k
  proof -
    have "take k (drop ?x1 mem1) = take k (drop ?x1 (take eob mem1))"
      using that le by (simp add: drop_take)
    then have "take k (drop ?x1 mem1) = take k r" by (simp only: rest)
    then show ?thesis using that le less.prems(4) m(2) by (simp add: buf_get_def)
  qed
  show ?case
  proof (cases q)
    case None
    with q less.prems(2) have v: "v = r" by (simp add: massaged.simps [of nxt r])
    obtain mem2 where put: "buf_put mem1 ?t1 r = Some mem2"
      using buf_put_ok [of ?t1 r mem1] m(2,5) le less.prems(4) by (metis add_le_cancel_right le_add_diff_inverse2 less_imp_le order_trans)
    have "take (?t1 + length r) mem2 = take ?t1 mem1 @ r" "drop eob mem2 = drop eob mem"
      using end_kept put m(2,5) le less.prems(4) by (auto simp: buf_put_def drop_put split: if_split_asm)
    moreover have "massage_loop nxt mem x t eob = Some (mem2, ?t1 + length r)"
      using m(1) nx None get [of "length r"] put le by (simp add: massage_loop.simps [of nxt mem])
    ultimately show ?thesis using v m(2,3,5) le buf_put_length [OF put] by auto
  next
    case (Some k)
    have k: "k < length r" using nxt_inside q Some by simp
    from Some q less.prems(2) obtain u2 r2 v2 where
      u2: "unesc (drop (k + 1) r) = Some (u2, r2)" "massaged nxt r2 = Some v2" "v = take k r @ u2 @ v2"
      by (auto simp: massaged.simps [of nxt r] split: option.splits)
    obtain mem2 where put: "buf_put mem1 ?t1 (take k r) = Some mem2"
    proof -
      have "?t1 + length (take k r) \<le> length mem1" using m(2,5) le less.prems(4) k by simp
      then show thesis using buf_put_ok that by blast
    qed
    have len2: "length mem2 = length mem" using buf_put_length [OF put] m(2) by simp
    have t2: "take (?t1 + k) mem2 = take ?t1 mem1 @ take k r"
      using put k m(2,5) le less.prems(4) by (auto simp: buf_put_def split: if_split_asm)
    have dr: "drop j mem2 = drop j mem1" if "?x1 + k \<le> j" for j
      using put that k m(2,5) le by (intro buf_put_drop [OF put]) simp
    have "drop (?x1 + k + 1) (take eob mem2) = drop (k + 1) (drop ?x1 (take eob mem1))"
      using dr [of "?x1 + k + 1"] by (simp add: drop_take add.commute add.left_commute)
    then have un: "unesc (drop (?x1 + k + 1) (take eob mem2)) = Some (u2, r2)" using rest u2(1) by simp
    have "length r2 < length r" using unesc_lengths [OF u2(1)] by simp
    obtain mem3 where
      m3: "massage_loop nxt mem2 (?x1 + k) (?t1 + k) eob = Some (mem3, ?t1 + k + length u2 + length v2)"
        "length mem3 = length mem2" "take (?t1 + k + length u2 + length v2) mem3 = take (?t1 + k) mem2 @ u2 @ v2"
        "drop eob mem3 = drop eob mem2" "?t1 + k + length u2 + length v2 \<le> eob"
    proof -
      have "?t1 + k \<le> ?x1 + k" "eob \<le> length mem2" using m(5) less.prems(4) len2 by simp_all
      then show thesis using less.hyps [OF \<open>length r2 < length r\<close> un u2(2)] that by blast
    qed
    have "massage_loop nxt mem x t eob = Some (mem3, ?t1 + k + length u2 + length v2)"
      using m(1) nx Some get [of k] put k m3(1) by (simp add: massage_loop.simps [of nxt mem] min_def)
    moreover have "drop eob mem2 = drop eob mem" using dr [of eob] k le end_kept by simp
    moreover have "length v = k + length u2 + length v2" using u2(3) k by simp
    moreover have "take (?t1 + k + length u2 + length v2) mem3 = take t mem @ u @ v"
      using m3(3) t2 m(3) u2(3) by simp
    ultimately show ?thesis using m3(2,4,5) len2 by (intro exI [of _ mem3]) (simp add: add.assoc)
  qed
qed

theorem massage_in_place:
  assumes "massaged nxt s = Some v"
  shows "\<exists>mem1. massage_in nxt (s @ rest) (length s) = Some (mem1, length v) \<and> take (length v) mem1 = v
    \<and> drop (length s) mem1 = rest \<and> length mem1 = length (s @ rest) \<and> length v \<le> length s"
proof -
  obtain q where q: "nxt s 0 (length s) = Some q"
    using assms by (auto simp: massaged.simps [of nxt s] split: option.splits)
  have nx: "nxt (s @ rest) 0 (length s) = Some (map_option ((+) 0) q)"
    by (rule nxt_local) (use q in simp_all)
  show ?thesis
  proof (cases q)
    case None
    with q nx assms show ?thesis by (auto simp: massage_in_def massaged.simps [of nxt s])
  next
    case (Some k)
    have k: "k < length s" using nxt_inside q Some by simp
    from Some q assms obtain u r w where
      u: "unesc (drop (k + 1) s) = Some (u, r)" "massaged nxt r = Some w" "v = take k s @ u @ w"
      by (auto simp: massaged.simps [of nxt s] split: option.splits)
    have "unesc (drop (k + 1) (take (length s) (s @ rest))) = Some (u, r)" using u(1) by simp
    from massage_loop_in_place [OF this u(2) order_refl] obtain mem1 where
      "massage_loop nxt (s @ rest) k k (length s) = Some (mem1, k + length u + length w)"
      "length mem1 = length (s @ rest)" "take (k + length u + length w) mem1 = take k (s @ rest) @ u @ w"
      "drop (length s) mem1 = drop (length s) (s @ rest)" "k + length u + length w \<le> length s"
      using le_add1 by (metis length_append)
    note m = this
    have v: "length v = k + length u + length w" using u(3) k by simp
    have "massage_in nxt (s @ rest) (length s) = Some (mem1, length v)"
      using nx Some m(1) by (simp add: massage_in_def v)
    moreover have "take k (s @ rest) @ u @ w = v" using u(3) k by simp
    then have "take (length v) mem1 = v" using m(3) by (simp only: v)
    moreover have "drop (length s) mem1 = rest" using m(4) by simp
    moreover have "length v \<le> length s" using m(5) v by simp
    ultimately show ?thesis using m(2) by blast
  qed
qed

end

text \<open>Both ways to find the strings.\<close>

lemma xmemmem_at_shift:
  assumes "xmemmem_at (drop b (take eob mem)) i (eob - b) ndl = Some q" "b \<le> eob" "eob \<le> length mem"
  shows "xmemmem_at mem (b + i) eob ndl = Some (map_option ((+) b) q)"
proof (cases "i \<le> eob - b")
  case True
  let ?hay = "drop (b + i) (take eob mem)"
  from True assms have q: "q = map_option (\<lambda>r. eob - b - length r - length ndl) (xmemmem ?hay ndl)"
    by (simp add: xmemmem_at_def buf_get_def add.commute)
  have "buf_get mem (b + i) (eob - (b + i)) = Some ?hay"
    using True assms(2,3) by (simp add: buf_get_def drop_take)
  then have "xmemmem_at mem (b + i) eob ndl = Some (map_option (\<lambda>r. eob - length r - length ndl) (xmemmem ?hay ndl))"
    using True assms(2) by (simp add: xmemmem_at_def)
  moreover have "eob - length r - length ndl = b + (eob - b - length r - length ndl)"
    if "xmemmem ?hay ndl = Some r" for r
    using find_after_length [of ndl ?hay r] that True assms(2,3) by (simp add: xmemmem_correct)
  ultimately show ?thesis unfolding q by (cases "xmemmem ?hay ndl") simp_all
next
  case False
  with assms show ?thesis by (simp add: xmemmem_at_def)
qed

lemma skip_blanks_shift:
  "skip_blanks (drop b (take eob mem)) i = Some j \<Longrightarrow> eob \<le> length mem \<Longrightarrow> skip_blanks mem (b + i) = Some (b + j)"
proof (induction "drop b (take eob mem)" i rule: skip_blanks.induct)
  case (1 i)
  from "1.prems" have i: "i < length (drop b (take eob mem))"
    by (simp add: skip_blanks.simps [of "drop b (take eob mem)" i] split: if_split_asm)
  then have "drop b (take eob mem) ! i = mem ! (b + i)" "b + i < length mem" using "1.prems"(2) by auto
  with i "1.prems" "1.hyps" show ?case
    by (auto simp: skip_blanks.simps [of "drop b (take eob mem)" i] skip_blanks.simps [of mem "b + i"] split: if_split_asm)
qed

lemma next_data_shift:
  "next_data (drop b (take eob mem)) i (eob - b) = Some q \<Longrightarrow> b \<le> eob \<Longrightarrow> eob \<le> length mem \<Longrightarrow>
    next_data mem (b + i) eob = Some (map_option ((+) b) q)"
proof (induction "drop b (take eob mem)" i "eob - b" rule: next_data.induct)
  case (1 i)
  let ?s = "drop b (take eob mem)"
  obtain f where f: "xmemmem_at ?s i (eob - b) data_tok = Some f"
    using "1.prems"(1) by (auto simp: next_data.simps [of ?s i] split: option.splits)
  note f1 = xmemmem_at_shift [OF f "1.prems"(2,3)]
  show ?case
  proof (cases f)
    case None
    with f f1 "1.prems"(1) show ?thesis by (simp add: next_data.simps [of ?s i] next_data.simps [of mem "b + i"])
  next
    case (Some p)
    from f Some "1.prems"(1) obtain j where j: "skip_blanks ?s (p + length data_tok) = Some j"
      by (auto simp: next_data.simps [of ?s i] split: option.splits)
    have j1: "skip_blanks mem (b + p + length data_tok) = Some (b + j)"
      using skip_blanks_shift [OF j "1.prems"(3)] by (simp add: add.assoc)
    have at: "?s ! k = mem ! (b + k)" if "k < length ?s" for k using that "1.prems"(3) by simp
    show ?thesis
    proof (cases "mem ! (b + j) = 0x3A")
      case False
      have "?s ! j \<noteq> 0x3A" using at skip_blanks_range [OF j] False by simp
      with f Some j "1.prems" "1.hyps"(1) have "next_data mem (b + (j + 1)) eob = Some (map_option ((+) b) q)"
        by (simp add: next_data.simps [of ?s i])
      with f1 Some j1 False show ?thesis by (simp add: next_data.simps [of mem "b + i"])
    next
      case True
      have c: "?s ! j = 0x3A" using at skip_blanks_range [OF j] True by simp
      from f Some j c "1.prems"(1) obtain l where l: "skip_blanks ?s (j + 1) = Some l"
        by (auto simp: next_data.simps [of ?s i] split: option.splits)
      have l1: "skip_blanks mem (b + j + 1) = Some (b + l)"
        using skip_blanks_shift [OF l "1.prems"(3)] by (simp add: add.assoc)
      have d: "?s ! l = mem ! (b + l)" using at skip_blanks_range [OF l] by simp
      show ?thesis
      proof (cases "mem ! (b + l) = QUOTE")
        case True
        have "next_data ?s i (eob - b) = Some (Some l)"
          using f Some j c l d True by (simp add: next_data.simps [of ?s i])
        moreover have "next_data mem (b + i) eob = Some (Some (b + l))"
          using f1 Some j1 l1 True \<open>mem ! (b + j) = 0x3A\<close> by (simp add: next_data.simps [of mem "b + i"])
        ultimately show ?thesis using "1.prems"(1) by simp
      next
        case False
        with f Some j c l d "1.prems" "1.hyps"(2) have "next_data mem (b + (l + 1)) eob = Some (map_option ((+) b) q)"
          by (simp add: next_data.simps [of ?s i])
        with f1 Some j1 l1 False \<open>mem ! (b + j) = 0x3A\<close> show ?thesis by (simp add: next_data.simps [of mem "b + i"])
      qed
    qed
  qed
qed

lemma next_data_range: "next_data mem bp eob = Some (Some k) \<Longrightarrow> k < length mem"
proof (induction mem bp eob rule: next_data.induct)
  case (1 mem bp eob)
  from "1.prems" show ?case
    unfolding next_data.simps [of mem bp] using "1.IH"
    by (auto split: option.splits if_split_asm dest: skip_blanks_range)
qed

interpretation data: extents next_data
proof
  fix bp eob mem q
  assume "bp \<le> eob" "eob \<le> length mem" "next_data (drop bp (take eob mem)) 0 (eob - bp) = Some q"
  then show "next_data mem bp eob = Some (map_option ((+) bp) q)" using next_data_shift [of bp eob mem 0 q] by simp
qed (rule next_data_range)

interpretation comma: extents next_comma
proof
  fix bp eob mem q
  assume "bp \<le> eob" "eob \<le> length mem" "next_comma (drop bp (take eob mem)) 0 (eob - bp) = Some q"
  then show "next_comma mem bp eob = Some (map_option ((+) bp) q)"
    using xmemmem_at_shift [of bp eob mem 0] by (fastforce simp: next_comma_def option.map_comp o_def)
next
  fix s k assume "next_comma s 0 (length s) = Some (Some k)"
  then show "k < length s" by (auto simp: next_comma_def dest!: xmemmem_at_range)
qed

section \<open>Escaped strings\<close>

definition esc :: "byte list \<Rightarrow> byte list" where
  "esc u = concat (map (\<lambda>c. if c = QUOTE \<or> c = BSLASH then [BSLASH, c] else [c]) u)"

lemma unesc_esc: "unesc (esc u @ QUOTE # r) = Some (u, r)"
  by (induction u) (auto simp: esc_def)

text \<open>A message: what is in front of a string, the string as an escaped one, and so on.\<close>

definition escaped :: "(byte list \<times> byte list) list \<Rightarrow> byte list \<Rightarrow> byte list" where
  "escaped ps z = concat (map (\<lambda>(a, u). a @ QUOTE # esc u @ [QUOTE]) ps) @ z"

definition plain :: "(byte list \<times> byte list) list \<Rightarrow> byte list \<Rightarrow> byte list" where
  "plain ps z = concat (map (\<lambda>(a, u). a @ u) ps) @ z"

lemma massaged_escaped:
  assumes "\<And>a u r. (a, u) \<in> set ps \<Longrightarrow> nxt (a @ QUOTE # r) 0 (length a + 1 + length r) = Some (Some (length a))"
    and "nxt z 0 (length z) = Some None"
  shows "massaged nxt (escaped ps z) = Some (plain ps z)"
  using assms
proof (induction ps)
  case Nil
  then show ?case by (simp add: escaped_def plain_def massaged.simps [of nxt z])
next
  case (Cons p ps)
  obtain a u where p: "p = (a, u)" by (cases p)
  let ?r = "esc u @ QUOTE # escaped ps z"
  have e: "escaped (p # ps) z = a @ QUOTE # ?r" by (simp add: escaped_def p)
  have "nxt (a @ QUOTE # ?r) 0 (length (a @ QUOTE # ?r)) = Some (Some (length a))"
    using Cons.prems(1) [of a u ?r] p by simp
  moreover have "massaged nxt (escaped ps z) = Some (plain ps z)"
    by (rule Cons.IH) (use Cons.prems in auto)
  ultimately show ?case
    unfolding e by (simp add: massaged.simps [of nxt "a @ QUOTE # ?r"] unesc_esc plain_def p)
qed

text \<open>When the next string is found at its place.\<close>

lemma xmemmem_at_whole:
  "xmemmem_at s 0 (length s) ndl = Some (map_option (\<lambda>r. length s - length r - length ndl) (find_after ndl s))"
  by (simp add: xmemmem_at_def buf_get_def xmemmem_correct)

text \<open>What precedes a string: a comma, or the key \<open>data\<close>, and neither earlier.\<close>

definition comma_front :: "byte list \<Rightarrow> bool" where
  "comma_front a \<longleftrightarrow> a \<noteq> [] \<and> last a = 0x2C \<and> \<not> sublist [0x2C, QUOTE] a"

lemma next_comma_front: "comma_front a \<Longrightarrow> next_comma (a @ QUOTE # r) 0 (length a + 1 + length r) = Some (Some (length a))"
proof -
  assume a: "comma_front a"
  then have s: "a @ QUOTE # r = butlast a @ [0x2C, QUOTE] @ r" "butlast a @ butlast [0x2C, QUOTE] = a"
    by (auto simp: comma_front_def append_butlast_last_id [symmetric] simp del: append_butlast_last_id)
       (metis append_butlast_last_id)+
  have "find_after [0x2C, QUOTE] (a @ QUOTE # r) = Some r"
    unfolding s(1) by (rule find_after_first) (use a s(2) in \<open>simp_all add: comma_front_def\<close>)
  then show ?thesis
    using a xmemmem_at_whole [of "a @ QUOTE # r" "[0x2C, QUOTE]"] by (cases a) (simp_all add: next_comma_def comma_front_def)
qed

definition data_front :: "byte list \<Rightarrow> byte list \<Rightarrow> byte list \<Rightarrow> byte list" where
  "data_front a1 w1 w2 = a1 @ data_tok @ w1 @ 0x3A # w2"

lemma skip_blanks_over:
  assumes "\<forall>b \<in> set w. b \<le> 0x20" "\<not> c \<le> 0x20"
  shows "skip_blanks (xs @ w @ c # r) (length xs) = Some (length xs + length w)"
  using assms
proof (induction w arbitrary: xs)
  case Nil
  then show ?case by (simp add: skip_blanks.simps)
next
  case (Cons b w)
  then have "skip_blanks ((xs @ [b]) @ w @ c # r) (length (xs @ [b])) = Some (length (xs @ [b]) + length w)"
    by (intro Cons.IH) simp_all
  with Cons.prems show ?case by (simp add: skip_blanks.simps [of _ "length xs"])
qed

lemma find_data_tok:
  assumes "\<not> sublist data_tok (b @ butlast data_tok)"
  shows "xmemmem_at (b @ data_tok @ r) 0 (length (b @ data_tok @ r)) data_tok = Some (Some (length b))"
proof -
  have "find_after data_tok (b @ data_tok @ r) = Some r"
    by (rule find_after_first) (use assms in \<open>simp_all add: data_tok_def\<close>)
  then show ?thesis using xmemmem_at_whole [of "b @ data_tok @ r" data_tok] by simp
qed

lemma next_data_front:
  assumes "\<not> sublist data_tok (a1 @ butlast data_tok)" "\<forall>b \<in> set (w1 @ w2). b \<le> 0x20"
  defines "a \<equiv> data_front a1 w1 w2"
  shows "next_data (a @ QUOTE # r) 0 (length a + 1 + length r) = Some (Some (length a))"
proof -
  let ?s = "a @ QUOTE # r"
  have s: "?s = a1 @ data_tok @ (w1 @ 0x3A # w2 @ QUOTE # r)" by (simp add: a_def data_front_def)
  then have f: "xmemmem_at ?s 0 (length ?s) data_tok = Some (Some (length a1))"
    using find_data_tok [OF assms(1), of "w1 @ 0x3A # w2 @ QUOTE # r"] by simp
  have j: "skip_blanks ?s (length a1 + length data_tok) = Some (length (a1 @ data_tok @ w1))"
    using skip_blanks_over [of w1 "0x3A" "a1 @ data_tok" "w2 @ QUOTE # r"] assms(2) by (simp add: s)
  have l: "skip_blanks ?s (length (a1 @ data_tok @ w1) + 1) = Some (length a)"
    using skip_blanks_over [of w2 QUOTE "a1 @ data_tok @ w1 @ [0x3A]" r] assms(2) by (simp add: s a_def data_front_def)
  have "?s ! length (a1 @ data_tok @ w1) = 0x3A" "?s ! length a = QUOTE"
    by (simp_all add: a_def data_front_def nth_append)
  with f j l show ?thesis by (simp add: next_data.simps [of ?s 0])
qed

text \<open>
  A token \<open>"data"\<close> that is not the key of a string, such as the value in \<open>"event":"data",\<close>, is passed
  over up to the character that tells.
\<close>

definition no_string :: "byte list \<Rightarrow> bool" where
  "no_string s \<longleftrightarrow> (\<exists>b w1 w2 c. \<not> sublist data_tok (b @ butlast data_tok) \<and> (\<forall>x \<in> set (w1 @ w2). x \<le> 0x20) \<and>
     \<not> c \<le> 0x20 \<and> (s = b @ data_tok @ w1 @ [c] \<and> c \<noteq> 0x3A \<or> s = b @ data_tok @ w1 @ 0x3A # w2 @ [c] \<and> c \<noteq> QUOTE))"

lemma next_data_past:
  assumes "no_string s" "next_data r 0 (length r) = Some q"
  shows "next_data (s @ r) 0 (length (s @ r)) = Some (map_option ((+) (length s)) q)"
proof -
  let ?m = "s @ r"
  have past: "next_data ?m (length s) (length ?m) = Some (map_option ((+) (length s)) q)"
    using next_data_shift [of "length s" "length ?m" ?m 0 q] assms(2) by simp
  obtain b w1 w2 c where b: "\<not> sublist data_tok (b @ butlast data_tok)" "\<forall>x \<in> set (w1 @ w2). x \<le> 0x20" "\<not> c \<le> 0x20"
    and s: "s = b @ data_tok @ w1 @ [c] \<and> c \<noteq> 0x3A \<or> s = b @ data_tok @ w1 @ 0x3A # w2 @ [c] \<and> c \<noteq> QUOTE"
    using assms(1) unfolding no_string_def by blast
  let ?k = "length (b @ data_tok @ w1)"
  have col: "\<not> (0x3A :: byte) \<le> 0x20" by simp
  from s show ?thesis
  proof (elim disjE conjE)
    assume e: "s = b @ data_tok @ w1 @ [c]" and c: "c \<noteq> 0x3A"
    have f: "xmemmem_at ?m 0 (length ?m) data_tok = Some (Some (length b))"
      using find_data_tok [OF b(1), of "w1 @ [c] @ r"] by (simp add: e)
    have k: "skip_blanks ?m (length b + length data_tok) = Some ?k"
      using skip_blanks_over [of w1 c "b @ data_tok" r] b by (simp add: e)
    have "?m ! ?k = c" "?k + 1 = length s" by (simp_all add: e nth_append)
    with f k c past show ?thesis by (simp add: next_data.simps [of ?m 0])
  next
    assume e: "s = b @ data_tok @ w1 @ 0x3A # w2 @ [c]" and c: "c \<noteq> QUOTE"
    have f: "xmemmem_at ?m 0 (length ?m) data_tok = Some (Some (length b))"
      using find_data_tok [OF b(1), of "w1 @ 0x3A # w2 @ [c] @ r"] by (simp add: e)
    have k: "skip_blanks ?m (length b + length data_tok) = Some ?k"
      using skip_blanks_over [of w1 "0x3A" "b @ data_tok" "w2 @ [c] @ r"] b col by (simp add: e)
    have l: "skip_blanks ?m (?k + 1) = Some (?k + 1 + length w2)"
      using skip_blanks_over [of w2 c "b @ data_tok @ w1 @ [0x3A]" r] b by (simp add: e)
    have "?m ! ?k = 0x3A" "?m ! (?k + 1 + length w2) = c" "?k + 1 + length w2 + 1 = length s"
      by (simp_all add: e nth_append)
    with f k l c past show ?thesis by (simp add: next_data.simps [of ?m 0])
  qed
qed

lemma next_data_past_all:
  "\<forall>s \<in> set ss. no_string s \<Longrightarrow> next_data r 0 (length r) = Some q \<Longrightarrow>
    next_data (concat ss @ r) 0 (length (concat ss @ r)) = Some (map_option ((+) (length (concat ss))) q)"
proof (induction ss)
  case (Cons s ss)
  then have "no_string s" "next_data (concat ss @ r) 0 (length (concat ss @ r)) = Some (map_option ((+) (length (concat ss))) q)"
    by simp_all
  from next_data_past [OF this] show ?case by (simp add: option.map_comp o_def add.assoc)
qed (cases q, simp_all)

text \<open>What precedes an escaped object, and what follows the last one.\<close>

definition data_lead :: "byte list \<Rightarrow> bool" where
  "data_lead a \<longleftrightarrow> (\<exists>ss a1 w1 w2. a = concat ss @ data_front a1 w1 w2 \<and> (\<forall>s \<in> set ss. no_string s) \<and>
     \<not> sublist data_tok (a1 @ butlast data_tok) \<and> (\<forall>b \<in> set (w1 @ w2). b \<le> 0x20))"

definition data_tail :: "byte list \<Rightarrow> bool" where
  "data_tail z \<longleftrightarrow> (\<exists>ss z1. z = concat ss @ z1 \<and> (\<forall>s \<in> set ss. no_string s) \<and> \<not> sublist data_tok z1)"

lemma next_data_lead: "data_lead a \<Longrightarrow> next_data (a @ QUOTE # r) 0 (length a + 1 + length r) = Some (Some (length a))"
proof -
  assume "data_lead a"
  then obtain ss a1 w1 w2 where a: "a = concat ss @ data_front a1 w1 w2" "\<forall>s \<in> set ss. no_string s"
    "\<not> sublist data_tok (a1 @ butlast data_tok)" "\<forall>b \<in> set (w1 @ w2). b \<le> 0x20"
    unfolding data_lead_def by blast
  let ?f = "data_front a1 w1 w2"
  have "next_data (?f @ QUOTE # r) 0 (length (?f @ QUOTE # r)) = Some (Some (length ?f))"
    using next_data_front [OF a(3,4), of r] by simp
  from next_data_past_all [OF a(2) this] show ?thesis by (simp add: a(1) add.assoc)
qed

lemma next_data_tail: "data_tail z \<Longrightarrow> next_data z 0 (length z) = Some None"
proof -
  assume "data_tail z"
  then obtain ss z1 where z: "z = concat ss @ z1" "\<forall>s \<in> set ss. no_string s" "\<not> sublist data_tok z1"
    unfolding data_tail_def by blast
  have "next_data z1 0 (length z1) = Some None"
    using z(3) find_after_None_iff [of data_tok z1] by (simp add: next_data.simps [of z1] xmemmem_at_whole)
  from next_data_past_all [OF z(2) this] show ?thesis by (simp add: z(1))
qed

section \<open>Properties\<close>

text \<open>C34. Every line of bitstamp whose \<open>data\<close> are objects escaped into strings is logged with the
  objects themselves, in place and whatever follows in the buffer, which is left as it was; other
  occurrences of \<open>"data"\<close>, as the name of the event or with a value that is no string, are passed over.\<close>

theorem btsp_massage_unescapes:
  assumes "\<And>a u. (a, u) \<in> set ps \<Longrightarrow> data_lead a" and "data_tail z"
  shows "\<exists>mem. btsp_massage (escaped ps z @ rest) (length (escaped ps z)) = Some (mem, length (plain ps z)) \<and>
    take (length (plain ps z)) mem = plain ps z \<and> drop (length (escaped ps z)) mem = rest"
proof -
  have "massaged next_data (escaped ps z) = Some (plain ps z)"
    using assms next_data_lead next_data_tail by (intro massaged_escaped) blast+
  from data.massage_in_place [OF this] show ?thesis unfolding btsp_massage_def by blast
qed

text \<open>At the message \<open>{:"data","data": "{\"p\"}"}\<close>.\<close>

lemma lead_ex: "data_lead ([0x7B, 0x3A] @ data_tok @ [0x2C] @ data_front [] [] [0x20])"
  unfolding data_lead_def
proof (intro exI conjI)
  show "[0x7B, 0x3A] @ data_tok @ [0x2C] @ data_front [] [] [0x20]
      = concat [[0x7B, 0x3A] @ data_tok @ [0x2C]] @ data_front [] [] [0x20]" by simp
  have "no_string ([0x7B, 0x3A] @ data_tok @ [0x2C])" unfolding no_string_def
    by (rule exI [of _ "[0x7B, 0x3A]"], rule exI [of _ "[]"], rule exI [of _ "[]"], rule exI [of _ "0x2C"])
      (simp add: data_tok_def sublist_Cons_right)
  then show "\<forall>s \<in> set [[0x7B, 0x3A] @ data_tok @ [0x2C]]. no_string s" by simp
qed (simp_all add: data_tok_def sublist_Cons_right)

lemma tail_ex: "data_tail [0x7D, 0x0A]"
  unfolding data_tail_def by (rule exI [of _ "[]"]) (simp add: data_tok_def sublist_Cons_right)

theorem btsp_massage_unescapes_witness:
  "\<exists>mem. btsp_massage (escaped [([0x7B, 0x3A] @ data_tok @ [0x2C] @ data_front [] [] [0x20], [0x7B, QUOTE, 0x70, QUOTE, 0x7D])] [0x7D, 0x0A] @ [1, 2])
      (length (escaped [([0x7B, 0x3A] @ data_tok @ [0x2C] @ data_front [] [] [0x20], [0x7B, QUOTE, 0x70, QUOTE, 0x7D])] [0x7D, 0x0A]))
      = Some (mem, length (plain [([0x7B, 0x3A] @ data_tok @ [0x2C] @ data_front [] [] [0x20], [0x7B, QUOTE, 0x70, QUOTE, 0x7D])] [0x7D, 0x0A])) \<and>
    take (length (plain [([0x7B, 0x3A] @ data_tok @ [0x2C] @ data_front [] [] [0x20], [0x7B, QUOTE, 0x70, QUOTE, 0x7D])] [0x7D, 0x0A])) mem
      = plain [([0x7B, 0x3A] @ data_tok @ [0x2C] @ data_front [] [] [0x20], [0x7B, QUOTE, 0x70, QUOTE, 0x7D])] [0x7D, 0x0A] \<and>
    drop (length (escaped [([0x7B, 0x3A] @ data_tok @ [0x2C] @ data_front [] [] [0x20], [0x7B, QUOTE, 0x70, QUOTE, 0x7D])] [0x7D, 0x0A])) mem = [1, 2]"
  using btsp_massage_unescapes [of "[([0x7B, 0x3A] @ data_tok @ [0x2C] @ data_front [] [] [0x20], [0x7B, QUOTE, 0x70, QUOTE, 0x7D])]"
      "[0x7D, 0x0A]" "[1, 2]"] lead_ex tail_ex by (simp only: set_simps singleton_iff prod.inject)

text \<open>The same for paymium and spacebtc, whose strings follow a comma.\<close>

theorem paymium_massage_unescapes:
  assumes "\<And>a u. (a, u) \<in> set ps \<Longrightarrow> comma_front a" "\<not> sublist [0x2C, QUOTE] z"
  shows "\<exists>mem. paymium_massage (escaped ps z @ rest) (length (escaped ps z)) = Some (mem, length (plain ps z)) \<and>
    take (length (plain ps z)) mem = plain ps z \<and> drop (length (escaped ps z)) mem = rest"
proof -
  have "next_comma z 0 (length z) = Some None"
    using assms(2) find_after_None_iff [of "[0x2C, QUOTE]" z] by (simp add: next_comma_def xmemmem_at_whole)
  then have "massaged next_comma (escaped ps z) = Some (plain ps z)"
    using assms(1) next_comma_front by (intro massaged_escaped) blast+
  from comma.massage_in_place [OF this] show ?thesis unfolding paymium_massage_def by blast
qed

theorem paymium_massage_unescapes_witness:
  "\<exists>mem. paymium_massage (escaped [([0x34, 0x2C], [0x7B, QUOTE, 0x7D])] [0x5D, 0x0A] @ [1, 2])
      (length (escaped [([0x34, 0x2C], [0x7B, QUOTE, 0x7D])] [0x5D, 0x0A]))
      = Some (mem, length (plain [([0x34, 0x2C], [0x7B, QUOTE, 0x7D])] [0x5D, 0x0A])) \<and>
    take (length (plain [([0x34, 0x2C], [0x7B, QUOTE, 0x7D])] [0x5D, 0x0A])) mem
      = plain [([0x34, 0x2C], [0x7B, QUOTE, 0x7D])] [0x5D, 0x0A] \<and>
    drop (length (escaped [([0x34, 0x2C], [0x7B, QUOTE, 0x7D])] [0x5D, 0x0A])) mem = [1, 2]"
  by (rule paymium_massage_unescapes) (auto simp: comma_front_def sublist_Cons_right)

text \<open>A string that is not closed.\<close>

lemma unesc_loop_runs: "unesc_loop mem x t = Some r \<Longrightarrow> t \<le> x \<Longrightarrow> unesc (drop (x + 1) mem) \<noteq> None"
proof (induction mem x t rule: unesc_loop.induct)
  case (1 mem x t)
  let ?c = "mem ! (x + 1)"
  have in_mem: "x + 1 < length mem \<and> t < length mem"
    using "1.prems"(1) by (simp add: unesc_loop.simps [of mem x t] split: if_split_asm)
  then have s: "drop (x + 1) mem = ?c # drop (x + 2) mem" by (simp add: Cons_nth_drop_Suc [symmetric])
  have keep: "drop (x + 2) (mem[t := c]) = drop (x + 2) mem" for c using "1.prems"(2) by simp
  show ?case
  proof (cases "?c = BSLASH")
    case True
    then have x2: "x + 2 < length mem"
      using "1.prems"(1) in_mem by (simp add: unesc_loop.simps [of mem x t] Let_def split: if_split_asm)
    let ?mem2 = "(mem[t := ?c])[t := (mem[t := ?c]) ! (x + 2)]"
    have "unesc_loop ?mem2 (x + 2) (t + 1) = Some r"
      using "1.prems"(1) in_mem True x2 by (simp add: unesc_loop.simps [of mem x t] Let_def)
    then have "unesc (drop (x + 2 + 1) ?mem2) \<noteq> None"
      using "1.IH"(1) [OF in_mem refl refl True] x2 "1.prems"(2) by simp
    moreover have "drop (x + 2 + 1) ?mem2 = drop (x + 3) mem" using "1.prems"(2) by (simp add: eval_nat_numeral)
    moreover have "drop (x + 2) mem = mem ! (x + 2) # drop (x + 3) mem"
      using x2 by (simp add: Cons_nth_drop_Suc [symmetric] numeral_3_eq_3)
    ultimately show ?thesis using s True by simp
  next
    case nb: False
    show ?thesis
    proof (cases "?c = QUOTE")
      case True
      with s show ?thesis by simp
    next
      case False
      then have "unesc_loop (mem[t := ?c]) (x + 1) (t + 1) = Some r"
        using "1.prems"(1) in_mem nb by (simp add: unesc_loop.simps [of mem x t] Let_def)
      with "1.IH"(2) [OF in_mem refl refl nb False] "1.prems"(2) keep show ?thesis using s nb False by simp
    qed
  qed
qed

lemma unesc_open: "QUOTE \<notin> set r \<Longrightarrow> unesc (esc u @ r) = None"
proof (induction u)
  case Nil
  have "QUOTE \<notin> set r \<Longrightarrow> unesc r = None" by (induction r rule: unesc.induct) (auto split: list.splits)
  with Nil show ?case by (simp add: esc_def)
next
  case (Cons c u)
  then show ?case by (auto simp: esc_def)
qed

text \<open>C35. The end of the message is not looked at inside of a string: one that is cut off makes
  \<open>massage\<close> of bitstamp go on to the next quote in the buffer, and behind the buffer when there is none.\<close>

theorem btsp_massage_overruns:
  assumes "data_lead a" "QUOTE \<notin> set rest"
  shows "btsp_massage ((a @ QUOTE # esc u) @ rest) (length (a @ QUOTE # esc u)) = None"
proof -
  define s where "s = a @ QUOTE # esc u"
  let ?k = "length a"
  have "next_data s 0 (length s) = Some (Some ?k)"
    using next_data_lead [OF assms(1), of "esc u"] by (simp add: s_def)
  then have n: "next_data (s @ rest) 0 (length s) = Some (Some ?k)"
    using data.nxt_local [of 0 "length s" "s @ rest"] by simp
  have "unesc (drop (?k + 1) (s @ rest)) = None" using unesc_open [OF assms(2)] by (simp add: s_def)
  then have "unesc_loop (s @ rest) ?k ?k = None" using unesc_loop_runs [of "s @ rest" ?k ?k]
    by (cases "unesc_loop (s @ rest) ?k ?k") auto
  with n show ?thesis by (simp add: btsp_massage_def massage_in_def massage_loop.simps [of next_data "s @ rest"]
      flip: s_def)
qed

theorem btsp_massage_overruns_witness:
  "btsp_massage ((([0x7B, 0x3A] @ data_tok @ [0x2C] @ data_front [] [] [0x20]) @ QUOTE # esc [0x7B]) @ [0x0A, 7, 7])
    (length (([0x7B, 0x3A] @ data_tok @ [0x2C] @ data_front [] [] [0x20]) @ QUOTE # esc [0x7B])) = None"
  by (rule btsp_massage_overruns [OF lead_ex]) simp

end
