(* ===== verification/Fix_Daemon.thy ===== *)
theory Fix_Daemon
  imports Fix2b
begin

text \<open>
  The daemons that log FIX feeds: \<open>src/okfix.c\<close>, \<open>src/btcc.c\<close> and \<open>src/derifix.c\<close>. Each is one
  connection and a state that its handlers change; what they send is rendered by \<open>src/fix.c\<close>.
  The sockets and TLS, the clock and the files are the environment: what is read comes with the
  event, whether sending succeeds is a function, what is sent or logged is kept in the state.
  Messages on the standard error are left out.
\<close>

section \<open>The state\<close>

datatype fixd_state_t = STATE_UNK | STATE_ON | STATE_SUB | STATE_OFF

text \<open>
  State of the protocol, whether there is a connection (\<open>sc\<close>), the seconds to sleep, the statics
  of \<open>src/fix.c\<close>, the log and those rotated away, whether the loop is to stop. \<open>d_tls\<close> is the
  environment of \<open>tls_send\<close>: whether its \<open>k\<close>-th call succeeds. \<open>d_sent\<close> are the messages handed to it, each
  with whether it went out, which the code reports on the standard error and does not act upon.
\<close>

record fixd =
  d_st :: fixd_state_t
  d_sc :: bool
  d_susp :: nat
  d_fix :: fix_state
  d_tls :: "nat \<Rightarrow> bool"
  d_sent :: "(string \<times> bool) list"
  d_log :: "string list"
  d_rot :: "string list list"
  d_brk :: bool

section \<open>The log\<close>

definition OUT_SIZE :: nat where
  "OUT_SIZE = 16384"

definition fixd_clock :: "nat \<times> nat \<Rightarrow> string" where
  "fixd_clock now = dec_string (fst now) @ ''.'' @ zero_pad 9 (dec_string (snd now))"

text \<open>The line is put together in \<open>out\<close>.\<close>

definition buf_print :: "nat \<times> nat \<Rightarrow> string \<Rightarrow> fixd \<Rightarrow> fixd option" where
  "buf_print now buf d =
     (let out = fixd_clock now @ [TAB] @ map (\<lambda>c. if c \<noteq> SOH then c else CHR ''|'') buf @ [LF] in do {
        check (length out \<le> OUT_SIZE);
        Some (d\<lparr>d_log := d_log d @ [out]\<rparr>) })"

text \<open>The new name, from those of the log and the host and the time of 19 characters, has 256 bytes.\<close>

definition fixd_rotate :: "nat \<times> nat \<Rightarrow> nat \<Rightarrow> nat \<Rightarrow> fixd \<Rightarrow> fixd option" where
  "fixd_rotate now lnz hnz d = do {
     check (lnz + 1 + hnz + 1 + 20 \<le> 256);
     d \<leftarrow> buf_print now ''rotate...midnight'' d;
     Some (d\<lparr>d_rot := d_rot d @ [d_log d], d_log := []\<rparr>) }"

section \<open>Sending\<close>

text \<open>A message of the given type is rendered into \<open>bsz\<close> bytes, handed to \<open>tls_send\<close> if there is a
  connection, and logged, whether it went out or not.\<close>

definition tls_send :: "string \<Rightarrow> fixd \<Rightarrow> fixd" where
  "tls_send m d = d\<lparr>d_sent := d_sent d @ [(m, d_tls d (length (d_sent d)))]\<rparr>"

definition fixd_send :: "nat \<times> nat \<Rightarrow> nat \<Rightarrow> char \<Rightarrow> string \<Rightarrow> fixd \<Rightarrow> fixd option" where
  "fixd_send now bsz ty body d = do {
     (m, fs) \<leftarrow> fix_render (fst now) bsz \<lparr>m_typ = ty, m_msg = body\<rparr> (d_fix d);
     d \<leftarrow> Some (d\<lparr>d_fix := fs\<rparr>);
     buf_print now m (if d_sc d then tls_send m d else d) }"

definition fixd_gdbye :: "nat \<times> nat \<Rightarrow> fixd \<Rightarrow> fixd option" where
  "fixd_gdbye now d = fixd_send now 1536 (CHR ''5'') [] d"

definition fixd_hbeat :: "nat \<times> nat \<Rightarrow> fixd \<Rightarrow> fixd option" where
  "fixd_hbeat now d = fixd_send now 1536 (CHR ''0'') [] d"

text \<open>A logon, the sequence starting over, with the given fields.\<close>

definition fixd_hello :: "string \<Rightarrow> nat \<times> nat \<Rightarrow> fixd \<Rightarrow> fixd option" where
  "fixd_hello helo now d = fixd_send now 1536 (CHR ''A'') helo (d\<lparr>d_fix := fix_reset (d_fix d)\<rparr>)"

text \<open>The credentials, \<open>API_KEY\<close> and \<open>API_SEC\<close>, are not part of the sources.\<close>

definition okfix_helo :: "string \<Rightarrow> string \<Rightarrow> string" where
  "okfix_helo key sec = ''98=0'' @ [SOH] @ ''108=30'' @ [SOH] @ ''141=Y'' @ [SOH]
     @ ''553='' @ key @ [SOH] @ ''554='' @ sec @ [SOH]"

definition btcc_helo :: string where
  "btcc_helo = ''98=0'' @ [SOH] @ ''108=30'' @ [SOH] @ ''141=Y'' @ [SOH]"

definition okfix_hello :: "string \<Rightarrow> string \<Rightarrow> nat \<times> nat \<Rightarrow> fixd \<Rightarrow> fixd option" where
  "okfix_hello key sec = fixd_hello (okfix_helo key sec)"

definition btcc_hello :: "nat \<times> nat \<Rightarrow> fixd \<Rightarrow> fixd option" where
  "btcc_hello = fixd_hello btcc_helo"

text \<open>In \<open>src/derifix.c\<close> the password is the digest \<open>sig\<close> in base 64, which replaces 47 characters and a
  SOH.\<close>

definition derifix_hello :: "string \<Rightarrow> string \<Rightarrow> nat \<times> nat \<Rightarrow> fixd \<Rightarrow> fixd option" where
  "derifix_hello key sig now d = do {
     check (length sig + 1 \<le> 48);
     fixd_hello (''108=30'' @ [SOH] @ ''96=OFJEOFN4SnhVZTEyYzRCWS9qR01Vc3lyT29mRU42SjE='' @ [SOH]
       @ ''553='' @ key @ [SOH] @ ''554='' @ sig @ [SOH]) now d }"

section \<open>Subscribing\<close>

text \<open>The requests up to the instrument.\<close>

definition okfix_mreq :: string where
  "okfix_mreq = ''262=mreq'' @ [SOH] @ ''263=1'' @ [SOH] @ ''264=0'' @ [SOH] @ ''265=1'' @ [SOH]
     @ ''267=2'' @ [SOH] @ ''269=0'' @ [SOH] @ ''269=1'' @ [SOH] @ ''146=1'' @ [SOH] @ ''55=''"

definition okfix_treq :: string where
  "okfix_treq = ''262=treq'' @ [SOH] @ ''263=1'' @ [SOH] @ ''264=0'' @ [SOH] @ ''265=1'' @ [SOH]
     @ ''267=1'' @ [SOH] @ ''269=2'' @ [SOH] @ ''146=1'' @ [SOH] @ ''55=''"

definition derifix_mreq :: string where
  "derifix_mreq = ''262=mreq'' @ [SOH] @ ''263=1'' @ [SOH] @ ''264=0'' @ [SOH] @ ''265=1'' @ [SOH]
     @ ''267=3'' @ [SOH] @ ''269=0'' @ [SOH] @ ''269=1'' @ [SOH] @ ''146=1'' @ [SOH] @ ''55=''"

definition btcc_mreq :: string where
  "btcc_mreq = ''262=mreq'' @ [SOH] @ ''263=1'' @ [SOH] @ ''264=100'' @ [SOH] @ ''265=1'' @ [SOH]
     @ ''267=3'' @ [SOH] @ ''269=0'' @ [SOH] @ ''269=1'' @ [SOH] @ ''269=2'' @ [SOH] @ ''146=1'' @ [SOH] @ ''55=''"

text \<open>The instrument and a SOH are put behind the request in its 256 bytes.\<close>

definition fixd_request :: "string \<Rightarrow> nat \<times> nat \<Rightarrow> string \<Rightarrow> fixd \<Rightarrow> fixd option" where
  "fixd_request req now ins d = do {
     check (length req + length ins + 1 \<le> 256);
     fixd_send now 1536 (CHR ''V'') (req @ ins @ [SOH]) d }"

definition okfix_subsc :: "nat \<times> nat \<Rightarrow> string \<Rightarrow> fixd \<Rightarrow> fixd option" where
  "okfix_subsc now ins d = do { d \<leftarrow> fixd_request okfix_mreq now ins d; fixd_request okfix_treq now ins d }"

definition derifix_subsc :: "nat \<times> nat \<Rightarrow> string \<Rightarrow> fixd \<Rightarrow> fixd option" where
  "derifix_subsc now ins d = fixd_request derifix_mreq now ins d"

text \<open>The loop over the instruments; each leaves the state subscribed.\<close>

fun fixd_subscribe ::
  "(nat \<times> nat \<Rightarrow> string \<Rightarrow> fixd \<Rightarrow> fixd option) \<Rightarrow> nat \<times> nat \<Rightarrow> string list \<Rightarrow> fixd \<Rightarrow> fixd option" where
  "fixd_subscribe subsc now [] d = Some d"
| "fixd_subscribe subsc now (i # is) d = do {
     d \<leftarrow> subsc now i d;
     fixd_subscribe subsc now is (d\<lparr>d_st := STATE_SUB\<rparr>) }"

text \<open>In \<open>src/btcc.c\<close> there is one instrument, of six characters, after which the log is named; the
  buffer of its request has 256 bytes.\<close>

definition btcc_subsc :: "string \<Rightarrow> nat \<times> nat \<Rightarrow> fixd \<Rightarrow> fixd option" where
  "btcc_subsc logfile now d = fixd_send now 256 (CHR ''V'') (btcc_mreq @ take 6 logfile @ [SOH]) d"

section \<open>The handlers\<close>

definition weekend_rsn :: string where
  "weekend_rsn = NUL # ''58=Logon attempt not within session time'' @ [NUL]"

definition fix_weekend_p :: "string \<Rightarrow> bool" where
  "fix_weekend_p msg \<longleftrightarrow> xmemmem_str msg weekend_rsn \<noteq> None"

text \<open>What a read yields: the bytes read, none when it fails, and the bytes behind them in the buffer.\<close>

record fixd_read =
  r_now :: "nat \<times> nat"
  r_rcv :: "string option"
  r_stale :: string

text \<open>What a message does, by its type; \<open>logon\<close> subscribes.\<close>

definition fixd_dispatch :: "(fixd \<Rightarrow> fixd option) \<Rightarrow> (char \<times> string) option \<Rightarrow> fixd \<Rightarrow> fixd option" where
  "fixd_dispatch logon m d =
     (case m of
        None \<Rightarrow> Some d
      | Some (ty, msg) \<Rightarrow>
          if ty = CHR ''A'' then logon (d\<lparr>d_st := STATE_ON\<rparr>)
          else if ty = CHR ''5'' then Some (d\<lparr>d_st := STATE_OFF, d_susp := (if fix_weekend_p msg then 60 else 0)\<rparr>)
          else Some d)"

definition fixd_beef :: "(nat \<times> nat \<Rightarrow> fixd \<Rightarrow> fixd option) \<Rightarrow> fixd_read \<Rightarrow> fixd \<Rightarrow> fixd option" where
  "fixd_beef logon r d = do {
     check (d_sc d);
     (case r_rcv r of
        None \<Rightarrow> Some (d\<lparr>d_st := STATE_UNK, d_brk := True\<rparr>)
      | Some rcv \<Rightarrow> do {
          check (rcv \<noteq> [] \<and> length rcv + length (r_stale r) = 16384);
          d \<leftarrow> buf_print (r_now r) rcv d;
          (m, buf) \<leftarrow> fix_parse (rcv @ r_stale r) (length rcv);
          (case m of
             None \<Rightarrow> fixd_dispatch (logon (r_now r)) None d
           | Some (ty, k, len) \<Rightarrow> do {
               check (k \<le> length rcv);
               fixd_dispatch (logon (r_now r)) (Some (ty, drop k (take (length rcv) buf))) d }) }) }"

definition okfix_beef_cb :: "string list \<Rightarrow> fixd_read \<Rightarrow> fixd \<Rightarrow> fixd option" where
  "okfix_beef_cb instr = fixd_beef (\<lambda>now. fixd_subscribe okfix_subsc now instr)"

definition derifix_beef_cb :: "string list \<Rightarrow> fixd_read \<Rightarrow> fixd \<Rightarrow> fixd option" where
  "derifix_beef_cb instr = fixd_beef (\<lambda>now. fixd_subscribe derifix_subsc now instr)"

definition btcc_beef_cb :: "string \<Rightarrow> fixd_read \<Rightarrow> fixd \<Rightarrow> fixd option" where
  "btcc_beef_cb logfile = fixd_beef (\<lambda>now d. do { d \<leftarrow> btcc_subsc logfile now d; Some (d\<lparr>d_st := STATE_SUB\<rparr>) })"

definition fixd_sigint_cb :: "nat \<times> nat \<Rightarrow> fixd \<Rightarrow> fixd option" where
  "fixd_sigint_cb now d = do {
     d \<leftarrow> fixd_gdbye now d;
     Some (d\<lparr>d_brk := True, d_st := STATE_UNK\<rparr>) }"

section \<open>The loop\<close>

text \<open>What the event loop may call. There is no heartbeat in \<open>src/okfix.c\<close>.\<close>

datatype fixd_event = BEEF fixd_read | SIGINT "nat \<times> nat" | HBEAT "nat \<times> nat" | MIDNIGHT "nat \<times> nat" nat nat

fun fixd_handle :: "(fixd_read \<Rightarrow> fixd \<Rightarrow> fixd option) \<Rightarrow> fixd_event \<Rightarrow> fixd \<Rightarrow> fixd option" where
  "fixd_handle beef (BEEF r) d = beef r d"
| "fixd_handle beef (SIGINT now) d = fixd_sigint_cb now d"
| "fixd_handle beef (HBEAT now) d = fixd_hbeat now d"
| "fixd_handle beef (MIDNIGHT now lnz hnz) d = fixd_rotate now lnz hnz d"

text \<open>
  The event loop, which is libev's. In every iteration it collects what is pending and runs the
  handlers for all of that, one after the other; being told to stop keeps it from another
  iteration, not from what is pending in this one. The events come as the list of iterations.
\<close>

fun fixd_pending :: "(fixd_read \<Rightarrow> fixd \<Rightarrow> fixd option) \<Rightarrow> fixd_event list \<Rightarrow> fixd \<Rightarrow> fixd option" where
  "fixd_pending beef [] d = Some d"
| "fixd_pending beef (e # es) d = do { d \<leftarrow> fixd_handle beef e d; fixd_pending beef es d }"

fun fixd_ev_run :: "(fixd_read \<Rightarrow> fixd \<Rightarrow> fixd option) \<Rightarrow> fixd_event list list \<Rightarrow> fixd \<Rightarrow> fixd option" where
  "fixd_ev_run beef bs d =
     (if d_brk d then Some d
      else (case bs of [] \<Rightarrow> Some d | b # bs1 \<Rightarrow> do { d \<leftarrow> fixd_pending beef b d; fixd_ev_run beef bs1 d }))"

declare fixd_ev_run.simps [simp del]

text \<open>What the environment has for one time around the loop of \<open>main\<close>: whether the connection can be
  made, the time of the logon and the events.\<close>

type_synonym fixd_session = "bool \<times> (nat \<times> nat) \<times> fixd_event list list"

text \<open>
  The loop of \<open>main\<close>. The result is the return code, none while it waits or when it is to connect
  once more than there is an environment for, for how long it slept each time, and the state.
\<close>

fun fixd_main ::
  "(nat \<times> nat \<Rightarrow> fixd \<Rightarrow> fixd option) \<Rightarrow> (fixd_read \<Rightarrow> fixd \<Rightarrow> fixd option)
    \<Rightarrow> fixd_session list \<Rightarrow> fixd \<Rightarrow> (nat option \<times> nat list \<times> fixd) option" where
  "fixd_main hello beef [] d = Some (None, [], d)"
| "fixd_main hello beef ((conn, now, bs) # ss) d =
     (if \<not> conn then Some (Some 1, [], d\<lparr>d_sc := False\<rparr>)
      else do {
        d \<leftarrow> hello now (d\<lparr>d_sc := True, d_brk := False\<rparr>);
        d \<leftarrow> fixd_ev_run beef bs d;
        if \<not> d_brk d then Some (None, [], d)
        else do {
          d \<leftarrow> Some (d\<lparr>d_sc := False\<rparr>);
          if d_st d = STATE_UNK then Some (Some 0, [d_susp d], d)
          else do {
            (rc, sl, d1) \<leftarrow> fixd_main hello beef ss d;
            Some (rc, d_susp d # sl, d1) } } })"

definition fixd_init :: "(nat \<Rightarrow> bool) \<Rightarrow> string \<Rightarrow> string \<Rightarrow> fixd" where
  "fixd_init tls sc tc =
     \<lparr>d_st = STATE_UNK, d_sc = False, d_susp = 0,
      d_fix = fix_set_tcomp_id tc (fix_set_scomp_id sc
        \<lparr>fix_seq = 1, scomp_id = [], tcomp_id = [], clck = ''YYYYMMDD-HH:MM:SS.000'', metr = 0\<rparr>),
      d_tls = tls, d_sent = [], d_log = [], d_rot = [], d_brk = False\<rparr>"

definition okfix_main :: "(nat \<Rightarrow> bool) \<Rightarrow> string \<Rightarrow> string \<Rightarrow> string list \<Rightarrow> fixd_session list
    \<Rightarrow> (nat option \<times> nat list \<times> fixd) option" where
  "okfix_main tls key sec instr ss =
     fixd_main (okfix_hello key sec) (okfix_beef_cb instr) ss (fixd_init tls ''okclient'' ''OKSERVER'')"

definition derifix_main :: "(nat \<Rightarrow> bool) \<Rightarrow> string \<Rightarrow> string \<Rightarrow> string list \<Rightarrow> fixd_session list
    \<Rightarrow> (nat option \<times> nat list \<times> fixd) option" where
  "derifix_main tls key sig instr ss =
     fixd_main (derifix_hello key sig) (derifix_beef_cb instr) ss (fixd_init tls ''deribitclient'' ''DERIBITSERVER'')"

text \<open>\<open>src/btcc.c\<close>: the instrument decides about the server. \<open>memcmp\<close> must not read behind the argument.\<close>

datatype btcc_srv_t = SPOT | PRO | SPOT_USD

datatype btcc_ins_t = BTCCNY | LTCCNY | LTCBTC | XBTCNY | BPICNY | BTCUSD

fun btcc_srvs :: "btcc_ins_t \<Rightarrow> btcc_srv_t" where
  "btcc_srvs BTCCNY = SPOT"
| "btcc_srvs LTCCNY = SPOT"
| "btcc_srvs LTCBTC = SPOT"
| "btcc_srvs XBTCNY = PRO"
| "btcc_srvs BPICNY = PRO"
| "btcc_srvs BTCUSD = SPOT_USD"

fun btcc_tcomps :: "btcc_srv_t \<Rightarrow> string" where
  "btcc_tcomps SPOT = ''BTCC-FIX-SERVER''"
| "btcc_tcomps PRO = ''BTCC-PRO-EXCHANGE-SERVER''"
| "btcc_tcomps SPOT_USD = ''BTCC''"

fun btcc_ins_of :: "(string \<times> btcc_ins_t) list \<Rightarrow> string \<Rightarrow> btcc_ins_t option option" where
  "btcc_ins_of [] arg = Some None"
| "btcc_ins_of ((n, i) # ns) arg = do {
     eq \<leftarrow> memcmp_mem arg n;
     if eq then Some (Some i) else btcc_ins_of ns arg }"

definition btcc_inss :: "(string \<times> btcc_ins_t) list" where
  "btcc_inss = [(''BTCCNY'', BTCCNY), (''LTCCNY'', LTCCNY), (''LTCBTC'', LTCBTC), (''XBTCNY'', XBTCNY),
     (''BPICNY'', BPICNY), (''BTCUSD'', BTCUSD)]"

definition btcc_main :: "(nat \<Rightarrow> bool) \<Rightarrow> string list \<Rightarrow> fixd_session list
    \<Rightarrow> (nat option \<times> nat list \<times> fixd) option" where
  "btcc_main tls args ss =
     (case args of
        [] \<Rightarrow> Some (Some 1, [], fixd_init tls [] [])
      | arg # _ \<Rightarrow> do {
          i \<leftarrow> btcc_ins_of btcc_inss arg;
          (case i of
             None \<Rightarrow> Some (Some 1, [], fixd_init tls [] [])
           | Some ins \<Rightarrow>
               fixd_main btcc_hello (btcc_beef_cb (take 6 arg)) ss
                 (fixd_init tls (''coins_btcc_'' @ take 6 arg) (btcc_tcomps (btcc_srvs ins)))) })"

end
