(* ===== verification/Fix_Daemon_Props.thy ===== *)
theory Fix_Daemon_Props
  imports Fix_Daemon Fix_Props
begin

text \<open>
  The daemons that log FIX feeds: when they connect again, and how the messages are numbered that
  they send.
\<close>

section \<open>Numbers\<close>

text \<open>The sequence number of a rendered message, and its type.\<close>

definition msg_seq :: "string \<Rightarrow> u64" where
  "msg_seq m = fst (strtoul 10 (drop 24 m))"

definition msg_type :: "string \<Rightarrow> char" where
  "msg_type m = m ! 19"

lemma fix_render_seq:
  assumes "fix_render now bsz m st = Some (out, st1)" "fix_seq st \<noteq> 0"
  shows "msg_seq out = ucast (fix_seq st)" "fix_seq st1 = fix_seq st + 1" "msg_type out = m_typ m"
proof -
  from fix_render_out [OF assms(1)] obtain tm st2 where
    out: "out = fix_front (fix_body st tm m) @ ''10='' @ three_digits (fix_chksum (fix_front (fix_body st tm m))) @ [SOH]"
    and st1: "st1 = st2\<lparr>fix_seq := fix_seq st + 1\<rparr>" by metis
  show "fix_seq st1 = fix_seq st + 1" by (simp add: st1)
  have n: "0 < unat (fix_seq st)" using assms(2) by (simp add: unat_gt_0)
  have "unat (fix_seq st) < 2 ^ 32" using unsigned_less [of "fix_seq st"] by simp
  then have lt: "unat (fix_seq st) < 2 ^ 64" by (rule less_trans) simp
  obtain x where x: "fix_body st tm m = ''35='' @ [m_typ m, SOH] @ ''34='' @ swap_loop (seq_digits (unat (fix_seq st))) 0 @ SOH # x"
    by (simp add: fix_body_def)
  define pre where "pre = ''8=FIX.4.4'' @ [SOH] @ ''9='' @ three_digits (length (fix_body st tm m)) @ [SOH]
    @ ''35='' @ [m_typ m, SOH] @ ''34=''"
  have pre: "fix_front (fix_body st tm m) = pre @ swap_loop (seq_digits (unat (fix_seq st))) 0 @ SOH # x"
    unfolding fix_front_def pre_def by (subst (2) x) simp
  define p where "p = ''8=FIX.4.4'' @ [SOH] @ ''9='' @ three_digits (length (fix_body st tm m)) @ [SOH] @ ''35=''"
  have "length p = 19" "pre = p @ m_typ m # SOH # ''34=''" by (simp_all add: p_def pre_def)
  then show "msg_type out = m_typ m" unfolding out pre by (simp add: msg_type_def nth_append)
  have "length pre = 24" by (simp add: pre_def)
  then obtain r where "drop 24 out = dec_string (unat (fix_seq st)) @ SOH # r"
    unfolding out pre swap_loop_rev rev_seq_digits [OF n] by simp
  then show "msg_seq out = ucast (fix_seq st)"
    using strtoul_zero_pad [OF lt SOH_ends, of 0 r] by (simp add: msg_seq_def zero_pad_def of_nat_unat)
qed

text \<open>
  A message is a logon, with number 1, or follows one with the number before; the first one is a
  logon.
\<close>

definition numbered :: "string list \<Rightarrow> bool" where
  "numbered ms \<longleftrightarrow> (\<forall>i < length ms.
     if msg_type (ms ! i) = CHR ''A'' then msg_seq (ms ! i) = 1
     else 0 < i \<and> msg_seq (ms ! i) = msg_seq (ms ! (i - 1)) + 1)"

lemma numbered_Nil [simp]: "numbered []"
  by (simp add: numbered_def)

lemma numbered_snoc:
  "numbered (ms @ [m]) \<longleftrightarrow> numbered ms \<and>
     (if msg_type m = CHR ''A'' then msg_seq m = 1 else ms \<noteq> [] \<and> msg_seq m = msg_seq (last ms) + 1)"
proof -
  define ok where "ok ms i \<longleftrightarrow> (if msg_type (ms ! i) = CHR ''A'' then msg_seq (ms ! i) = 1
     else 0 < i \<and> msg_seq (ms ! i) = msg_seq (ms ! (i - 1)) + 1)" for ms i
  have num: "numbered ms \<longleftrightarrow> (\<forall>i < length ms. ok ms i)" for ms by (simp add: numbered_def ok_def)
  have "ok (ms @ [m]) i = ok ms i" if "i < length ms" for i
    using that by (simp add: ok_def nth_append less_imp_diff_less)
  then have "numbered (ms @ [m]) \<longleftrightarrow> numbered ms \<and> ok (ms @ [m]) (length ms)" by (auto simp: num less_Suc_eq)
  moreover have "ms \<noteq> [] \<Longrightarrow> (ms @ [m]) ! (length ms - 1) = last ms" by (simp add: nth_append last_conv_nth)
  ultimately show ?thesis by (cases "ms = []") (simp_all add: ok_def)
qed

text \<open>What was handed to \<open>tls_send\<close>; the counter is one ahead of the last message while there is a
  connection, as long as it does not wrap around.\<close>

abbreviation handed :: "fixd \<Rightarrow> string list" where
  "handed d \<equiv> map fst (d_sent d)"

definition nums :: "fixd \<Rightarrow> bool" where
  "nums d \<longleftrightarrow> (length (d_sent d) < 2 ^ 32 - 1 \<longrightarrow> numbered (handed d))"

definition seq_ok :: "fixd \<Rightarrow> bool" where
  "seq_ok d \<longleftrightarrow> d_sc d \<and> d_sent d \<noteq> [] \<and> nums d \<and> (length (d_sent d) < 2 ^ 32 - 1 \<longrightarrow>
     (\<exists>k \<le> length (d_sent d). fix_seq (d_fix d) = of_nat (k + 1) \<and> msg_seq (last (handed d)) = of_nat k))"

lemma buf_print_kept: "buf_print now s d = Some d1 \<Longrightarrow>
    d_st d1 = d_st d \<and> d_sc d1 = d_sc d \<and> d_fix d1 = d_fix d \<and> d_sent d1 = d_sent d \<and> d_brk d1 = d_brk d"
  by (auto simp: buf_print_def Let_def elim!: bind_elims)

lemma tls_send_kept: "d_st (tls_send m d) = d_st d" "d_sc (tls_send m d) = d_sc d" "d_brk (tls_send m d) = d_brk d"
    "d_fix (tls_send m d) = d_fix d" "handed (tls_send m d) = handed d @ [m]"
  by (simp_all add: tls_send_def)

lemma fixd_send_kept: "fixd_send now bsz ty body d = Some d1 \<Longrightarrow> d_st d1 = d_st d \<and> d_sc d1 = d_sc d \<and> d_brk d1 = d_brk d"
  by (auto simp: fixd_send_def tls_send_kept dest!: buf_print_kept elim!: bind_elims split: if_split_asm)

lemma fixd_send_out:
  assumes "fixd_send now bsz ty body d = Some d1" "d_sc d"
  obtains m fs where "fix_render (fst now) bsz \<lparr>m_typ = ty, m_msg = body\<rparr> (d_fix d) = Some (m, fs)"
    "handed d1 = handed d @ [m]" "d_fix d1 = fs" "d_sc d1"
  using assms by (auto simp: fixd_send_def tls_send_kept dest!: buf_print_kept elim!: bind_elims)

lemma fixd_send_seq:
  assumes "fixd_send now bsz ty body d = Some d1" "seq_ok d" "ty \<noteq> CHR ''A''"
  shows "seq_ok d1"
proof -
  have "d_sc d" using assms(2) by (simp add: seq_ok_def)
  with assms(1) obtain m fs where r: "fix_render (fst now) bsz \<lparr>m_typ = ty, m_msg = body\<rparr> (d_fix d) = Some (m, fs)"
    and d1: "handed d1 = handed d @ [m]" "d_fix d1 = fs" "d_sc d1" by (rule fixd_send_out)
  have len: "length (d_sent d1) = length (d_sent d) + 1" using arg_cong [OF d1(1), of length] by simp
  show ?thesis
  proof (cases "length (d_sent d1) < 2 ^ 32 - 1")
    case False
    with d1 len show ?thesis by (auto simp: seq_ok_def nums_def)
  next
    case True
    then obtain k where k: "k \<le> length (d_sent d)" "fix_seq (d_fix d) = of_nat (k + 1)"
        "msg_seq (last (handed d)) = of_nat k" "numbered (handed d)" "handed d \<noteq> []"
      using assms(2) len by (auto simp: seq_ok_def nums_def)
    have lt: "k + 1 < 2 ^ 32" using k(1) True len by simp
    have u: "unat (of_nat (k + 1) :: u32) = k + 1"
      by (subst unat_of_nat) (use lt in \<open>simp add: take_bit_nat_eq_self\<close>)
    then have nz: "fix_seq (d_fix d) \<noteq> 0" unfolding k(2) by (metis Suc_eq_plus1 nat.distinct(1) unsigned_0)
    have "msg_seq m = of_nat (k + 1)"
    proof -
      have "(of_nat (unat (of_nat (k + 1) :: u32)) :: u64) = ucast (of_nat (k + 1) :: u32)" by (rule of_nat_unat)
      then have "ucast (of_nat (k + 1) :: u32) = (of_nat (k + 1) :: u64)" unfolding u by (rule sym)
      then show ?thesis using fix_render_seq(1) [OF r nz] unfolding k(2) by simp
    qed
    moreover have "fix_seq fs = of_nat (k + 1 + 1)" using fix_render_seq(2) [OF r nz] by (simp add: k(2))
    moreover have "msg_type m \<noteq> CHR ''A''" using fix_render_seq(3) [OF r nz] assms(3) by simp
    ultimately show ?thesis
      using d1 len k by (auto simp: seq_ok_def nums_def numbered_snoc intro!: exI [of _ "k + 1"])
  qed
qed

lemma seq_ok_st: "seq_ok (d\<lparr>d_st := s\<rparr>) = seq_ok d" "seq_ok (d\<lparr>d_susp := k\<rparr>) = seq_ok d"
    "seq_ok (d\<lparr>d_brk := b\<rparr>) = seq_ok d" "nums (d\<lparr>d_sc := c, d_brk := b\<rparr>) = nums d" "nums (d\<lparr>d_sc := c\<rparr>) = nums d"
  by (simp_all add: seq_ok_def nums_def)

lemma fixd_hello_seq:
  assumes "fixd_hello helo now d = Some d1" "d_sc d" "nums d"
  shows "seq_ok d1"
proof -
  let ?d = "d\<lparr>d_fix := fix_reset (d_fix d)\<rparr>"
  have "d_sc ?d" using assms(2) by simp
  with assms(1) obtain m fs where r: "fix_render (fst now) 1536 \<lparr>m_typ = CHR ''A'', m_msg = helo\<rparr> (d_fix ?d) = Some (m, fs)"
    and d1: "handed d1 = handed ?d @ [m]" "d_fix d1 = fs" "d_sc d1"
    unfolding fixd_hello_def by (rule fixd_send_out)
  have "fix_seq (d_fix ?d) = 1" by (simp add: fix_reset_def)
  then have "msg_seq m = 1" "fix_seq fs = 2" "msg_type m = CHR ''A''" using fix_render_seq [OF r] by simp_all
  moreover have "length (d_sent d1) = length (d_sent d) + 1" using arg_cong [OF d1(1), of length] by simp
  ultimately show ?thesis
    using d1 assms(3) by (auto simp: seq_ok_def nums_def numbered_snoc intro!: exI [of _ 1])
qed

lemma fixd_hello_kept: "fixd_hello helo now d = Some d1 \<Longrightarrow> d_brk d1 = d_brk d"
  by (auto simp: fixd_hello_def dest!: fixd_send_kept)

section \<open>Leaving the event loop\<close>

text \<open>The type of the message that is read, and whether it is a logon or a logout.\<close>

definition read_type :: "fixd_read \<Rightarrow> char option" where
  "read_type r = (case r_rcv r of
     None \<Rightarrow> None
   | Some rcv \<Rightarrow> (case fix_parse (rcv @ r_stale r) (length rcv) of
        Some (Some (ty, _), _) \<Rightarrow> Some ty
      | _ \<Rightarrow> None))"

definition session_read :: "fixd_read \<Rightarrow> bool" where
  "session_read r \<longleftrightarrow> read_type r = Some (CHR ''A'') \<or> read_type r = Some (CHR ''5'')"

text \<open>
  An interrupt and a failing read tell the loop to stop. Of an iteration, whether there is one, and
  if so, whether a logon or a logout is read after the last.
\<close>

fun stop_mark :: "fixd_event \<Rightarrow> bool option \<Rightarrow> bool option" where
  "stop_mark (SIGINT now) m = Some False"
| "stop_mark (BEEF r) m =
     (if r_rcv r = None then Some False else if session_read r then map_option (\<lambda>_. True) m else m)"
| "stop_mark (HBEAT now) m = m"
| "stop_mark (MIDNIGHT now l h) m = m"

fun loop_end :: "fixd_event list list \<Rightarrow> bool option" where
  "loop_end [] = None"
| "loop_end (b # bs) = (case fold stop_mark b None of None \<Rightarrow> loop_end bs | Some r \<Rightarrow> Some r)"

definition marked :: "bool option \<Rightarrow> fixd \<Rightarrow> bool" where
  "marked m d \<longleftrightarrow> (case m of None \<Rightarrow> \<not> d_brk d | Some r \<Rightarrow> d_brk d \<and> (d_st d \<noteq> STATE_UNK \<longleftrightarrow> r))"

section \<open>The interface\<close>

text \<open>
  What the loop of \<open>main\<close> relies on: the logon starts the numbering and reading keeps it; a read that
  fails stops the loop in the first state, any other one does not, and is in another state
  after a logon or a logout.
\<close>

locale fixd_client =
  fixes hello :: "nat \<times> nat \<Rightarrow> fixd \<Rightarrow> fixd option" and beef :: "fixd_read \<Rightarrow> fixd \<Rightarrow> fixd option"
  assumes hello_starts: "hello now d = Some d1 \<Longrightarrow> d_sc d \<Longrightarrow> (nums d \<longrightarrow> seq_ok d1) \<and> d_brk d1 = d_brk d"
    and beef_seq: "beef r d = Some d1 \<Longrightarrow> seq_ok d \<Longrightarrow> seq_ok d1"
    and beef_fails: "beef r d = Some d1 \<Longrightarrow> r_rcv r = None \<Longrightarrow> d_brk d1 \<and> d_st d1 = STATE_UNK"
    and beef_reads: "beef r d = Some d1 \<Longrightarrow> r_rcv r \<noteq> None \<Longrightarrow>
      d_brk d1 = d_brk d \<and> (if session_read r then d_st d1 \<noteq> STATE_UNK else d_st d1 = d_st d)"
begin

lemma handle_seq: "fixd_handle beef e d = Some d1 \<Longrightarrow> seq_ok d \<Longrightarrow> seq_ok d1"
proof (cases e)
  case (SIGINT now)
  assume "fixd_handle beef e d = Some d1" "seq_ok d"
  with SIGINT show ?thesis
    by (auto simp: fixd_sigint_cb_def fixd_gdbye_def seq_ok_st dest: fixd_send_seq elim!: bind_elims)
next
  case (MIDNIGHT now l h)
  assume "fixd_handle beef e d = Some d1" "seq_ok d"
  with MIDNIGHT show ?thesis
    by (auto simp: fixd_rotate_def seq_ok_def nums_def dest!: buf_print_kept elim!: bind_elims)
next
  case (HBEAT now)
  assume "fixd_handle beef e d = Some d1" "seq_ok d"
  with HBEAT show ?thesis by (auto simp: fixd_hbeat_def dest: fixd_send_seq)
qed (auto dest: beef_seq)

lemma handle_mark: "fixd_handle beef e d = Some d1 \<Longrightarrow> marked m d \<Longrightarrow> marked (stop_mark e m) d1"
proof (cases e)
  case (BEEF r)
  assume "fixd_handle beef e d = Some d1" "marked m d"
  with BEEF beef_fails [of r d d1] beef_reads [of r d d1] show ?thesis
    by (cases m; cases "r_rcv r") (auto simp: marked_def split: if_split_asm)
qed (auto simp: marked_def fixd_sigint_cb_def fixd_gdbye_def fixd_hbeat_def fixd_rotate_def
    dest!: fixd_send_kept buf_print_kept elim!: bind_elims split: option.splits)

lemma pending_seq: "fixd_pending beef es d = Some d1 \<Longrightarrow> seq_ok d \<Longrightarrow> seq_ok d1"
  by (induction es arbitrary: d) (auto dest: handle_seq elim!: bind_elims)

lemma pending_mark: "fixd_pending beef es d = Some d1 \<Longrightarrow> marked m d \<Longrightarrow> marked (fold stop_mark es m) d1"
  by (induction es arbitrary: d m) (auto dest: handle_mark elim!: bind_elims)

lemma ev_run_seq: "fixd_ev_run beef bs d = Some d1 \<Longrightarrow> seq_ok d \<Longrightarrow> seq_ok d1"
proof (induction bs arbitrary: d)
  case (Cons b bs)
  then show ?case
    by (auto simp: fixd_ev_run.simps [of beef "b # bs"] dest: pending_seq split: if_split_asm elim!: bind_elims)
qed (simp add: fixd_ev_run.simps split: if_split_asm)

lemma ev_run_mark: "fixd_ev_run beef bs d = Some d1 \<Longrightarrow> \<not> d_brk d \<Longrightarrow> marked (loop_end bs) d1"
proof (induction bs arbitrary: d)
  case Nil
  then show ?case by (simp add: fixd_ev_run.simps marked_def)
next
  case (Cons b bs)
  from Cons.prems obtain d2 where d2: "fixd_pending beef b d = Some d2" "fixd_ev_run beef bs d2 = Some d1"
    by (auto simp: fixd_ev_run.simps [of beef "b # bs"] elim!: bind_elims)
  have m: "marked (fold stop_mark b None) d2" using pending_mark [OF d2(1)] Cons.prems(2) by (simp add: marked_def)
  show ?case
  proof (cases "fold stop_mark b None")
    case None
    with m Cons.IH [OF d2(2)] show ?thesis by (simp add: marked_def)
  next
    case (Some r)
    with m d2(2) have "d1 = d2" by (simp add: marked_def fixd_ev_run.simps)
    with m Some show ?thesis by simp
  qed
qed

text \<open>The first time around the loop of \<open>main\<close>.\<close>

lemma main_first:
  assumes "fixd_main hello beef [(True, now, bs)] d = Some (rc, sl, d1)"
  shows "loop_end bs = None \<Longrightarrow> rc = None \<and> sl = [] \<and> fixd_main hello beef ((True, now, bs) # ss) d = Some (rc, sl, d1)"
    and "loop_end bs = Some False \<Longrightarrow> rc = Some 0 \<and> fixd_main hello beef ((True, now, bs) # ss) d = Some (rc, sl, d1)"
    and "loop_end bs = Some True \<Longrightarrow> rc = None \<and>
      fixd_main hello beef ((True, now, bs) # (False, now2, bs2) # ss) d = Some (Some 1, sl, d1)"
proof -
  obtain d2 d3 where d: "hello now (d\<lparr>d_sc := True, d_brk := False\<rparr>) = Some d2" "fixd_ev_run beef bs d2 = Some d3"
    using assms by (auto elim!: bind_elims)
  have "\<not> d_brk d2" using hello_starts [OF d(1)] by simp
  with d(2) have m: "marked (loop_end bs) d3" by (rule ev_run_mark)
  show "loop_end bs = None \<Longrightarrow> rc = None \<and> sl = [] \<and> fixd_main hello beef ((True, now, bs) # ss) d = Some (rc, sl, d1)"
    using assms d m by (simp add: marked_def)
  show "loop_end bs = Some False \<Longrightarrow> rc = Some 0 \<and> fixd_main hello beef ((True, now, bs) # ss) d = Some (rc, sl, d1)"
    using assms d m by (auto simp: marked_def)
  show "loop_end bs = Some True \<Longrightarrow> rc = None \<and>
      fixd_main hello beef ((True, now, bs) # (False, now2, bs2) # ss) d = Some (Some 1, sl, d1)"
    using assms d m by (auto simp: marked_def)
qed

lemma main_nums: "fixd_main hello beef ss d = Some (rc, sl, d1) \<Longrightarrow> nums d \<Longrightarrow> nums d1"
proof (induction ss arbitrary: d rc sl)
  case (Cons s ss)
  obtain conn now bs where s: "s = (conn, now, bs)" by (cases s)
  show ?case
  proof (cases conn)
    case False
    with Cons.prems s show ?thesis by (auto simp: seq_ok_st)
  next
    case True
    with Cons.prems(1) obtain d2 d3 where d: "hello now (d\<lparr>d_sc := True, d_brk := False\<rparr>) = Some d2"
      "fixd_ev_run beef bs d2 = Some d3"
      by (auto simp: s elim!: bind_elims)
    have "seq_ok d2" using hello_starts [OF d(1)] Cons.prems(2) by (simp add: seq_ok_st)
    with d(2) have "seq_ok d3" by (rule ev_run_seq)
    then have "nums d3" by (simp add: seq_ok_def)
    with Cons.prems(1) d True show ?thesis
      by (auto simp: s seq_ok_st split: if_split_asm elim!: bind_elims dest: Cons.IH)
  qed
qed simp

end

section \<open>The three daemons\<close>

text \<open>What subscribing keeps.\<close>

definition only_sends :: "fixd \<Rightarrow> fixd \<Rightarrow> bool" where
  "only_sends d d1 \<longleftrightarrow> (seq_ok d \<longrightarrow> seq_ok d1) \<and> d_brk d1 = d_brk d \<and> d_st d1 = d_st d"

lemma fixd_request_sends: "fixd_request req now ins d = Some d1 \<Longrightarrow> only_sends d d1"
  by (auto simp: fixd_request_def only_sends_def dest: fixd_send_kept fixd_send_seq elim!: bind_elims)

lemma okfix_subsc_sends: "okfix_subsc now i d = Some d1 \<Longrightarrow> only_sends d d1"
  by (auto simp: okfix_subsc_def only_sends_def dest!: fixd_request_sends elim!: bind_elims)

lemma derifix_subsc_sends: "derifix_subsc now i d = Some d1 \<Longrightarrow> only_sends d d1"
  by (auto simp: derifix_subsc_def dest: fixd_request_sends)

lemma btcc_subsc_sends: "btcc_subsc l now d = Some d1 \<Longrightarrow> only_sends d d1"
  by (auto simp: btcc_subsc_def only_sends_def dest: fixd_send_kept fixd_send_seq)

definition subscribes :: "fixd \<Rightarrow> fixd \<Rightarrow> bool" where
  "subscribes d d1 \<longleftrightarrow> (seq_ok d \<longrightarrow> seq_ok d1) \<and> d_brk d1 = d_brk d \<and> (d_st d \<noteq> STATE_UNK \<longrightarrow> d_st d1 \<noteq> STATE_UNK)"

lemma fixd_subscribe_sends:
  assumes "\<And>i d d1. subsc now i d = Some d1 \<Longrightarrow> only_sends d d1"
  shows "fixd_subscribe subsc now is d = Some d1 \<Longrightarrow> subscribes d d1"
proof (induction "is" arbitrary: d)
  case (Cons i "is")
  from Cons.prems obtain d2 where d2: "subsc now i d = Some d2" "fixd_subscribe subsc now is (d2\<lparr>d_st := STATE_SUB\<rparr>) = Some d1"
    by (auto elim!: bind_elims)
  from assms [OF d2(1)] Cons.IH [OF d2(2)] show ?case by (simp add: seq_ok_st only_sends_def subscribes_def)
qed (simp add: subscribes_def)

lemma fixd_dispatch_kept:
  assumes "\<And>d d1. logon d = Some d1 \<Longrightarrow> subscribes d d1" and "fixd_dispatch logon m d = Some d1"
  shows "(seq_ok d \<longrightarrow> seq_ok d1) \<and> d_brk d1 = d_brk d \<and>
    (if map_option fst m = Some (CHR ''A'') \<or> map_option fst m = Some (CHR ''5'') then d_st d1 \<noteq> STATE_UNK
     else d_st d1 = d_st d)"
  using assms(2) assms(1) [of "d\<lparr>d_st := STATE_ON\<rparr>" d1]
  by (auto simp: fixd_dispatch_def subscribes_def seq_ok_st split: option.splits if_split_asm prod.splits)

lemma fixd_beef_client:
  assumes "\<forall>now d d1. logon now d = Some d1 \<longrightarrow> subscribes d d1"
    and "fixd_beef logon r d = Some d1"
  shows "seq_ok d \<Longrightarrow> seq_ok d1"
    and "r_rcv r = None \<Longrightarrow> d_brk d1 \<and> d_st d1 = STATE_UNK"
    and "r_rcv r \<noteq> None \<Longrightarrow> d_brk d1 = d_brk d \<and> (if session_read r then d_st d1 \<noteq> STATE_UNK else d_st d1 = d_st d)"
proof -
  have read: "(seq_ok d \<longrightarrow> seq_ok d1) \<and> d_brk d1 = d_brk d \<and>
      (if session_read r then d_st d1 \<noteq> STATE_UNK else d_st d1 = d_st d)" if rcv: "r_rcv r = Some rcv" for rcv
  proof -
    from assms(2) rcv obtain d2 m buf where d2: "buf_print (r_now r) rcv d = Some d2"
      "fix_parse (rcv @ r_stale r) (length rcv) = Some (m, buf)"
      "fixd_dispatch (logon (r_now r)) (map_option (\<lambda>(ty, k, len). (ty, drop k (take (length rcv) buf))) m) d2 = Some d1"
      unfolding fixd_beef_def by (auto elim!: bind_elims split: option.splits prod.splits)
    have "map_option fst (map_option (\<lambda>(ty, k, len). (ty, drop k (take (length rcv) buf))) m) = read_type r"
      using d2(2) rcv by (cases m) (auto simp: read_type_def)
    with fixd_dispatch_kept [OF _ d2(3)] assms(1) buf_print_kept [OF d2(1)] show ?thesis
      by (simp add: session_read_def seq_ok_def nums_def)
  qed
  show "r_rcv r = None \<Longrightarrow> d_brk d1 \<and> d_st d1 = STATE_UNK" using assms(2) by (auto simp: fixd_beef_def elim!: bind_elims)
  show "seq_ok d \<Longrightarrow> seq_ok d1" using assms(2) read
    by (cases "r_rcv r") (auto simp: fixd_beef_def seq_ok_st elim!: bind_elims)
  show "r_rcv r \<noteq> None \<Longrightarrow> d_brk d1 = d_brk d \<and> (if session_read r then d_st d1 \<noteq> STATE_UNK else d_st d1 = d_st d)"
    using read by blast
qed

lemma okfix_logon: "\<forall>now d d1. fixd_subscribe okfix_subsc now instr d = Some d1 \<longrightarrow> subscribes d d1"
  using fixd_subscribe_sends [of okfix_subsc] okfix_subsc_sends by blast

lemma derifix_logon: "\<forall>now d d1. fixd_subscribe derifix_subsc now instr d = Some d1 \<longrightarrow> subscribes d d1"
  using fixd_subscribe_sends [of derifix_subsc] derifix_subsc_sends by blast

lemma btcc_logon:
  "\<forall>now d d1. Option.bind (btcc_subsc l now d) (\<lambda>d. Some (d\<lparr>d_st := STATE_SUB\<rparr>)) = Some d1 \<longrightarrow> subscribes d d1"
  by (auto simp: seq_ok_st only_sends_def subscribes_def dest!: btcc_subsc_sends elim!: bind_elims)

lemma fixd_hello_client:
  "fixd_hello helo now d = Some d1 \<Longrightarrow> d_sc d \<Longrightarrow> (nums d \<longrightarrow> seq_ok d1) \<and> d_brk d1 = d_brk d"
  using fixd_hello_seq fixd_hello_kept by blast

lemma okfix_beef:
  assumes "okfix_beef_cb instr r d = Some d1"
  shows "seq_ok d \<Longrightarrow> seq_ok d1" "r_rcv r = None \<Longrightarrow> d_brk d1 \<and> d_st d1 = STATE_UNK"
    "r_rcv r \<noteq> None \<Longrightarrow> d_brk d1 = d_brk d \<and> (if session_read r then d_st d1 \<noteq> STATE_UNK else d_st d1 = d_st d)"
  using fixd_beef_client [OF okfix_logon assms [unfolded okfix_beef_cb_def]] by blast+

lemma derifix_beef:
  assumes "derifix_beef_cb instr r d = Some d1"
  shows "seq_ok d \<Longrightarrow> seq_ok d1" "r_rcv r = None \<Longrightarrow> d_brk d1 \<and> d_st d1 = STATE_UNK"
    "r_rcv r \<noteq> None \<Longrightarrow> d_brk d1 = d_brk d \<and> (if session_read r then d_st d1 \<noteq> STATE_UNK else d_st d1 = d_st d)"
  using fixd_beef_client [OF derifix_logon assms [unfolded derifix_beef_cb_def]] by blast+

lemma btcc_beef:
  assumes "btcc_beef_cb logfile r d = Some d1"
  shows "seq_ok d \<Longrightarrow> seq_ok d1" "r_rcv r = None \<Longrightarrow> d_brk d1 \<and> d_st d1 = STATE_UNK"
    "r_rcv r \<noteq> None \<Longrightarrow> d_brk d1 = d_brk d \<and> (if session_read r then d_st d1 \<noteq> STATE_UNK else d_st d1 = d_st d)"
  using fixd_beef_client [OF btcc_logon assms [unfolded btcc_beef_cb_def]] by blast+

interpretation okfix: fixd_client "okfix_hello key sec" "okfix_beef_cb instr" for key sec instr
  by unfold_locales (simp_all add: okfix_hello_def fixd_hello_client okfix_beef)

interpretation derifix: fixd_client "derifix_hello key sig" "derifix_beef_cb instr" for key sig instr
  by unfold_locales (auto simp: derifix_hello_def dest: fixd_hello_client derifix_beef elim!: bind_elims)

interpretation btcc: fixd_client btcc_hello "btcc_beef_cb logfile" for logfile
  by unfold_locales (simp_all add: btcc_hello_def fixd_hello_client btcc_beef)

section \<open>Properties\<close>

text \<open>A logon and, when interrupted, a logout, which does not go out.\<close>

lemma okfix_hello_bye:
  "map_option (\<lambda>(rc, sl, d). (rc, map snd (d_sent d), map (msg_type \<circ> fst) (d_sent d)))
     (okfix_main (\<lambda>k. k = 0) ''k'' ''s'' [''BTC/USD''] [(True, (0, 5), [[], [SIGINT (0, 7)]])])
   = Some (Some 0, [True, False], ''A5'')"
  by code_simp

text \<open>An interrupt and a logout read in the same iteration.\<close>

definition logout_text :: string where
  "logout_text = ''8=FIX.4.4'' @ [SOH] @ ''9=005'' @ [SOH] @ ''35=5'' @ [SOH]"

lemma logout_text_length: "length logout_text = 21" "logout_text \<noteq> []"
  by (simp_all add: logout_text_def)

definition logout_read :: fixd_read where
  "logout_read = \<lparr>r_now = (0, 8), r_rcv = Some logout_text,
     r_stale = replicate 16363 NUL\<rparr>"

definition crossing :: fixd_session where
  "crossing = (True, (0, 5), [[SIGINT (0, 7), BEEF logout_read]])"

lemma logout_parsed:
  "\<exists>buf. fix_parse (logout_text @ stale) (length logout_text) = Some (Some (CHR ''5'', 20, 1), buf)"
  by (simp add: logout_text_def fix_parse_def fhdr_parse_def numeral_eq_Suc)

lemma logout_beef: "d_sc d \<Longrightarrow> \<exists>d1. okfix_beef_cb instr logout_read d = Some d1"
proof -
  assume sc: "d_sc d"
  have "length (fixd_clock (0, 8)) = 11" by code_simp
  then obtain d2 where "buf_print (0, 8) logout_text d = Some d2"
    by (simp add: buf_print_def OUT_SIZE_def logout_text_length)
  with sc logout_parsed [of "replicate 16363 NUL"] show ?thesis
    by (auto simp: okfix_beef_cb_def fixd_beef_def logout_read_def fixd_dispatch_def logout_text_length)
qed

lemma crossing_ends: "loop_end [[SIGINT (0, 7), BEEF logout_read]] = Some True"
proof -
  have "read_type logout_read = Some (CHR ''5'')"
    using logout_parsed [of "replicate 16363 NUL"] by (auto simp: read_type_def logout_read_def)
  moreover have "r_rcv logout_read \<noteq> None" by (simp add: logout_read_def)
  ultimately show ?thesis by (simp add: session_read_def)
qed

lemma crossing_runs:
  "\<exists>rc sl d. okfix_main (\<lambda>_. True) ''k'' ''s'' [''BTC/USD''] [crossing] = Some (rc, sl, d) \<and> rc \<noteq> Some 1"
proof -
  let ?d0 = "(fixd_init (\<lambda>_. True) ''okclient'' ''OKSERVER'')\<lparr>d_sc := True, d_brk := False\<rparr>"
  have "map_option (\<lambda>d. (d_brk d, map_option d_sc (fixd_sigint_cb (0, 7) d))) (okfix_hello ''k'' ''s'' (0, 5) ?d0) = Some (False, Some True)"
    by code_simp
  then obtain d1 d2 where d: "okfix_hello ''k'' ''s'' (0, 5) ?d0 = Some d1" "\<not> d_brk d1"
      "fixd_sigint_cb (0, 7) d1 = Some d2" "d_sc d2" by auto
  obtain d3 where "okfix_beef_cb [''BTC/USD''] logout_read d2 = Some d3" using logout_beef [OF d(4)] by blast
  with d show ?thesis
    by (cases "d_brk d3"; cases "d_st d3 = STATE_UNK")
      (simp_all add: okfix_main_def crossing_def fixd_ev_run.simps)
qed

lemma btcc_main_cases:
  obtains (refused) "\<And>ss. btcc_main tls args ss = Some (Some 1, [], fixd_init tls [] [])"
  | (overread) "\<And>ss. btcc_main tls args ss = None"
  | (runs) l sc tc where "\<And>ss. btcc_main tls args ss = fixd_main btcc_hello (btcc_beef_cb l) ss (fixd_init tls sc tc)"
proof (cases args)
  case Nil
  then show thesis by (intro refused) (simp add: btcc_main_def)
next
  case (Cons arg as)
  show thesis
  proof (cases "btcc_ins_of btcc_inss arg")
    case None
    with Cons show thesis by (intro overread) (simp add: btcc_main_def)
  next
    case (Some i)
    with Cons refused runs [of "take 6 arg" "''coins_btcc_'' @ take 6 arg"] show thesis
      by (cases i) (simp_all add: btcc_main_def)
  qed
qed

text \<open>The three programs, each with its arguments.\<close>

definition fixd_program :: "(fixd_session list \<Rightarrow> (nat option \<times> nat list \<times> fixd) option) \<Rightarrow> bool" where
  "fixd_program main \<longleftrightarrow> (\<exists>tls key sec instr args.
     main = okfix_main tls key sec instr \<or> main = derifix_main tls key sec instr \<or> main = btcc_main tls args)"

lemma fixd_program_cases:
  assumes "fixd_program main"
  obtains (refused) d where "\<And>ss. main ss = Some (Some 1, [], d)" "d_sent d = []"
  | (overread) "\<And>ss. main ss = None"
  | (runs) hello beef d where "fixd_client hello beef" "\<And>ss. main ss = fixd_main hello beef ss d" "d_sent d = []"
proof -
  have sent: "d_sent (fixd_init tls sc tc) = []" for tls sc tc by (simp add: fixd_init_def)
  from assms obtain tls key sec instr args where
    "main = okfix_main tls key sec instr \<or> main = derifix_main tls key sec instr \<or> main = btcc_main tls args"
    unfolding fixd_program_def by blast
  then show thesis
  proof (elim disjE)
    assume "main = okfix_main tls key sec instr"
    then show thesis using runs [OF okfix.fixd_client_axioms _ sent] by (simp add: okfix_main_def)
  next
    assume "main = derifix_main tls key sec instr"
    then show thesis using runs [OF derifix.fixd_client_axioms _ sent] by (simp add: derifix_main_def)
  next
    assume m: "main = btcc_main tls args"
    show thesis
      by (cases rule: btcc_main_cases [of tls args])
        (use m refused overread runs [OF btcc.fixd_client_axioms _ sent] sent in auto)
  qed
qed

text \<open>C36. When a daemon that accepts its arguments connects again, once it is connected: not after a
  logout, as the loop around the connection is meant to. It waits as long as there is no
  interrupt and no read fails. Then it ends with the return code 0, whatever the environment
  has for later connections, unless a logon or a logout is read after that in the same
  iteration of the event loop: in this case it forgets that it was to end and connects again,
  and gives 1 if that cannot be done.\<close>

theorem fixd_connects_again:
  assumes "fixd_program main" "main [(True, now, bs)] = Some (rc, sl, d)" "rc \<noteq> Some 1"
  shows "case loop_end bs of
      None \<Rightarrow> rc = None \<and> sl = [] \<and> (\<forall>ss. main ((True, now, bs) # ss) = Some (rc, sl, d))
    | Some False \<Rightarrow> rc = Some 0 \<and> (\<forall>ss. main ((True, now, bs) # ss) = Some (rc, sl, d))
    | Some True \<Rightarrow> rc = None \<and> (\<forall>now2 bs2 ss. main ((True, now, bs) # (False, now2, bs2) # ss) = Some (Some 1, sl, d))"
  using assms(1)
proof (cases rule: fixd_program_cases)
  case (runs hello beef d0)
  have m: "fixd_main hello beef [(True, now, bs)] d0 = Some (rc, sl, d)" using assms(2) runs(2) by simp
  show ?thesis
    using fixd_client.main_first [OF runs(1) m] runs(2) by (auto split: option.splits bool.splits)
qed (use assms(2,3) in auto)

theorem fixd_connects_again_witness:
  "\<exists>sl d. okfix_main (\<lambda>_. True) ''k'' ''s'' [''BTC/USD''] [crossing] = Some (None, sl, d) \<and>
     okfix_main (\<lambda>_. True) ''k'' ''s'' [''BTC/USD''] [crossing, (False, (0, 9), [])] = Some (Some 1, sl, d)"
proof -
  let ?main = "okfix_main (\<lambda>_. True) ''k'' ''s'' [''BTC/USD'']"
  obtain rc sl d where r: "?main [crossing] = Some (rc, sl, d)" "rc \<noteq> Some 1" using crossing_runs by blast
  have "fixd_program ?main" unfolding fixd_program_def by blast
  from fixd_connects_again [OF this r(1) [unfolded crossing_def] r(2)] r(1) show ?thesis
    unfolding crossing_def crossing_ends by auto
qed

text \<open>C37. Whatever the events are and whichever messages fail to go out, the messages a daemon hands
  to \<open>tls_send\<close> are numbered one after the other: each logon has the number 1, the first message is
  a logon, and every other message has the number after that of the message before it, while
  there are fewer than 4294967295 of them and the 32-bit counter has not wrapped around.\<close>

theorem fixd_numbers:
  assumes "fixd_program main" "main ss = Some (rc, sl, d)" "length (d_sent d) < 2 ^ 32 - 1"
    and "i < length (d_sent d)"
  defines "m \<equiv> \<lambda>i. fst (d_sent d ! i)"
  shows "if msg_type (m i) = CHR ''A'' then msg_seq (m i) = 1
    else 0 < i \<and> msg_seq (m i) = msg_seq (m (i - 1)) + 1"
proof -
  have "nums d"
    using assms(1)
  proof (cases rule: fixd_program_cases)
    case (runs hello beef d0)
    then have "fixd_main hello beef ss d0 = Some (rc, sl, d)" "nums d0" using assms(2) by (simp_all add: nums_def)
    with fixd_client.main_nums [OF runs(1)] show ?thesis by blast
  qed (use assms(2) in \<open>auto simp: nums_def\<close>)
  then show ?thesis using assms(3,4) by (auto simp: nums_def numbered_def m_def)
qed

theorem fixd_numbers_witness:
  "\<exists>rc sl d. okfix_main (\<lambda>k. k = 0) ''k'' ''s'' [''BTC/USD''] [(True, (0, 5), [[], [SIGINT (0, 7)]])] = Some (rc, sl, d) \<and>
     map snd (d_sent d) = [True, False] \<and>
     msg_seq (fst (d_sent d ! 0)) = 1 \<and> msg_seq (fst (d_sent d ! 1)) = 2"
proof -
  let ?main = "okfix_main (\<lambda>k. k = 0) ''k'' ''s'' [''BTC/USD'']"
  from okfix_hello_bye obtain rc sl d where
    d: "?main [(True, (0, 5), [[], [SIGINT (0, 7)]])] = Some (rc, sl, d)" "map snd (d_sent d) = [True, False]"
      "map (msg_type \<circ> fst) (d_sent d) = ''A5''"
    by auto
  then have l: "length (d_sent d) = 2" by (metis length_map length_Cons list.size(3) numeral_2_eq_2)
  have t: "msg_type (fst (d_sent d ! 0)) = CHR ''A''" "msg_type (fst (d_sent d ! 1)) = CHR ''5''"
    using arg_cong [OF d(3), of "\<lambda>l. l ! 0"] arg_cong [OF d(3), of "\<lambda>l. l ! 1"] l by simp_all
  have p: "fixd_program ?main" unfolding fixd_program_def by blast
  have "msg_seq (fst (d_sent d ! 0)) = 1" "msg_seq (fst (d_sent d ! 1)) = msg_seq (fst (d_sent d ! 0)) + 1"
    using fixd_numbers [OF p d(1), of 0] fixd_numbers [OF p d(1), of 1] l t by simp_all
  with d show ?thesis by simp
qed

end
