(* ===== verification/Clients.thy ===== *)
theory Clients
  imports Fix2b
begin

text \<open>
  The hooks of the programs on top of \<open>src/wssnarf.c\<close>: what they send to log on, to subscribe and to
  keep the connection alive. A hook yields the C result and the messages handed to \<open>ws_send\<close> or
  \<open>rest_send\<close>; \<open>None\<close> is an access outside of a buffer. The instruments are the arguments of the
  program.
\<close>

section \<open>Messages put together in a buffer\<close>

text \<open>
  \<open>snprintf\<close> into a buffer of \<open>bsz\<close> bytes, then sending as many bytes as the text has without the
  limit: a text of \<open>bsz\<close> bytes is sent with its last byte NUL, a longer one reads behind the buffer.
\<close>

definition send_printed :: "nat \<Rightarrow> string \<Rightarrow> string option" where
  "send_printed bsz s =
     (if length s < bsz then Some s else if length s = bsz then Some (take (bsz - 1) s @ [NUL]) else None)"

fun send_all :: "('a \<Rightarrow> string list option) \<Rightarrow> 'a list \<Rightarrow> string list option" where
  "send_all f [] = Some []"
| "send_all f (x # xs) = do { s \<leftarrow> f x; ss \<leftarrow> send_all f xs; Some (s @ ss) }"

section \<open>bitfin\<close>

definition bitfin_sub :: "string \<Rightarrow> string \<Rightarrow> string" where
  "bitfin_sub chan ins =
     ''{\"event\":\"subscribe\",\"channel\":\"'' @ chan @ ''\",\"pair\":\"'' @ ins @ ''\"}'' @ [CR, LF]"

definition bitfin_join :: "string list \<Rightarrow> (int \<times> string list) option" where
  "bitfin_join subs = do {
     ss \<leftarrow> send_all (\<lambda>i. do {
       b \<leftarrow> send_printed 256 (bitfin_sub ''book'' i);
       t \<leftarrow> send_printed 256 (bitfin_sub ''trades'' i);
       k \<leftarrow> send_printed 256 (bitfin_sub ''ticker'' i);
       Some [b, t, k] }) subs;
     Some (0, ss) }"

section \<open>coin\<close>

definition coin_join :: "string list \<Rightarrow> (int \<times> string list) option" where
  "coin_join subs = do {
     ss \<leftarrow> send_all (\<lambda>i. do {
       s \<leftarrow> send_printed 256 (''{\"type\": \"subscribe\", \"product_id\": \"'' @ i @ ''\"}'' @ [CR, LF]);
       Some [s] }) subs;
     Some (0, ss) }"

text \<open>The heartbeat of a REST connection: the static \<open>isub\<close> goes through the instruments, then pauses.
  Seven bytes of the argument are copied, its NUL included if it is shorter.\<close>

definition coin_heartbeat :: "string list \<Rightarrow> bool \<Rightarrow> nat \<Rightarrow> (nat \<times> int \<times> string list) option" where
  "coin_heartbeat subs rest isub =
     (if \<not> rest then Some (isub, 0, [])
      else if length subs \<le> isub then Some (0, 0, [])
      else do {
        check (6 \<le> length (subs ! isub));
        Some (isub + 1, 1, [''/products/'' @ take 7 (subs ! isub @ [NUL]) @ ''/book?level=2'']) })"

section \<open>plxwss\<close>

definition plx_auth :: "int \<times> string list" where
  "plx_auth = (0, [''[1,\"realm1\",{\"roles\" : {\"subscriber\":{}}}]'' @ [CR, LF]])"

fun plx_join_from :: "nat \<Rightarrow> string list \<Rightarrow> string list option" where
  "plx_join_from i [] = Some []"
| "plx_join_from i (s # ss) = do {
     m \<leftarrow> send_printed 256 (''[32, '' @ dec_string i @ '', {}, \"'' @ s @ ''\"]'' @ [CR, LF]);
     ms \<leftarrow> plx_join_from (i + 1) ss;
     Some (m # ms) }"

definition plx_join :: "string list \<Rightarrow> (int \<times> string list) option" where
  "plx_join subs = do { ss \<leftarrow> plx_join_from 0 subs; Some (1, ss) }"

definition plx_heartbeat :: "string list \<Rightarrow> bool \<Rightarrow> nat \<Rightarrow> (nat \<times> int \<times> string list) option" where
  "plx_heartbeat subs rest isub =
     (if \<not> rest then Some (isub, 0, [])
      else if length subs \<le> isub then Some (0, 0, [])
      else (let url = ''/public?command=returnOrderBook&currencyPair='' @ subs ! isub in do {
        check (length url \<le> 256);
        Some (isub + 1, 1, [url]) }))"

section \<open>cexwss\<close>

text \<open>The arguments are pairs: the separator at index 3 becomes NUL.\<close>

fun ccy_args :: "string list \<Rightarrow> string list option option" where
  "ccy_args [] = Some (Some [])"
| "ccy_args (a # as) = do {
     c \<leftarrow> at (a @ [NUL]) 3;
     if c \<noteq> CHR ''/'' \<and> c \<noteq> CHR '':'' then Some None
     else do { r \<leftarrow> ccy_args as; Some (map_option ((#) (a[3 := NUL])) r) } }"

definition cex_join :: "string list \<Rightarrow> (int \<times> string list) option" where
  "cex_join subs = do {
     ss \<leftarrow> send_all (\<lambda>i. do {
       s \<leftarrow> send_printed 256 (''{\"e\":\"order-book-subscribe\",\"data\":{\"pair\":[\"'' @ cstr i @ ''\",\"'' @ cstr (drop 4 i)
         @ ''\"],\"subscribe\":true,\"depth\":0}}'' @ [CR, LF]);
       Some [s] }) subs;
     Some (0, (''{\"e\":\"subscribe\",\"rooms\":[\"tickers\"]}'' @ [CR, LF]) # ss) }"

definition cex_heartbeat :: "int \<times> string list" where
  "cex_heartbeat = (0, [''{\"e\":\"pong\"}'' @ [CR, LF]])"

section \<open>bitmex, trtwss and blinkwss\<close>

text \<open>Instruments that do not fit the template are left out.\<close>

definition bitmex_join :: "string list \<Rightarrow> int \<times> string list" where
  "bitmex_join subs =
     (1, if subs = [] then [''{\"op\":\"subscribe\",\"args\":[\"orderBookL2\"]}'']
         else map (\<lambda>i. ''{\"op\":\"subscribe\",\"args\":[\"orderBookL2:'' @ i @ ''\"]}'') (filter (\<lambda>i. length i \<le> 12) subs))"

definition pusher_sub :: "string \<Rightarrow> string" where
  "pusher_sub chan = ''{\"event\":\"pusher:subscribe\",\"data\":{\"channel\":\"'' @ chan @ ''\"}}''"

definition trt_join :: "string list \<Rightarrow> int \<times> string list" where
  "trt_join subs = (0, map pusher_sub (filter (\<lambda>i. length i \<le> 13) subs))"

text \<open>All instruments in one array, in a buffer of 1024 bytes: a comma is written behind each, the last
  one is overwritten.\<close>

definition blink_req :: string where
  "blink_req = ''{\"MsgType\":\"V\",\"MDReqID\":\"31416\",\"SubscriptionRequestType\":\"1\",''
     @ ''\"MarketDepth\":0,\"MDUpdateType\":\"1\",\"MDEntryTypes\":[\"0\",\"1\",\"2\"],\"Instruments\":''"

definition blink_join :: "string list \<Rightarrow> (int \<times> string list) option" where
  "blink_join subs =
     (let req = blink_req @ ''['' @ concat (map (\<lambda>i. ''\"'' @ i @ ''\",'') subs);
          msg = (if subs = [] then req else butlast req) @ '']}'' in do {
        check (length req \<le> 1024 \<and> length msg \<le> 1024);
        Some (0, [msg]) })"

section \<open>Fixed messages\<close>

text \<open>\<open>src/bitso.c\<close>, \<open>src/kaiko.c\<close> and \<open>src/huobi.c\<close>.\<close>

definition bitso_ord_btc :: string where
  "bitso_ord_btc =
     ''{\"action\":\"subscribe\",\"book\":\"btc_mxn\",\"type\":\"orders\"}'' @ [CR, LF]"

definition bitso_odd_btc :: string where
  "bitso_odd_btc =
     ''{\"action\":\"subscribe\",\"book\":\"btc_mxn\",\"type\":\"diff-orders\"}'' @ [CR, LF]"

definition bitso_tra_btc :: string where
  "bitso_tra_btc =
     ''{\"action\":\"subscribe\",\"book\":\"btc_mxn\",\"type\":\"trades\"}'' @ [CR, LF]"

definition bitso_ord_eth :: string where
  "bitso_ord_eth =
     ''{\"action\":\"subscribe\",\"book\":\"eth_mxn\",\"type\":\"orders\"}'' @ [CR, LF]"

definition bitso_odd_eth :: string where
  "bitso_odd_eth =
     ''{\"action\":\"subscribe\",\"book\":\"eth_mxn\",\"type\":\"diff-orders\"}'' @ [CR, LF]"

definition bitso_tra_eth :: string where
  "bitso_tra_eth =
     ''{\"action\":\"subscribe\",\"book\":\"eth_mxn\",\"type\":\"trades\"}'' @ [CR, LF]"

definition bitso_join :: "int \<times> string list" where
  "bitso_join = (1, [bitso_tra_btc, bitso_ord_btc, bitso_odd_btc, bitso_tra_eth, bitso_ord_eth, bitso_odd_eth])"

definition kaiko_req :: string where
  "kaiko_req =
     ''{  \"type\": \"subscribe\",  \"exchanges\": [    { \"name\": \"indices\", \"channels\": [\"ti''
     @ ''cker\"] },    { \"name\": \"bitmex\", \"channels\": [\"ticker\"] },    { \"name\": \"bitfine''
     @ ''x\", \"channels\": [\"trades#btcusd\", \"orderbook#btcusd\"] },    { \"name\": \"bitstamp\"''
     @ '', \"channels\": [\"trades#btcusd\", \"orderbook#btcusd\"] },    { \"name\": \"btcchina\", ''
     @ ''\"channels\": [\"trades#btccny\", \"orderbook#btccny\"] },    { \"name\": \"huobi\", \"chan''
     @ ''nels\": [\"trades#btcusd,btccny\", \"orderbook#btcusd,btccny\"] }  ]}''
     @ [LF]"

definition huobi_req :: string where
  "huobi_req =
     ''5:::{\"name\":\"request\", \"args\":[{\"symbolList\":{\"marketDepthTop\":['' @ [TAB]
     @ ''{\"symbolId\":\"btccny\",\"pushType\":\"websocket\"},'' @ [TAB]
     @ ''{\"symbolId\":\"ltccny\",\"pushType\":\"websocket\"},'' @ [TAB]
     @ ''{\"symbolId\":\"btcusd\",\"pushType\":\"websocket\"}], \"tradeDetail\":['' @ [TAB]
     @ ''{\"symbolId\":\"btccny\",\"pushType\":\"websocket\"},'' @ [TAB]
     @ ''{\"symbolId\":\"ltccny\",\"pushType\":\"websocket\"},'' @ [TAB]
     @ ''{\"symbolId\":\"btcusd\",\"pushType\":\"websocket\"}]},\"version\":1,\"msgType\":\"reqMsgSubs''
     @ ''cribe\"}]}''"

definition kaiko_join :: "int \<times> string list" where
  "kaiko_join = (0, [kaiko_req])"

definition huobi_join :: "int \<times> string list" where
  "huobi_join = (1, [huobi_req])"

definition huobi_heartbeat :: "int \<times> string list" where
  "huobi_heartbeat = (0, [''2::''])"

text \<open>\<open>src/btsp.c\<close>.\<close>

definition btsp_channels :: "string list" where
  "btsp_channels =
     [''live_trades'', ''live_trades_btceur'', ''live_trades_eurusd'', ''live_trades_xrpusd'',
      ''live_trades_xrpeur'', ''live_orders'', ''live_orders_btceur'', ''live_orders_eurusd'',
      ''live_orders_xrpusd'', ''live_orders_xrpeur'', ''diff_order_book'', ''diff_order_book_btceur'',
      ''diff_order_book_eurusd'', ''diff_order_book_xrpusd'', ''diff_order_book_xrpeur'', ''order_book'',
      ''order_book_btceur'', ''order_book_eurusd'', ''order_book_xrpusd'', ''order_book_xrpeur'']"

definition btsp_join :: "int \<times> string list" where
  "btsp_join = (1, map pusher_sub btsp_channels)"

text \<open>\<open>src/paymium.c\<close>, of whose heartbeat one byte is sent, and \<open>src/spacebtc.c\<close>.\<close>

definition paymium_auth :: "int \<times> string list" where
  "paymium_auth = (0, [''2probe''])"

definition paymium_join :: "int \<times> string list" where
  "paymium_join = (0, [''40/public''])"

definition paymium_heartbeat :: "int \<times> string list" where
  "paymium_heartbeat = (0, [take 1 ''2pong''])"

definition spacebtc_auth :: "int \<times> string list" where
  "spacebtc_auth = (0, [''2probe''])"

definition spacebtc_join :: "int \<times> string list" where
  "spacebtc_join = (0, [''5''])"

definition spacebtc_heartbeat :: "int \<times> string list" where
  "spacebtc_heartbeat = (0, [''5''])"

section \<open>luno and gemini\<close>

definition luno_join :: "string \<Rightarrow> string \<Rightarrow> int \<times> string list" where
  "luno_join key sec = (0, [''{\"api_key_id\":\"'' @ key @ ''\",\"api_key_secret\":\"'' @ sec @ ''\"}''])"

definition luno_heartbeat :: "int \<times> string list" where
  "luno_heartbeat = (0, [''{}''])"

text \<open>The URL is put together in 64 bytes; \<open>Inl\<close> is the return code when there is no argument.\<close>

definition luno_url :: "string list \<Rightarrow> (int + string) option" where
  "luno_url args =
     (case args of
        [] \<Rightarrow> Some (Inl 1)
      | a # _ \<Rightarrow> (let url = ''wss://ws.bitx.co/api/1/stream/'' @ a in do {
          check (length url + 1 \<le> 64);
          Some (Inr url) }))"

definition gemini_url :: "string list \<Rightarrow> int + string" where
  "gemini_url args =
     (case args of
        [] \<Rightarrow> Inl 1
      | a # _ \<Rightarrow> if length a \<noteq> 6 then Inl 1
          else Inr (''wss://api.gemini.com/v1/marketdata/'' @ a @ ''?heartbeat=true''))"

section \<open>coinfl\<close>

definition coinfl_tbl :: "(string \<times> nat) list" where
  "coinfl_tbl = [(''XBT'', 0xf800), (''EUR'', 0xfa00), (''GBP'', 0xfa20), (''USD'', 0xfa80), (''PLN'', 0xfda8)]"

text \<open>The entry whose name agrees with the text in four bytes, NUL included.\<close>

fun coinfl_code :: "(string \<times> nat) list \<Rightarrow> string \<Rightarrow> nat option option" where
  "coinfl_code [] s = Some None"
| "coinfl_code ((n, c) # tbl) s = do {
     eq \<leftarrow> memcmp_mem s (n @ [NUL]);
     if eq then Some (Some c) else coinfl_code tbl s }"

definition coinfl_join :: "string list \<Rightarrow> (int \<times> string list) option" where
  "coinfl_join subs = do {
     ss \<leftarrow> send_all (\<lambda>i. do {
       b \<leftarrow> coinfl_code coinfl_tbl i;
       (case b of
          None \<Rightarrow> Some []
        | Some bc \<Rightarrow> do {
            t \<leftarrow> coinfl_code coinfl_tbl (drop 4 i);
            (case t of
               None \<Rightarrow> Some []
             | Some tc \<Rightarrow> do {
                 s \<leftarrow> send_printed 256 (''{\"method\":\"WatchOrders\",\"base\":'' @ dec_string bc @ '',\"counter\":'' @ dec_string tc
                   @ '',\"watch\":true}'');
                 Some [s] }) }) }) subs;
     Some (0, ss) }"

text \<open>The nonce in the answer to connecting: behind the colon and the next quote, up to another.\<close>

definition behind :: "char \<Rightarrow> string \<Rightarrow> string option" where
  "behind c s = map_option tl (memchr c s)"

definition coinfl_nonce :: "string \<Rightarrow> string option option" where
  "coinfl_nonce buf =
     (case xmemmem_str buf ''nonce'' of
        None \<Rightarrow> Some None
      | Some nnc \<Rightarrow> do {
          nnc \<leftarrow> behind (CHR '':'') nnc;
          nnc \<leftarrow> behind DQUOTE nnc;
          eon \<leftarrow> memchr DQUOTE nnc;
          Some (Some (take (length nnc - length eon) nnc)) })"

definition coinfl_connd :: "string \<Rightarrow> int option" where
  "coinfl_connd buf = map_option (\<lambda>n. if n = None then -1 else 1) (coinfl_nonce buf)"

definition coinfl_authd :: "string \<Rightarrow> int" where
  "coinfl_authd buf = (if xmemmem_str buf ''\"error_code\":0'' = None then -1 else 1)"

section \<open>fast\<close>

definition fast_join_quot :: "string list \<Rightarrow> (int \<times> string list) option" where
  "fast_join_quot subs = do {
     ss \<leftarrow> send_all (\<lambda>i. do { s \<leftarrow> send_printed 64 (''{\"currency\":\"'' @ i @ ''\"}''); Some [s] }) subs;
     Some (1, ''{\"filter\":[\"NMC\",\"SPH\",\"SD\",\"BK\",\"MA\"]}'' # ss) }"

definition fast_pairs :: "string list" where
  "fast_pairs =
     [''AUD/CAD'', ''AUD/CHF'', ''AUD/DKK'', ''AUD/HKD'', ''AUD/JPY'', ''AUD/NOK'', ''AUD/NZD'', ''AUD/SEK'',
      ''AUD/SGD'', ''AUD/USD'', ''AUD/ZAR'', ''CAD/CHF'', ''CAD/DKK'', ''CAD/HKD'', ''CAD/JPY'', ''CAD/MXN'',
      ''CAD/NOK'', ''CAD/PLN'', ''CAD/SEK'', ''CAD/SGD'', ''CAD/ZAR'', ''CHF/CZK'', ''CHF/DKK'', ''CHF/HKD'',
      ''CHF/HUF'', ''CHF/ILS'', ''CHF/JPY'', ''CHF/MXN'', ''CHF/NOK'', ''CHF/PLN'', ''CHF/SEK'', ''CHF/SGD'',
      ''CHF/TRY'', ''CHF/ZAR'', ''CZK/JPY'', ''DKK/HKD'', ''DKK/JPY'', ''DKK/NOK'', ''DKK/SEK'', ''EUR/AUD'',
      ''EUR/CAD'', ''EUR/CHF'', ''EUR/CZK'', ''EUR/DKK'', ''EUR/GBP'', ''EUR/HKD'', ''EUR/HUF'', ''EUR/ILS'',
      ''EUR/JPY'', ''EUR/MXN'', ''EUR/NOK'', ''EUR/NZD'', ''EUR/PLN'', ''EUR/RUB'', ''EUR/SEK'', ''EUR/SGD'',
      ''EUR/TRY'', ''EUR/USD'', ''EUR/ZAR'', ''GBP/AUD'', ''GBP/CAD'', ''GBP/CHF'', ''GBP/CZK'', ''GBP/DKK'',
      ''GBP/HKD'', ''GBP/HUF'', ''GBP/ILS'', ''GBP/JPY'', ''GBP/MXN'', ''GBP/NOK'', ''GBP/NZD'', ''GBP/PLN'',
      ''GBP/SEK'', ''GBP/SGD'', ''GBP/TRY'', ''GBP/USD'', ''GBP/ZAR'', ''HKD/JPY'', ''HUF/JPY'', ''MXN/JPY'',
      ''NOK/HKD'', ''NOK/JPY'', ''NOK/SEK'', ''NZD/CAD'', ''NZD/CHF'', ''NZD/DKK'', ''NZD/HKD'', ''NZD/JPY'',
      ''NZD/NOK'', ''NZD/PLN'', ''NZD/SEK'', ''NZD/SGD'', ''NZD/USD'', ''NZD/ZAR'', ''PLN/HUF'', ''PLN/JPY'',
      ''SEK/HKD'', ''SEK/JPY'', ''SGD/DKK'', ''SGD/HKD'', ''SGD/JPY'', ''SGD/MXN'', ''SGD/NOK'', ''SGD/SEK'',
      ''TRY/JPY'', ''USD/CAD'', ''USD/CHF'', ''USD/CNH'', ''USD/CZK'', ''USD/DKK'', ''USD/GHS'', ''USD/HKD'',
      ''USD/HUF'', ''USD/ILS'', ''USD/JPY'', ''USD/KES'', ''USD/MXN'', ''USD/NOK'', ''USD/PLN'', ''USD/RON'',
      ''USD/RUB'', ''USD/SEK'', ''USD/SGD'', ''USD/TRY'', ''USD/ZAR'', ''XAG/USD'', ''XAU/USD'', ''XPD/USD'',
      ''XPT/USD'', ''ZAR/JPY'', ''ZAR/MXN'']"

definition fast_join_tape :: "int \<times> string list" where
  "fast_join_tape =
     (1, [''{\"currencies\": ['' @ tl (concat (map (\<lambda>p. '',\"'' @ p @ ''\"'') fast_pairs)) @ '' ]}''])"

text \<open>The static \<open>i\<close> tells the two connections apart by the order in which they ask.\<close>

definition fast_join :: "string list \<Rightarrow> nat \<Rightarrow> (nat \<times> int \<times> string list) option" where
  "fast_join subs i =
     (if i = 0 then do { (rc, ss) \<leftarrow> fast_join_quot subs; Some (i + 1, rc, ss) }
      else if i = 1 then (case fast_join_tape of (rc, ss) \<Rightarrow> Some (i + 1, rc, ss))
      else Some (i + 1, -1, []))"

section \<open>ff\<close>

text \<open>
  The lines of the join file \<open>jb\<close>, mapped into memory, that are not empty and no comment. The newline
  is looked for in as many bytes as the whole file has, from the current line on.
\<close>

function ff_lines :: "string \<Rightarrow> nat \<Rightarrow> string list option" where
  "ff_lines jb jp =
     (if jp < length jb
      then (case memchr LF (drop jp jb) of
         None \<Rightarrow> if jp = 0 then Some [] else None
       | Some eol \<Rightarrow> do {
           (let n = length jb - jp - length eol; c = jb ! jp in do {
             ss \<leftarrow> ff_lines jb (jp + n + 1);
             Some (if c = CHR ''#'' \<or> c = LF then ss else take (n + 1) (drop jp jb) # ss) }) })
      else Some [])"
  by pat_completeness auto
termination by (relation "measure (\<lambda>(jb, jp). length jb - jp)") auto

declare ff_lines.simps [simp del]

text \<open>\<open>None\<close> for a file that cannot be opened, looked at or mapped, or is empty.\<close>

definition ff_join :: "string option \<Rightarrow> (int \<times> string list) option" where
  "ff_join file =
     (case file of
        None \<Rightarrow> Some (-1, [])
      | Some jb \<Rightarrow> if jb = [] then Some (-1, []) else do { ss \<leftarrow> ff_lines jb 0; Some (0, ss) })"

end
