(* ===== verification/Clients_Props.thy ===== *)
theory Clients_Props
  imports Clients
begin

text \<open>
  The heartbeats that go through the instruments request each of them once in every round, and the
  join file is sent line by line.
\<close>

section \<open>Rounds of heartbeats\<close>

text \<open>A number of heartbeats from a value of the static on: its last value and what they send.\<close>

fun beats :: "(nat \<Rightarrow> (nat \<times> int \<times> string list) option) \<Rightarrow> nat \<Rightarrow> nat \<Rightarrow> (nat \<times> string list) option" where
  "beats h 0 i = Some (i, [])"
| "beats h (Suc k) i = do { (j, rc, ss) \<leftarrow> h i; (j1, ss1) \<leftarrow> beats h k j; Some (j1, ss @ ss1) }"

definition cycles :: "(nat \<Rightarrow> (nat \<times> int \<times> string list) option) \<Rightarrow> (string \<Rightarrow> string) \<Rightarrow> string list \<Rightarrow> bool" where
  "cycles h url subs \<longleftrightarrow> (\<forall>i. h i = Some (if i < length subs then (i + 1, 1, [url (subs ! i)]) else (0, 0, [])))"

lemma beats_run:
  "cycles h url subs \<Longrightarrow> i + k \<le> length subs \<Longrightarrow>
    beats h (k + m) i = map_option (\<lambda>(j, ss). (j, map url (take k (drop i subs)) @ ss)) (beats h m (i + k))"
proof (induction k arbitrary: i)
  case 0
  then show ?case by (simp add: option.map_ident split: option.splits)
next
  case (Suc k)
  have "take (Suc k) (drop i subs) = subs ! i # take k (drop (i + 1) subs)"
    using Suc.prems(2) by (simp add: Cons_nth_drop_Suc [symmetric])
  moreover have "h i = Some (i + 1, 1, [url (subs ! i)])" using Suc.prems by (simp add: cycles_def)
  moreover note Suc.IH [OF Suc.prems(1), of "i + 1"]
  ultimately show ?case using Suc.prems(2) by (cases "beats h m (i + 1 + k)") auto
qed

lemma beats_round:
  assumes "cycles h url subs" "i \<le> length subs"
  shows "beats h (length subs + 1) i = Some (i, map url (drop i subs @ take i subs))"
proof -
  have "beats h i 0 = Some (i, map url (take i subs))"
    using beats_run [OF assms(1), of 0 i 0] assms(2) by simp
  moreover have "h (length subs) = Some (0, 0, [])" using assms(1) by (simp add: cycles_def)
  ultimately have "beats h (Suc i) (length subs) = Some (i, map url (take i subs))" by simp
  moreover have "length subs + 1 = (length subs - i) + Suc i" using assms(2) by simp
  ultimately show ?thesis
    using beats_run [OF assms(1), of i "length subs - i" "Suc i"] assms(2) by (simp del: beats.simps)
qed

text \<open>
  What is requested for an instrument. \<open>coin\<close> copies seven bytes of the argument over the seven of
  its text, so that \<open>LINK-USD\<close> becomes \<open>LINK-US\<close>, and takes the NUL of one with six.
\<close>

definition coin_url :: "string \<Rightarrow> string" where
  "coin_url s = ''/products/'' @ take 7 (s @ [NUL]) @ ''/book?level=2''"

definition plx_url :: "string \<Rightarrow> string" where
  "plx_url s = ''/public?command=returnOrderBook&currencyPair='' @ s"

text \<open>C39. Wherever the heartbeats of \<open>coin\<close> and \<open>plxwss\<close> are in their round, the next ones, as many as
  there are instruments and one more, request the book of each instrument exactly once, and
  are at the same place again. An instrument of \<open>coin\<close> must have six characters or more, or bytes
  behind it are read, and is requested by the first seven of them; one of \<open>plxwss\<close> must have at most
  211, or the 256 bytes of the request are overrun.\<close>

theorem heartbeats_request_all:
  assumes "i \<le> length subs"
  shows "((\<forall>s \<in> set subs. 6 \<le> length s) \<longrightarrow>
      beats (coin_heartbeat subs True) (length subs + 1) i = Some (i, map coin_url (drop i subs @ take i subs))) \<and>
    ((\<forall>s \<in> set subs. length s \<le> 211) \<longrightarrow>
      beats (plx_heartbeat subs True) (length subs + 1) i = Some (i, map plx_url (drop i subs @ take i subs)))"
proof (intro conjI impI beats_round assms)
  assume "\<forall>s \<in> set subs. 6 \<le> length s"
  then show "cycles (coin_heartbeat subs True) coin_url subs"
    by (simp add: cycles_def coin_heartbeat_def coin_url_def all_set_conv_all_nth)
next
  assume "\<forall>s \<in> set subs. length s \<le> 211"
  then show "cycles (plx_heartbeat subs True) plx_url subs"
    by (simp add: cycles_def plx_heartbeat_def plx_url_def all_set_conv_all_nth)
qed

theorem heartbeats_request_all_witness:
  "beats (coin_heartbeat [''BTC-USD'', ''LINK-USD''] True) 3 1 =
     Some (1, [''/products/LINK-US/book?level=2'', ''/products/BTC-USD/book?level=2'']) \<and>
   beats (plx_heartbeat [''USDT_BTC'', ''BTC_XMR''] True) 3 1 =
     Some (1, [''/public?command=returnOrderBook&currencyPair=BTC_XMR'',
       ''/public?command=returnOrderBook&currencyPair=USDT_BTC''])"
  using heartbeats_request_all [of 1 "[''BTC-USD'', ''LINK-USD'']"]
    heartbeats_request_all [of 1 "[''USDT_BTC'', ''BTC_XMR'']"]
  by (simp add: coin_url_def plx_url_def numeral_3_eq_3)

section \<open>The join file\<close>

definition ff_wanted :: "string \<Rightarrow> bool" where
  "ff_wanted l \<longleftrightarrow> l \<noteq> [] \<and> hd l \<noteq> CHR ''#''"

lemma ff_lines_from:
  "\<forall>l \<in> set ls. LF \<notin> set l \<Longrightarrow> drop jp jb = concat (map (\<lambda>l. l @ [LF]) ls) \<Longrightarrow>
    ff_lines jb jp = Some (map (\<lambda>l. l @ [LF]) (filter ff_wanted ls))"
proof (induction ls arbitrary: jp)
  case Nil
  then show ?case by (simp add: ff_lines.simps [of jb jp])
next
  case (Cons l ls)
  let ?r = "concat (map (\<lambda>l. l @ [LF]) ls)"
  have d: "drop jp jb = l @ LF # ?r" using Cons.prems(2) by simp
  then have lt: "jp < length jb" by (metis append_is_Nil_conv drop_all list.distinct(1) not_le)
  have len: "length jb - jp = length l + 1 + length ?r" using arg_cong [OF d, of length] by simp
  have "jb ! jp = hd (l @ [LF])" using d lt hd_drop_conv_nth [OF lt] by (cases l) simp_all
  then have "ff_wanted l \<longleftrightarrow> \<not> (jb ! jp = CHR ''#'' \<or> jb ! jp = LF)"
    using Cons.prems(1) by (cases l) (auto simp: ff_wanted_def)
  moreover have "drop (jp + length l + 1) jb = ?r"
    using arg_cong [OF d, of "drop (length l + 1)"] by (simp add: add.commute add.left_commute)
  then have "ff_lines jb (jp + length l + 1) = Some (map (\<lambda>l. l @ [LF]) (filter ff_wanted ls))"
    using Cons.IH Cons.prems(1) by simp
  moreover have "memchr LF (drop jp jb) = Some (LF # ?r)" using d Cons.prems(1) by simp
  moreover have "take (length l + 1) (drop jp jb) = l @ [LF]" unfolding d by simp
  ultimately show ?case using lt len by (simp add: ff_lines.simps [of jb jp])
qed

text \<open>C40. Of a join file whose last line is complete, exactly the lines are sent that are not empty and no
  comment, in their order and with their newlines.\<close>

theorem ff_join_sends_lines:
  assumes "ls \<noteq> []" "\<forall>l \<in> set ls. LF \<notin> set l"
  shows "ff_join (Some (concat (map (\<lambda>l. l @ [LF]) ls))) = Some (0, map (\<lambda>l. l @ [LF]) (filter ff_wanted ls))"
proof -
  have "ff_lines (concat (map (\<lambda>l. l @ [LF]) ls)) 0 = Some (map (\<lambda>l. l @ [LF]) (filter ff_wanted ls))"
    by (rule ff_lines_from) (use assms(2) in simp_all)
  with assms(1) show ?thesis by (cases ls) (simp_all add: ff_join_def)
qed

theorem ff_join_sends_lines_witness:
  "ff_join (Some (concat (map (\<lambda>l. l @ [LF]) [''#x'', ''sub 1'', [], ''sub 2'']))) =
     Some (0, [''sub 1'' @ [LF], ''sub 2'' @ [LF]])"
  using ff_join_sends_lines [of "[''#x'', ''sub 1'', [], ''sub 2'']"] by (simp add: ff_wanted_def)

end
