(* ===== verification/Spec2Isabelle.thy ===== *)
theory Spec2Isabelle
  imports XXHash Inflate_Spec Jsmn_Spec Jsmn_Tree Ws_Spec Ws_Props Wssnarf_Props Wssnarf_Log Fix_Props
    Bitfin2b_Props Hit2b_Props Cex2b_Props Btsp2b Plx2b Trt2b_Props Coin2b Fix2b_Props Massage_Props
    Fix_Daemon_Props Clients_Props
begin

text \<open>
  The programs of this repository record what the exchanges of crypto currencies publish. There are
  two kinds. Daemons connect to an exchange, by websockets, HTTP or FIX, and append each line they
  are sent to a log, behind the time. Converters, their names end in \<open>2b\<close>, read such a log and
  write a line with times, instrument, side, price and quantity for each change of a book.

  \<^bold>\<open>The parts of the program and their theories.\<close> All paths are below \<open>src/src\<close>.

  \<^item> \<open>Coin_Prelude\<close>: machine types, C text, checked accesses, facts about lists and words.
  \<^item> \<open>Text_Scan\<close>: the search \<open>xmemmem\<close>, of which \<open>ws.c\<close> and most programs hold a copy, and \<open>strtoul\<close>.
  \<^item> \<open>XXHash\<close>: \<open>hash.c\<close>, the hash by which the converters tell the keys of objects apart.
  \<^item> \<open>Inflate\<close> (functions of \<open>tinflate.c\<close> by their names), \<open>Inflate_Safety\<close>, \<open>Inflate_Stream\<close>,
    \<open>Inflate_Huffman\<close>, \<open>Inflate_Spec\<close>: the inflater for compressed feeds.
  \<^item> \<open>Jsmn\<close> (\<open>jsmn.c\<close>: \<open>jsmn_parse\<close> as a loop of rounds, one per character), \<open>Jsmn_Spec\<close>, \<open>Jsmn_Tree\<close>: the
    tokeniser of the converters.
  \<^item> \<open>Ws_Frame\<close> and \<open>Ws\<close> (\<open>ws.c\<close>), \<open>Ws_Spec\<close>, \<open>Ws_Props\<close>: frames, control frames, URLs, handshakes, opening,
    closing and the reader of HTTP answers. \<open>ws_s\<close> is \<open>struct ws_s\<close>, \<open>ws_globals\<close> the statics.
  \<^item> \<open>Wssnarf\<close> (\<open>wssnarf.c\<close>), \<open>Wssnarf_Props\<close>, \<open>Wssnarf_Log\<close>: the core of the websocket daemons. \<open>wssnarf_s\<close>
    is the context, \<open>coin\<close> one of its slots, \<open>client\<close> what the hooks of a program do when they
    are called: which of \<open>ws_send\<close>, \<open>rest_send\<close> and \<open>wssnarf_log\<close> they call, and what they answer. Every handler of
    the event loop is a function of the context, and \<open>snarf_step\<close> the relation of what the loop may call.
  \<^item> \<open>Massage\<close>, \<open>Massage_Props\<close>: the \<open>massage\<close> hooks of \<open>btsp.c\<close>, \<open>trtwss.c\<close>, \<open>paymium.c\<close> and \<open>spacebtc.c\<close>.
  \<^item> \<open>Clients\<close>, \<open>Clients_Props\<close>: the other hooks of the websocket daemons.
  \<^item> \<open>Fix\<close> (\<open>fix.c\<close>), \<open>Fix_Props\<close>: rendering and parsing of FIX messages.
  \<^item> \<open>Fix_Daemon\<close> (\<open>okfix.c\<close>, \<open>btcc.c\<close>, \<open>derifix.c\<close>), \<open>Fix_Daemon_Props\<close>: the FIX daemons. \<open>fixd\<close> is their state,
    \<open>fixd_event\<close> what the event loop delivers, \<open>fixd_main\<close> the loop of \<open>main\<close>. The event loop is that of libev as
    documented: \<open>fixd_ev_run\<close> runs all that is pending in an iteration, and leaves after it when it is told to.
  \<^item> \<open>Convert\<close>, \<open>Convert_Json\<close>, \<open>Dates\<close>: what the converters share, times, the 256 byte line buffer, accesses
    to tokens, and dates.
  \<^item> \<open>Bitfin2b\<close>, \<open>Hit2b\<close>, \<open>Cex2b\<close>, \<open>Btsp2b\<close>, \<open>Plx2b\<close>, \<open>Trt2b\<close>, \<open>Coin2b\<close>, with \<open>_Props\<close> for their properties: the
    converter of that name, from \<open>procln\<close>, which takes one line, to the loop of \<open>main\<close> over the lines.
  \<^item> \<open>Fix2b\<close>, \<open>Fix2b_Props\<close>: the converters of FIX feeds, \<open>btcc2b.c\<close> and \<open>ok2b.c\<close>.

  \<^bold>\<open>How they interact.\<close> A websocket daemon hands the bytes of \<open>ws_recv\<close> to the core, which inflates them
  if the exchange compresses, cuts them into lines, lets \<open>massage\<close> work on each in place, and logs it.
  A converter reads the time with \<open>strtotv\<close>, tokenises the rest with \<open>jsmn_parse\<close>, recognises keys with
  \<open>hash\<close> and writes through a buffer of 256 bytes. The FIX daemons render and parse with \<open>fix.c\<close>, and
  so do the converters of their logs.

  \<^bold>\<open>How the code is modelled.\<close> A pointer into text is the rest of the text, or an index where the code
  overwrites the buffer it reads. An access the C standard gives no meaning to, behind a buffer or to a
  variable without a value, is \<open>None\<close>, so that a theorem that gives \<open>Some\<close> also says that there is none.
  C's return codes are values. What comes from outside, reads, clocks, the connections that can be
  made, \<open>malloc\<close>, is an argument; what is written is part of the result or of the state.

  \<^bold>\<open>The interfaces.\<close> \<open>bit_source\<close>: the decoders of the inflater over a source of bits, provided by the bit
  reader. \<open>exact_key\<close>: lookup by hash over keys on which the hash is injective, provided by \<open>hash\<close> for keys
  of four characters. \<open>token_view\<close>: the accesses of the converters to tokens, provided by the tokens of a
  line that is JSON. \<open>extents\<close>: the loop of \<open>massage\<close> over a search for the next string, provided by both
  searches. \<open>fixd_client\<close>: the loop of a FIX daemon over its logon and its reader, provided by the three.

  \<^bold>\<open>What is proved.\<close>
  \<^item> Hash: independence of byte order and alignment, exactness on keys of four characters.
  \<^item> Inflater: it runs on every input without an access out of bounds or a failing assertion; it decodes
    canonical Huffman codes, fixed codes and stored blocks; its match copy is the repetition of LZ77.
  \<^item> Tokeniser: it stays inside of any array of tokens and yields a forest; for the text of a JSON value it
    yields the tokens of that value; counting without an array agrees.
  \<^item> Websockets: reading in place refines reading from a list; what is sent is read back; where the
    buffer is overrun; URLs, the count of users of the global buffer, bodies read in pieces.
  \<^item> Daemon core: an invariant of all reachable contexts; an interrupt ends the loop; what is finished is
    not opened again, except for the case stated; the log is the feed cut into lines, however it arrives.
  \<^item> Unescaping: in place and whatever follows in the buffer, lines with escaped objects become lines
    with the objects; what happens to lines that are cut off.
  \<^item> FIX: length, checksum, round trip; the numbering, which starts over with each logon; the daemons end
    when they leave the event loop, except when a logon or a logout is still read in that iteration.
  \<^item> Converters: round trip of times; the table of subscriptions, its errors and the line lengths;
    books, as the exchange sends them, become lines in the order of their levels.

  \<^bold>\<open>Bounds and fuel.\<close> Loops are recursive functions with a measure, all total. The one with fuel is the
  inner loop of the tokeniser that walks up to the superior token; its fuel is the number of tokens, more
  than there are on any way up. Text is assumed shorter than \<open>2 ^ 64\<close> where it is counted, and where a
  theorem says that the line buffer of a converter is large enough, the lines read have at most 200 to
  253 characters, or those written at most 256: the code does not check. \<open>fixd_numbers\<close> ends before the 32-bit counter wraps around.

  \<^bold>\<open>Not modelled.\<close> \<open>tls.c\<close> and the socket calls, libev and OpenSSL are the environment, and the hexdumps
  and messages on the standard error have no effect on it. \<open>init_ev\<close>, \<open>deinit_ev\<close> and \<open>free_wssnarf\<close> only
  register watchers and free memory. \<open>bncwss.c\<close>, \<open>cbix.c\<close>, \<open>hitwss.c\<close> and the \<open>main\<close> functions of the other
  websocket daemons pass constants to the core. The signatures in \<open>cexwss.c\<close>, \<open>coinfl.c\<close>, \<open>deribit.c\<close> and
  \<open>derifix.c\<close> need credentials that are not in the repository. \<open>build-aux/yuck.c\<close> and \<open>yuck-scmver.c\<close> are
  tools of the build.
\<close>

end
